(* ===== verification/Prelude.thy ===== *)
theory Prelude
  imports Main "HOL-Library.Word" "HOL-Library.Sublist" "HOL-Library.Char_ord"
    "HOL-Library.List_Lexorder"
begin

text \<open>
  Shared vocabulary of the development: the machine types of the crate, results with errors
  and panics, the Rust standard-library pieces the crate uses that belong to no component
  (UTF-8 validation, the \<open>for\<close> loop over a vector that stops at the first error), and the
  generic list and word facts the component theories use.
\<close>

subsection \<open>Machine types\<close>

text \<open>
  A byte is Isabelle's 8-bit \<open>char\<close>, so that \<open>String::as_bytes\<close> is the identity and a
  Rust \<open>String\<close> is a \<open>string\<close> that satisfies \<open>utf8_valid\<close> below. A \<open>u64\<close> is a
  64-bit word: \<open>+\<close> wraps as in a release build.
\<close>

type_synonym byte = char
type_synonym bytes = "byte list"
type_synonym u64 = "64 word"
type_synonym uuid = "128 word"

definition u64_MAX :: u64 where
  "u64_MAX = - 1"

subsection \<open>Errors, panics\<close>

text \<open>\<open>std::io::Error\<close>: its kind and its message.\<close>

datatype io_error_kind = NotFound | PermissionDenied | AlreadyExists | InvalidData | OtherKind

record io_error =
  kind :: io_error_kind
  message :: string

definition io_error_new :: "io_error_kind \<Rightarrow> string \<Rightarrow> io_error" where
  "io_error_new k m = \<lparr>kind = k, message = m\<rparr>"

definition io_error_other :: "string \<Rightarrow> io_error" where
  "io_error_other m = io_error_new OtherKind m"

text \<open>
  A function of the crate either returns a value, returns an error of its error type, or
  panics (\<open>expect\<close>, an index out of a map): the two failures are kept apart.
\<close>

datatype 'e fault = Raised 'e | Panicked string

subsection \<open>Collections of facts\<close>

named_theorems folds \<open>equations of the event-folding functions\<close>
named_theorems laws \<open>laws a component promises its clients\<close>

subsection \<open>Loops over vectors\<close>

text \<open>
  \<open>iter().map(f).collect::<Result<Vec<_>, _>>()\<close> with a stateful \<open>f\<close>: element by
  element, stopping at the first failure.
\<close>

fun collect_results :: "('a \<Rightarrow> 's \<Rightarrow> ('e + 'b) \<times> 's) \<Rightarrow> 'a list \<Rightarrow> 's \<Rightarrow> ('e + 'b list) \<times> 's" where
  "collect_results f [] s = (Inr [], s)"
| "collect_results f (x # xs) s =
     (case f x s of
        (Inl e, s') \<Rightarrow> (Inl e, s')
      | (Inr y, s') \<Rightarrow>
          (case collect_results f xs s' of
             (Inl e, s'') \<Rightarrow> (Inl e, s'')
           | (Inr ys, s'') \<Rightarrow> (Inr (y # ys), s'')))"

lemma collect_results_Inr:
  assumes "collect_results f xs s = (Inr ys, s')"
    and "\<And>x s y s'. x \<in> set xs \<Longrightarrow> f x s = (Inr y, s') \<Longrightarrow> P x y"
  shows "list_all2 P xs ys"
  using assms
  by (induction xs arbitrary: s ys) (auto split: prod.splits sum.splits)

lemma collect_results_state:
  assumes "\<And>x s. x \<in> set xs \<Longrightarrow> R s (snd (f x s))"
    and "\<And>s. R s s" and "\<And>a b c. R a b \<Longrightarrow> R b c \<Longrightarrow> R a c"
  shows "R s (snd (collect_results f xs s))"
  using assms(1)
proof (induction xs arbitrary: s)
  case Nil
  show ?case by (simp add: assms(2))
next
  case (Cons x xs)
  have head: "R s (snd (f x s))" by (simp add: Cons.prems)
  show ?case
  proof (cases "fst (f x s)")
    case (Inl e)
    with head show ?thesis by (auto split: prod.splits sum.splits)
  next
    case (Inr y)
    have "R (snd (f x s)) (snd (collect_results f xs (snd (f x s))))"
      by (rule Cons.IH) (simp add: Cons.prems)
    with head have "R s (snd (collect_results f xs (snd (f x s))))" by (rule assms(3))
    with Inr show ?thesis by (auto split: prod.splits sum.splits)
  qed
qed

lemma collect_results_total:
  assumes "\<And>x s. x \<in> set xs \<Longrightarrow> \<exists>y s'. f x s = (Inr y, s')"
  shows "\<exists>ys s'. collect_results f xs s = (Inr ys, s')"
  using assms
proof (induction xs arbitrary: s)
  case Nil
  then show ?case by simp
next
  case (Cons x xs)
  obtain y s1 where hd_ok: "f x s = (Inr y, s1)" using Cons.prems by (metis list.set_intros(1))
  obtain ys s2 where "collect_results f xs s1 = (Inr ys, s2)"
    using Cons.IH Cons.prems by (metis list.set_intros(2))
  with hd_ok show ?case by simp
qed

subsection \<open>UTF-8\<close>

text \<open>
  \<open>std::str::from_utf8\<close>: the well-formed byte sequences of the Unicode standard (no
  overlong forms, no surrogates, nothing above \<open>U+10FFFF\<close>).
\<close>

definition byte_in :: "nat \<Rightarrow> nat \<Rightarrow> byte \<Rightarrow> bool" where
  "byte_in lo hi b \<longleftrightarrow> lo \<le> of_char b \<and> of_char b \<le> hi"

fun utf8_valid :: "bytes \<Rightarrow> bool" where
  "utf8_valid [] = True"
| "utf8_valid (a # bs) =
     (if byte_in 0 127 a then utf8_valid bs
      else if byte_in 194 223 a then
        (case bs of b # r \<Rightarrow> byte_in 128 191 b \<and> utf8_valid r | _ \<Rightarrow> False)
      else if byte_in 224 239 a then
        (case bs of
           b # c # r \<Rightarrow>
             byte_in (if of_char a = (224::nat) then 160 else 128)
               (if of_char a = (237::nat) then 159 else 191) b \<and>
             byte_in 128 191 c \<and> utf8_valid r
         | _ \<Rightarrow> False)
      else if byte_in 240 244 a then
        (case bs of
           b # c # d # r \<Rightarrow>
             byte_in (if of_char a = (240::nat) then 144 else 128)
               (if of_char a = (244::nat) then 143 else 191) b \<and>
             byte_in 128 191 c \<and> byte_in 128 191 d \<and> utf8_valid r
         | _ \<Rightarrow> False)
      else False)"

definition from_utf8 :: "bytes \<Rightarrow> string option" where
  "from_utf8 bs = (if utf8_valid bs then Some bs else None)"

lemma from_utf8_Some [simp]: "from_utf8 bs = Some s \<longleftrightarrow> utf8_valid bs \<and> s = bs"
  by (auto simp: from_utf8_def)

lemma utf8_valid_ascii: "list_all (byte_in 0 127) bs \<Longrightarrow> utf8_valid bs"
  by (induction bs) simp_all

subsection \<open>Decimal numbers\<close>

text \<open>\<open>Display\<close> of an unsigned number.\<close>

fun decimal :: "nat \<Rightarrow> string" where
  "decimal n =
     (if n < 10 then [char_of (48 + n)] else decimal (n div 10) @ [char_of (48 + n mod 10)])"

declare decimal.simps [simp del]

lemma decimal_utf8 [simp]: "list_all (byte_in 0 127) (decimal n)"
proof (induction n rule: decimal.induct)
  case (1 n)
  have "byte_in 0 127 (char_of (48 + d :: nat))" if "d < 10" for d
    using that by (simp add: byte_in_def)
  with 1 show ?case by (subst decimal.simps) simp
qed

subsection \<open>Words\<close>

lemma unat_Suc_u64: "(w::u64) \<noteq> u64_MAX \<Longrightarrow> unat (w + 1) = Suc (unat w)"
  unfolding u64_MAX_def by (metis Suc_eq_plus1 add.commute unatSuc add_eq_0_iff)

lemma unat_of_nat_u64: "n < 2 ^ 64 \<Longrightarrow> unat (of_nat n :: u64) = n"
  by (simp add: unat_of_nat take_bit_nat_eq_self)

lemma unat_u64_MAX: "unat u64_MAX = 2 ^ 64 - 1"
  by (simp add: u64_MAX_def unsigned_minus_1_eq_mask mask_eq_exp_minus_1)

end
