(* ===== verification/Platform.thy ===== *)
theory Platform
  imports Prelude
begin

text \<open>
  What the crate uses of its dependencies. Data the source matches on (the JSON values of
  \<^verbatim>\<open>serde_json\<close>, the status codes of \<^verbatim>\<open>tonic\<close>) are datatypes with the documented
  variants; functions of the dependencies are fields of the record \<open>ext\<close>, an argument of
  every definition that calls them, and what the code relies on is the predicate \<open>ext_ok\<close>.
\<close>

subsection \<open>JSON values\<close>

datatype json_number = PosInt u64 | NegInt u64 | Float u64

text \<open>The object of a JSON value is a map with sorted keys (\<open>serde_json::Map\<close>).\<close>

datatype json =
    JNull
  | JBool bool
  | JNumber json_number
  | JString string
  | JArray "json list"
  | JObject "(string \<times> json) list"

type_synonym json_map = "(string \<times> json) list"

fun map_insert :: "string \<Rightarrow> json \<Rightarrow> json_map \<Rightarrow> json_map" where
  "map_insert k v [] = [(k, v)]"
| "map_insert k v ((k', v') # m) =
     (if k < k' then (k, v) # (k', v') # m
      else if k = k' then (k, v) # m
      else (k', v') # map_insert k v m)"

text \<open>\<open>json!({k1: v1, \<dots>})\<close>: insert the pairs in turn.\<close>

definition json_object :: "json_map \<Rightarrow> json" where
  "json_object kvs = JObject (fold (\<lambda>(k, v). map_insert k v) kvs [])"

fun as_object :: "json \<Rightarrow> json_map option" where
  "as_object (JObject m) = Some m"
| "as_object _ = None"

fun as_str :: "json \<Rightarrow> string option" where
  "as_str (JString s) = Some s"
| "as_str _ = None"

text \<open>\<open>Value::get\<close> with a string index: \<open>None\<close> unless the value is an object.\<close>

fun value_get :: "json \<Rightarrow> string \<Rightarrow> json option" where
  "value_get (JObject m) k = map_of m k"
| "value_get _ k = None"

definition is_null :: "json \<Rightarrow> bool" where
  "is_null v \<longleftrightarrow> v = JNull"

text \<open>
  The values whose text form is stable: strings are UTF-8, keys are sorted and distinct, and
  no number is a float (parsing a printed float may round).
\<close>

fun json_wf :: "json \<Rightarrow> bool" where
  "json_wf JNull = True"
| "json_wf (JBool b) = True"
| "json_wf (JNumber n) = (case n of Float _ \<Rightarrow> False | _ \<Rightarrow> True)"
| "json_wf (JString s) = utf8_valid s"
| "json_wf (JArray vs) = (\<forall>v \<in> set vs. json_wf v)"
| "json_wf (JObject m) =
     (sorted_wrt (<) (map fst m) \<and> (\<forall>kv \<in> set m. utf8_valid (fst kv) \<and> json_wf (snd kv)))"

lemma map_of_map_insert [simp]: "map_of (map_insert k v m) = (map_of m)(k \<mapsto> v)"
  by (induction k v m rule: map_insert.induct) (auto simp: fun_eq_iff)

lemma set_map_insert: "set (map_insert k v m) \<subseteq> insert (k, v) (set m)"
  by (induction k v m rule: map_insert.induct) auto

lemma fst_set_map_insert: "fst ` set (map_insert k v m) = insert k (fst ` set m)"
  by (induction k v m rule: map_insert.induct) auto

lemma sorted_map_insert:
  "sorted_wrt (<) (map fst m) \<Longrightarrow> sorted_wrt (<) (map fst (map_insert k v m))"
proof (induction k v m rule: map_insert.induct)
  case (1 k v)
  then show ?case by simp
next
  case (2 k v k' v' m)
  have "\<forall>x \<in> fst ` set (map_insert k v m). k' < x" if "\<not> k < k'" "k \<noteq> k'"
    using that "2.prems" by (auto simp: fst_set_map_insert)
  with 2 show ?case by auto
qed

lemma json_wf_map_insert:
  "json_wf (JObject m) \<Longrightarrow> utf8_valid k \<Longrightarrow> json_wf v \<Longrightarrow> json_wf (JObject (map_insert k v m))"
  using set_map_insert [of k v m] by (auto simp: sorted_map_insert)

lemma json_wf_object:
  assumes "\<forall>kv \<in> set kvs. utf8_valid (fst kv) \<and> json_wf (snd kv)"
  shows "json_wf (json_object kvs)"
proof -
  have "json_wf (JObject (fold (\<lambda>(k, v). map_insert k v) kvs m))" if "json_wf (JObject m)" for m
    using assms that
    by (induction kvs arbitrary: m)
      (auto simp: json_wf_map_insert simp del: json_wf.simps(6) split: prod.splits)
  from this [of "[]"] show ?thesis by (simp add: json_object_def)
qed

lemma json_wf_get: "json_wf v \<Longrightarrow> value_get v k = Some x \<Longrightarrow> json_wf x"
  by (cases v) (fastforce dest: map_of_SomeD)+

subsection \<open>gRPC status\<close>

datatype grpc_code =
    GOk | GCancelled | GUnknown | GInvalidArgument | GDeadlineExceeded | GNotFound | GAlreadyExists
  | GPermissionDenied | GResourceExhausted | GFailedPrecondition | GAborted | GOutOfRange
  | GUnimplemented | GInternal | GUnavailable | GDataLoss | GUnauthenticated

record status =
  code :: grpc_code
  status_message :: string

definition status_new :: "grpc_code \<Rightarrow> string \<Rightarrow> status" where
  "status_new c m = \<lparr>code = c, status_message = m\<rparr>"

subsection \<open>Functions of the dependencies\<close>

text \<open>
  \<open>uuid\<close>: name-based identifiers, printing and parsing; \<open>serde_json\<close>: printing a value to
  bytes and parsing a string; \<open>tonic\<close>: which strings are legal metadata values and the text
  of a status. The errors of \<open>serde_json\<close> are their messages.
\<close>

record ext =
  new_v5 :: "bytes \<Rightarrow> bytes \<Rightarrow> uuid"
  uuid_parse :: "string \<Rightarrow> uuid option"
  uuid_to_string :: "uuid \<Rightarrow> string"
  json_to_vec :: "json \<Rightarrow> string + bytes"
  json_to_vec_pretty :: "json \<Rightarrow> string + bytes"
  json_from_str :: "string \<Rightarrow> string + json"
  json_from_slice :: "bytes \<Rightarrow> string + json"
  metadata_value_ok :: "string \<Rightarrow> bool"
  status_to_string :: "status \<Rightarrow> string"

definition json_roundtrips :: "ext \<Rightarrow> json \<Rightarrow> bool" where
  "json_roundtrips E v \<longleftrightarrow>
     (case json_to_vec E v of
        Inl _ \<Rightarrow> False
      | Inr bs \<Rightarrow> bs \<noteq> [] \<and> utf8_valid bs \<and> json_from_str E bs = Inr v) \<and>
     (case json_to_vec_pretty E v of
        Inl _ \<Rightarrow> False
      | Inr bs \<Rightarrow> utf8_valid bs \<and> json_from_str E bs = Inr v \<and> json_from_slice E bs = Inr v)"

definition ext_ok :: "ext \<Rightarrow> bool" where
  "ext_ok E \<longleftrightarrow>
     (\<forall>u. uuid_parse E (uuid_to_string E u) = Some u) \<and> (\<forall>v. json_wf v \<longrightarrow> json_roundtrips E v)"

lemma ext_ok_uuid: "ext_ok E \<Longrightarrow> uuid_parse E (uuid_to_string E u) = Some u"
  by (simp add: ext_ok_def)

lemma ext_ok_json:
  assumes "ext_ok E" and "json_wf v"
  obtains bs where "json_to_vec E v = Inr bs" "bs \<noteq> []" "utf8_valid bs" "json_from_str E bs = Inr v"
proof -
  have "json_roundtrips E v" using assms by (simp add: ext_ok_def)
  then show thesis by (auto simp: json_roundtrips_def intro: that split: sum.splits)
qed

lemma ext_ok_pretty:
  assumes "ext_ok E" and "json_wf v"
  obtains bs where "json_to_vec_pretty E v = Inr bs" "utf8_valid bs" "json_from_str E bs = Inr v"
    "json_from_slice E bs = Inr v"
proof -
  have "json_roundtrips E v" using assms by (simp add: ext_ok_def)
  then show thesis by (auto simp: json_roundtrips_def intro: that split: sum.splits)
qed

end
