(* ===== verification/Aggregate.thy ===== *)
theory Aggregate
  imports Platform
begin

text \<open>
  \<^verbatim>\<open>src/aggregate.rs\<close>: the trait \<open>Aggregate\<close> as a record of its methods (with the derived
  serialisation of its state and events), the contract its documentation asks of an
  implementation as the locale \<open>adjacently_tagged\<close>, and the two implementations of the
  repository: the counter of the test fixtures and the counter of \<^verbatim>\<open>examples/counter.rs\<close>.
\<close>

subsection \<open>The trait\<close>

record ('a, 'c, 'e, 'err) aggregate =
  AGGREGATE_TYPE :: string
  agg_default :: 'a
  handle :: "'a \<Rightarrow> 'c \<Rightarrow> 'err + 'e list"
  apply_event :: "'a \<Rightarrow> 'e \<Rightarrow> 'a"
  state_to_value :: "'a \<Rightarrow> string + json"
  state_from_value :: "json \<Rightarrow> string + 'a"
  event_to_value :: "'e \<Rightarrow> string + json"
  event_from_value :: "json \<Rightarrow> string + 'e"

text \<open>State is the fold of the events over the default state.\<close>

definition replay :: "('a, 'c, 'e, 'err) aggregate \<Rightarrow> 'e list \<Rightarrow> 'a" where
  "replay A es = foldl (apply_event A) (agg_default A) es"

lemma replay_Nil [simp, folds]: "replay A [] = agg_default A"
  by (simp add: replay_def)

lemma replay_append [folds]: "replay A (es @ fs) = foldl (apply_event A) (replay A es) fs"
  by (simp add: replay_def)

subsection \<open>The serialisation convention of domain events\<close>

text \<open>
  \<open>#[serde(tag = "type", content = "data")]\<close>: a unit variant is \<open>{"type": t}\<close>, a variant
  with fields is \<open>{"type": t, "data": d}\<close>. \<open>tagged_value\<close> is the envelope the crate rebuilds
  from a stored type and payload.
\<close>

definition tagged_value :: "string \<Rightarrow> json \<Rightarrow> json" where
  "tagged_value t d =
     (if is_null d then json_object [(''type'', JString t)]
      else json_object [(''type'', JString t), (''data'', d)])"

text \<open>
  The contract: an event serialises to its envelope, whose non-null payload carries all its
  data, and reads back from it; a state reads back from what it serialises to.
\<close>

locale adjacently_tagged =
  fixes A :: "('a, 'c, 'e, 'err) aggregate"
  assumes event_envelope: "\<exists>t d. event_to_value A e = Inr (tagged_value t d) \<and> utf8_valid t \<and>
      json_wf d \<and> event_from_value A (tagged_value t d) = Inr e"
    and state_value: "\<exists>v. state_to_value A x = Inr v \<and> json_wf v \<and> state_from_value A v = Inr x"

lemma value_get_tagged [simp]:
  "value_get (tagged_value t d) ''type'' = Some (JString t)"
  "value_get (tagged_value t d) ''data'' = (if is_null d then None else Some d)"
  by (simp_all add: tagged_value_def json_object_def)

lemma as_object_tagged:
  "as_object (tagged_value t d) =
     Some (if is_null d then [(''type'', JString t)] else [(''data'', d), (''type'', JString t)])"
  by (simp add: tagged_value_def json_object_def)

subsection \<open>Derived readers of integers\<close>

text \<open>\<open>u64\<close> and \<open>i64\<close>: a non-negative number is stored unsigned, a negative one signed.\<close>

fun u64_from_value :: "json \<Rightarrow> string + u64" where
  "u64_from_value (JNumber (PosInt n)) = Inr n"
| "u64_from_value _ = Inl ''invalid type, expected u64''"

definition i64_to_value :: "u64 \<Rightarrow> json" where
  "i64_to_value w = JNumber (if 0 \<le> sint w then PosInt w else NegInt w)"

fun i64_from_value :: "json \<Rightarrow> string + u64" where
  "i64_from_value (JNumber (PosInt n)) =
     (if 0 \<le> sint n then Inr n else Inl ''invalid value, expected i64'')"
| "i64_from_value (JNumber (NegInt n)) = Inr n"
| "i64_from_value _ = Inl ''invalid type, expected i64''"

lemma i64_roundtrip [simp]: "i64_from_value (i64_to_value w) = Inr w"
  by (simp add: i64_to_value_def)

lemma json_wf_i64 [simp]: "json_wf (i64_to_value w)"
  by (simp add: i64_to_value_def)

text \<open>A struct with one integer field: the reader finds the field in the object.\<close>

definition field_from_value :: "(json \<Rightarrow> string + 'b) \<Rightarrow> string \<Rightarrow> json \<Rightarrow> string + 'b" where
  "field_from_value f k v =
     (case as_object v of
        None \<Rightarrow> Inl ''invalid type, expected a map''
      | Some m \<Rightarrow> (case map_of m k of None \<Rightarrow> Inl ''missing field'' | Some x \<Rightarrow> f x))"

lemma field_from_value_object [simp]:
  "field_from_value f k (json_object [(k, x)]) = f x"
  by (simp add: field_from_value_def json_object_def)

subsection \<open>The counter of the test fixtures\<close>

record counter =
  counter_value :: u64

datatype counter_command = Increment | Decrement | Add u64

datatype counter_event = Incremented | Decremented | Added u64

datatype counter_error = AlreadyZero

fun counter_handle :: "counter \<Rightarrow> counter_command \<Rightarrow> counter_error + counter_event list" where
  "counter_handle s Increment = Inr [Incremented]"
| "counter_handle s Decrement =
     (if counter_value s = 0 then Inl AlreadyZero else Inr [Decremented])"
| "counter_handle s (Add n) = Inr [Added n]"

fun counter_apply :: "counter \<Rightarrow> counter_event \<Rightarrow> counter" where
  "counter_apply s Incremented = s\<lparr>counter_value := counter_value s + 1\<rparr>"
| "counter_apply s Decremented = s\<lparr>counter_value := counter_value s - 1\<rparr>"
| "counter_apply s (Added n) = s\<lparr>counter_value := counter_value s + n\<rparr>"

fun counter_event_to_value :: "counter_event \<Rightarrow> json" where
  "counter_event_to_value Incremented = json_object [(''type'', JString ''Incremented'')]"
| "counter_event_to_value Decremented = json_object [(''type'', JString ''Decremented'')]"
| "counter_event_to_value (Added n) =
     json_object [(''type'', JString ''Added''),
       (''data'', json_object [(''amount'', JNumber (PosInt n))])]"

definition counter_event_from_value :: "json \<Rightarrow> string + counter_event" where
  "counter_event_from_value v =
     (case value_get v ''type'' of
        Some (JString t) \<Rightarrow>
          if t = ''Incremented'' then Inr Incremented
          else if t = ''Decremented'' then Inr Decremented
          else if t = ''Added'' then
            (case value_get v ''data'' of
               None \<Rightarrow> Inl ''missing field `data`''
             | Some d \<Rightarrow>
                 (case field_from_value u64_from_value ''amount'' d of
                    Inl e \<Rightarrow> Inl e | Inr n \<Rightarrow> Inr (Added n)))
          else Inl ''unknown variant''
      | _ \<Rightarrow> Inl ''missing field `type`'')"

definition Counter :: "(counter, counter_command, counter_event, counter_error) aggregate" where
  "Counter =
     \<lparr>AGGREGATE_TYPE = ''counter'',
      agg_default = \<lparr>counter_value = 0\<rparr>,
      handle = counter_handle,
      apply_event = counter_apply,
      state_to_value = (\<lambda>s. Inr (json_object [(''value'', JNumber (PosInt (counter_value s)))])),
      state_from_value = (\<lambda>v. case field_from_value u64_from_value ''value'' v of
         Inl e \<Rightarrow> Inl e | Inr n \<Rightarrow> Inr \<lparr>counter_value = n\<rparr>),
      event_to_value = (\<lambda>e. Inr (counter_event_to_value e)),
      event_from_value = counter_event_from_value\<rparr>"

lemma counter_event_tagged:
  "\<exists>t d. counter_event_to_value e = tagged_value t d \<and> utf8_valid t \<and> json_wf d \<and>
     counter_event_from_value (tagged_value t d) = Inr e"
proof (cases e)
  case Incremented
  then show ?thesis
    by (intro exI [of _ "''Incremented''"] exI [of _ JNull])
      (simp add: tagged_value_def is_null_def counter_event_from_value_def json_object_def byte_in_def)
next
  case Decremented
  then show ?thesis
    by (intro exI [of _ "''Decremented''"] exI [of _ JNull])
      (simp add: tagged_value_def is_null_def counter_event_from_value_def json_object_def byte_in_def)
next
  case (Added n)
  then show ?thesis
    by (intro exI [of _ "''Added''"] exI [of _ "json_object [(''amount'', JNumber (PosInt n))]"])
      (simp add: tagged_value_def is_null_def counter_event_from_value_def json_object_def
        field_from_value_def byte_in_def)
qed

interpretation counter_agg: adjacently_tagged Counter
proof unfold_locales
  show "\<exists>t d. event_to_value Counter e = Inr (tagged_value t d) \<and> utf8_valid t \<and> json_wf d \<and>
      event_from_value Counter (tagged_value t d) = Inr e" for e
    using counter_event_tagged [of e] by (simp add: Counter_def)
  show "\<exists>v. state_to_value Counter x = Inr v \<and> json_wf v \<and> state_from_value Counter v = Inr x" for x
    by (cases x) (simp add: Counter_def json_object_def field_from_value_def byte_in_def)
qed

end
