(* ===== verification/Storage.thy ===== *)
theory Storage
  imports Platform
begin

text \<open>
  The paths and files of the standard library the crate uses, the directory layout of
  \<^verbatim>\<open>src/storage.rs\<close>, and the contract of a file that is replaced atomically (the locale
  \<open>checkpoint_file\<close>), which snapshots and both kinds of checkpoint keep.
\<close>

subsection \<open>Paths\<close>

text \<open>
  A path is compared by its components: empty components and \<open>.\<close> components do not count.
  Joining an absolute path replaces the base.
\<close>

record path =
  is_absolute :: bool
  comps :: "string list"

fun split_slash :: "string \<Rightarrow> string \<Rightarrow> string list" where
  "split_slash acc [] = [acc]"
| "split_slash acc (c # cs) =
     (if c = CHR ''/'' then acc # split_slash [] cs else split_slash (acc @ [c]) cs)"

definition path_of :: "string \<Rightarrow> path" where
  "path_of s =
     \<lparr>is_absolute = (case s of c # _ \<Rightarrow> c = CHR ''/'' | [] \<Rightarrow> False),
      comps = filter (\<lambda>c. c \<noteq> [] \<and> c \<noteq> ''.'') (split_slash [] s)\<rparr>"

definition path_join :: "path \<Rightarrow> string \<Rightarrow> path" where
  "path_join p s =
     (let q = path_of s in if is_absolute q then q else p\<lparr>comps := comps p @ comps q\<rparr>)"

definition path_parent :: "path \<Rightarrow> path option" where
  "path_parent p = (if comps p = [] then None else Some (p\<lparr>comps := butlast (comps p)\<rparr>))"

text \<open>The name up to its last dot, unless that is its first character.\<close>

definition file_stem :: "string \<Rightarrow> string" where
  "file_stem n =
     (let e = takeWhile (\<lambda>c. c \<noteq> CHR ''.'') (rev n); stem = rev (drop (Suc (length e)) (rev n))
      in if length e = length n \<or> stem = [] then n else stem)"

definition with_extension :: "string \<Rightarrow> path \<Rightarrow> path" where
  "with_extension e p =
     (if comps p = [] then p
      else p\<lparr>comps := butlast (comps p) @ [file_stem (last (comps p)) @ ''.'' @ e]\<rparr>)"

subsection \<open>Files\<close>

text \<open>
  The files and directories, and what the operating system decides: which operation fails on
  which path and with which error, and how many bytes of a failed write reach the disk
  (\<open>None\<close>: the file was not even opened).
\<close>

datatype fs_op = OpCreateDir | OpWrite | OpRename | OpRead | OpAppend

record fs =
  files :: "path \<Rightarrow> bytes option"
  dirs :: "path \<Rightarrow> bool"
  io_fails :: "fs_op \<Rightarrow> path \<Rightarrow> io_error option"
  torn :: "path \<Rightarrow> nat option"

definition ancestor :: "path \<Rightarrow> path \<Rightarrow> bool" where
  "ancestor p d \<longleftrightarrow> is_absolute p = is_absolute d \<and> prefix (comps p) (comps d)"

definition dir_exists :: "fs \<Rightarrow> path \<Rightarrow> bool" where
  "dir_exists F p \<longleftrightarrow> comps p = [] \<or> dirs F p"

definition parent_exists :: "fs \<Rightarrow> path \<Rightarrow> bool" where
  "parent_exists F p = (case path_parent p of None \<Rightarrow> True | Some d \<Rightarrow> dir_exists F d)"

definition create_dir_all :: "path \<Rightarrow> fs \<Rightarrow> (io_error + unit) \<times> fs" where
  "create_dir_all d F =
     (case io_fails F OpCreateDir d of
        Some e \<Rightarrow> (Inl e, F)
      | None \<Rightarrow> (Inr (), F\<lparr>dirs := (\<lambda>p. dirs F p \<or> ancestor p d)\<rparr>))"

definition fs_write :: "path \<Rightarrow> bytes \<Rightarrow> fs \<Rightarrow> (io_error + unit) \<times> fs" where
  "fs_write p bs F =
     (case io_fails F OpWrite p of
        Some e \<Rightarrow>
          (Inl e, case torn F p of None \<Rightarrow> F | Some n \<Rightarrow> F\<lparr>files := (files F)(p \<mapsto> take n bs)\<rparr>)
      | None \<Rightarrow>
          if parent_exists F p then (Inr (), F\<lparr>files := (files F)(p \<mapsto> bs)\<rparr>)
          else (Inl (io_error_new NotFound ''No such file or directory''), F))"

definition fs_rename :: "path \<Rightarrow> path \<Rightarrow> fs \<Rightarrow> (io_error + unit) \<times> fs" where
  "fs_rename p q F =
     (case io_fails F OpRename p of
        Some e \<Rightarrow> (Inl e, F)
      | None \<Rightarrow>
          (case files F p of
             None \<Rightarrow> (Inl (io_error_new NotFound ''No such file or directory''), F)
           | Some bs \<Rightarrow> (Inr (), F\<lparr>files := ((files F)(p := None))(q \<mapsto> bs)\<rparr>)))"

definition fs_read :: "path \<Rightarrow> fs \<Rightarrow> io_error + bytes" where
  "fs_read p F =
     (case io_fails F OpRead p of
        Some e \<Rightarrow> Inl e
      | None \<Rightarrow>
          (case files F p of
             None \<Rightarrow> Inl (io_error_new NotFound ''No such file or directory'')
           | Some bs \<Rightarrow> Inr bs))"

definition fs_read_to_string :: "path \<Rightarrow> fs \<Rightarrow> io_error + string" where
  "fs_read_to_string p F =
     (case fs_read p F of
        Inl e \<Rightarrow> Inl e
      | Inr bs \<Rightarrow>
          (case from_utf8 bs of
             None \<Rightarrow> Inl (io_error_new InvalidData ''stream did not contain valid UTF-8'')
           | Some s \<Rightarrow> Inr s))"

text \<open>\<open>OpenOptions::create(true).append(true)\<close> and one \<open>writeln!\<close>.\<close>

definition fs_append_line :: "path \<Rightarrow> string \<Rightarrow> fs \<Rightarrow> (io_error + unit) \<times> fs" where
  "fs_append_line p line F =
     (let old = (case files F p of None \<Rightarrow> [] | Some bs \<Rightarrow> bs); new = line @ [char_of (10::nat)]
      in case io_fails F OpAppend p of
           Some e \<Rightarrow>
             (Inl e, case torn F p of None \<Rightarrow> F
                | Some n \<Rightarrow> F\<lparr>files := (files F)(p \<mapsto> old @ take n new)\<rparr>)
         | None \<Rightarrow>
             if parent_exists F p then (Inr (), F\<lparr>files := (files F)(p \<mapsto> old @ new)\<rparr>)
             else (Inl (io_error_new NotFound ''No such file or directory''), F))"

text \<open>
  The sequence the crate writes a cached file with: make the directory, serialise, write a
  temporary file beside the target, rename it over the target.
\<close>

definition write_and_rename ::
  "path \<Rightarrow> path \<Rightarrow> path \<Rightarrow> io_error + bytes \<Rightarrow> fs \<Rightarrow> (io_error + unit) \<times> fs" where
  "write_and_rename dir tmp_path path json F =
     (case create_dir_all dir F of
        (Inl e, F1) \<Rightarrow> (Inl e, F1)
      | (Inr _, F1) \<Rightarrow>
          (case json of
             Inl e \<Rightarrow> (Inl e, F1)
           | Inr bs \<Rightarrow>
               (case fs_write tmp_path bs F1 of
                  (Inl e, F2) \<Rightarrow> (Inl e, F2)
                | (Inr _, F2) \<Rightarrow>
                    (case fs_rename tmp_path path F2 of
                       (Inl e, F3) \<Rightarrow> (Inl e, F3)
                     | (Inr _, F3) \<Rightarrow> (Inr (), F3)))))"

text \<open>The files a crash can leave: the process dies between two calls or within the write.\<close>

datatype crash_point = BeforeDir | AfterDir | InWrite nat | AfterWrite | AfterRename

fun crashed_write :: "path \<Rightarrow> path \<Rightarrow> path \<Rightarrow> bytes \<Rightarrow> crash_point \<Rightarrow> fs \<Rightarrow> fs" where
  "crashed_write dir tmp_path path bs BeforeDir F = F"
| "crashed_write dir tmp_path path bs AfterDir F = snd (create_dir_all dir F)"
| "crashed_write dir tmp_path path bs (InWrite n) F =
     (let F1 = snd (create_dir_all dir F) in F1\<lparr>files := (files F1)(tmp_path \<mapsto> take n bs)\<rparr>)"
| "crashed_write dir tmp_path path bs AfterWrite F =
     snd (fs_write tmp_path bs (snd (create_dir_all dir F)))"
| "crashed_write dir tmp_path path bs AfterRename F =
     snd (write_and_rename dir tmp_path path (Inr bs) F)"

subsection \<open>The layout\<close>

record stream_layout =
  sl_base_dir :: path

definition stream_layout_new :: "path \<Rightarrow> stream_layout" where
  "stream_layout_new base_dir = \<lparr>sl_base_dir = base_dir\<rparr>"

definition snapshots_dir :: "stream_layout \<Rightarrow> path" where
  "snapshots_dir l = path_join (sl_base_dir l) ''snapshots''"

definition projections_dir :: "stream_layout \<Rightarrow> path" where
  "projections_dir l = path_join (sl_base_dir l) ''projections''"

definition process_managers_dir :: "stream_layout \<Rightarrow> path" where
  "process_managers_dir l = path_join (sl_base_dir l) ''process_managers''"

subsection \<open>Lemmas\<close>

lemma create_dir_all_files [simp]:
  "files (snd (create_dir_all d F)) = files F"
  "io_fails (snd (create_dir_all d F)) = io_fails F"
  "torn (snd (create_dir_all d F)) = torn F"
  by (auto simp: create_dir_all_def split: option.splits)

lemma fs_read_cong:
  "files F p = files G p \<Longrightarrow> io_fails F OpRead p = io_fails G OpRead p \<Longrightarrow> fs_read p F = fs_read p G"
  by (simp add: fs_read_def split: option.splits)

lemma fs_write_frame [simp]:
  "p' \<noteq> p \<Longrightarrow> files (snd (fs_write p bs F)) p' = files F p'"
  "io_fails (snd (fs_write p bs F)) = io_fails F"
  by (auto simp: fs_write_def split: option.splits)

lemma fs_write_Inr:
  "fs_write p bs F = (Inr u, F') \<Longrightarrow> files F' = (files F)(p \<mapsto> bs) \<and> io_fails F' = io_fails F"
  by (auto simp: fs_write_def split: option.splits if_splits)

lemma fs_rename_Inl: "fs_rename p q F = (Inl e, F') \<Longrightarrow> F' = F"
  by (auto simp: fs_rename_def split: option.splits)

lemma fs_rename_Inr:
  "fs_rename p q F = (Inr u, F') \<Longrightarrow>
    \<exists>bs. files F p = Some bs \<and> files F' = ((files F)(p := None))(q \<mapsto> bs) \<and> io_fails F' = io_fails F"
  by (auto simp: fs_rename_def split: option.splits)

lemma write_and_rename_Inr:
  assumes "write_and_rename dir tmp path json F = (Inr u, F')" and "tmp \<noteq> path"
  shows "\<exists>bs. json = Inr bs \<and> files F' = (files F)(tmp := None, path \<mapsto> bs) \<and> io_fails F' = io_fails F"
proof -
  obtain F1 bs F2 where "create_dir_all dir F = (Inr (), F1)" "json = Inr bs"
    "fs_write tmp bs F1 = (Inr (), F2)" "fs_rename tmp path F2 = (Inr (), F')"
    using assms(1) by (auto simp: write_and_rename_def split: prod.splits sum.splits)
  then show ?thesis
    using create_dir_all_files [of dir F] fs_write_Inr fs_rename_Inr
    by (fastforce simp: fun_eq_iff)
qed

lemma write_and_rename_Inl:
  assumes "write_and_rename dir tmp path json F = (Inl e, F')"
  shows "(\<forall>p. p \<noteq> tmp \<longrightarrow> files F' p = files F p) \<and> io_fails F' = io_fails F"
proof -
  let ?F1 = "snd (create_dir_all dir F)"
  have "F' = ?F1 \<or> (\<exists>bs. F' = snd (fs_write tmp bs ?F1))"
  proof (cases json)
    case (Inr bs)
    obtain r2 F2 where w: "fs_write tmp bs ?F1 = (r2, F2)" by fastforce
    obtain r3 F3 where n: "fs_rename tmp path F2 = (r3, F3)" by fastforce
    have "F3 = F2" if "r3 = Inl e" for e using fs_rename_Inl n that by simp
    with assms Inr w n have "F' = ?F1 \<or> F' = F2"
      by (auto simp: write_and_rename_def split: prod.splits sum.splits)
    with w show ?thesis by (metis snd_conv)
  qed (use assms in \<open>auto simp: write_and_rename_def split: prod.splits sum.splits\<close>)
  then show ?thesis
    by auto
qed

text \<open>On a disk that fails no operation, the sequence succeeds.\<close>

lemma dir_created: "fst (create_dir_all d F) = Inr () \<Longrightarrow> dir_exists (snd (create_dir_all d F)) d"
  by (auto simp: create_dir_all_def dir_exists_def ancestor_def split: option.splits)

lemma write_and_rename_succeeds:
  assumes "\<And>op p. io_fails F op p = None" and "path_parent tmp = Some dir"
  shows "fst (write_and_rename dir tmp path (Inr bs) F) = Inr ()"
proof -
  obtain F1 where c: "create_dir_all dir F = (Inr (), F1)" "io_fails F1 = io_fails F"
    using assms(1) by (auto simp: create_dir_all_def)
  with dir_created [of dir F] have "parent_exists F1 tmp" using assms(2) by (simp add: parent_exists_def)
  with c assms(1) show ?thesis
    by (simp add: write_and_rename_def fs_write_def fs_rename_def)
qed

lemma parent_with_extension:
  "path_parent p = Some d \<Longrightarrow> path_parent (with_extension e p) = Some d"
  by (auto simp: path_parent_def with_extension_def split: if_splits)

lemma crashed_write_target:
  assumes "tmp \<noteq> path"
  shows "files (crashed_write dir tmp path bs cp F) path = files F path \<or>
      files (crashed_write dir tmp path bs cp F) path = Some bs"
    and "io_fails (crashed_write dir tmp path bs cp F) = io_fails F"
proof -
  obtain r F' where w: "write_and_rename dir tmp path (Inr bs) F = (r, F')" by fastforce
  show "files (crashed_write dir tmp path bs cp F) path = files F path \<or>
      files (crashed_write dir tmp path bs cp F) path = Some bs"
    using assms w write_and_rename_Inr [of dir tmp path "Inr bs" F _ F']
      write_and_rename_Inl [of dir tmp path "Inr bs" F _ F']
    by (cases cp; cases r) (auto simp: Let_def)
  show "io_fails (crashed_write dir tmp path bs cp F) = io_fails F"
    using assms w write_and_rename_Inr [of dir tmp path "Inr bs" F _ F']
      write_and_rename_Inl [of dir tmp path "Inr bs" F _ F']
    by (cases cp; cases r) (auto simp: Let_def)
qed

subsection \<open>The contract of an atomically replaced file\<close>

text \<open>
  \<open>target\<close> and \<open>tmp\<close> are the target and the temporary file, \<open>ser\<close> and \<open>de\<close> the text form of
  the content, \<open>good\<close> the contents that read back.
\<close>

locale checkpoint_file =
  fixes target tmp :: path
    and ser :: "'c \<Rightarrow> io_error + bytes"
    and save :: "'c \<Rightarrow> fs \<Rightarrow> (io_error + unit) \<times> fs"
    and load :: "fs \<Rightarrow> io_error + 'c option"
    and good :: "'c \<Rightarrow> bool"
  assumes tmp_target: "tmp \<noteq> target"
    and save_Inr: "save c F = (Inr u, F') \<Longrightarrow>
      \<exists>bs. ser c = Inr bs \<and> files F' = (files F)(tmp := None, target \<mapsto> bs) \<and> io_fails F' = io_fails F"
    and save_Inl: "save c F = (Inl e, F') \<Longrightarrow>
      (\<forall>p. p \<noteq> tmp \<longrightarrow> files F' p = files F p) \<and> io_fails F' = io_fails F"
    and load_cong: "files F target = files G target \<Longrightarrow>
      io_fails F OpRead target = io_fails G OpRead target \<Longrightarrow> load F = load G"
    and load_good: "good c \<Longrightarrow> ser c = Inr bs \<Longrightarrow> files F target = Some bs \<Longrightarrow>
      io_fails F OpRead target = None \<Longrightarrow> load F = Inr (Some c)"
    and load_missing: "files F target = None \<Longrightarrow> io_fails F OpRead target = None \<Longrightarrow> load F = Inr None"
begin

text \<open>What was saved is loaded; a failed save leaves the previous content in place.\<close>

lemma save_load:
  assumes "save c F = (Inr u, F')" and "good c" and "io_fails F OpRead target = None"
  shows "load F' = Inr (Some c)"
proof -
  obtain bs where "ser c = Inr bs" "files F' = (files F)(tmp := None, target \<mapsto> bs)"
    "io_fails F' = io_fails F"
    using save_Inr [OF assms(1)] by blast
  with assms show ?thesis by (intro load_good) auto
qed

lemma failed_save_keeps:
  assumes "save c F = (Inl e, F')"
  shows "load F' = load F"
  using save_Inl [OF assms] tmp_target by (intro load_cong) auto

lemma save_frame:
  assumes "save c F = (r, F')" and "p \<noteq> target" and "p \<noteq> tmp"
  shows "files F' p = files F p"
  using assms save_Inr [of c F _ F'] save_Inl [of c F _ F'] by (cases r) fastforce+

lemma save_io:
  assumes "save c F = (r, F')"
  shows "io_fails F' = io_fails F"
  using assms save_Inr [of c F _ F'] save_Inl [of c F _ F'] by (cases r) blast+

text \<open>Whatever the outcome, the next load gives the new content or what it gave before.\<close>

lemma save_atomic:
  assumes "save c F = (r, F')" and "good c" and "io_fails F OpRead target = None"
  shows "load F' = (case r of Inr _ \<Rightarrow> Inr (Some c) | Inl _ \<Rightarrow> load F)"
  using assms save_load failed_save_keeps by (cases r) auto

end

text \<open>The temporary file of a snapshot is not the snapshot.\<close>

lemma path_join_simple:
  assumes "path_of s = \<lparr>is_absolute = False, comps = [s]\<rparr>"
  shows "path_join p s = p\<lparr>comps := comps p @ [s]\<rparr>"
  using assms by (simp add: path_join_def)

lemma path_of_snapshot [simp]:
  "path_of ''snapshot.json'' = \<lparr>is_absolute = False, comps = [''snapshot.json'']\<rparr>"
  "path_of ''checkpoint.json'' = \<lparr>is_absolute = False, comps = [''checkpoint.json'']\<rparr>"
  "path_of ''checkpoint.json.tmp'' = \<lparr>is_absolute = False, comps = [''checkpoint.json.tmp'']\<rparr>"
  "path_of ''dead_letters.jsonl'' = \<lparr>is_absolute = False, comps = [''dead_letters.jsonl'']\<rparr>"
  "path_of ''snapshots'' = \<lparr>is_absolute = False, comps = [''snapshots'']\<rparr>"
  by (simp_all add: path_of_def)

lemma file_stem_snapshot [simp]: "file_stem ''snapshot.json'' = ''snapshot''"
  by (simp add: file_stem_def Let_def)

end
