(* ===== verification/Command.thy ===== *)
theory Command
  imports Platform
begin

text \<open>
  \<^verbatim>\<open>src/command.rs\<close>: the context that accompanies a command, its builder methods, and the
  type-erased envelope a process manager emits.
\<close>

record command_context =
  ctx_actor :: "string option"
  ctx_correlation_id :: "string option"
  ctx_metadata :: "json option"
  ctx_source_device :: "string option"

definition command_context_default :: command_context where
  "command_context_default =
     \<lparr>ctx_actor = None, ctx_correlation_id = None, ctx_metadata = None, ctx_source_device = None\<rparr>"

definition with_actor :: "string \<Rightarrow> command_context \<Rightarrow> command_context" where
  "with_actor a c = c\<lparr>ctx_actor := Some a\<rparr>"

definition with_correlation_id :: "string \<Rightarrow> command_context \<Rightarrow> command_context" where
  "with_correlation_id i c = c\<lparr>ctx_correlation_id := Some i\<rparr>"

definition with_metadata :: "json \<Rightarrow> command_context \<Rightarrow> command_context" where
  "with_metadata m c = c\<lparr>ctx_metadata := Some m\<rparr>"

definition with_source_device :: "string \<Rightarrow> command_context \<Rightarrow> command_context" where
  "with_source_device d c = c\<lparr>ctx_source_device := Some d\<rparr>"

record command_envelope =
  env_aggregate_type :: string
  env_instance_id :: string
  env_command :: json
  env_context :: command_context

subsection \<open>The serialised forms\<close>

text \<open>
  The derived serialisation of the context: \<open>None\<close> is \<open>null\<close>, except that
  \<open>source_device\<close> is left out; on input a missing field is \<open>None\<close>.
\<close>

definition opt_to_value :: "string option \<Rightarrow> json" where
  "opt_to_value s = (case s of None \<Rightarrow> JNull | Some x \<Rightarrow> JString x)"

definition context_to_value :: "command_context \<Rightarrow> json" where
  "context_to_value c =
     json_object
       ([(''actor'', opt_to_value (ctx_actor c)),
         (''correlation_id'', opt_to_value (ctx_correlation_id c)),
         (''metadata'', case ctx_metadata c of None \<Rightarrow> JNull | Some m \<Rightarrow> m)] @
        (case ctx_source_device c of None \<Rightarrow> [] | Some d \<Rightarrow> [(''source_device'', JString d)]))"

definition opt_from_value :: "json option \<Rightarrow> string option option" where
  "opt_from_value v =
     (case v of
        None \<Rightarrow> Some None
      | Some JNull \<Rightarrow> Some None
      | Some (JString s) \<Rightarrow> Some (Some s)
      | Some _ \<Rightarrow> None)"

definition opt_json_from_value :: "json option \<Rightarrow> json option" where
  "opt_json_from_value v = (case v of None \<Rightarrow> None | Some JNull \<Rightarrow> None | Some m \<Rightarrow> Some m)"

definition context_from_value :: "json \<Rightarrow> command_context option" where
  "context_from_value v =
     (case as_object v of
        None \<Rightarrow> None
      | Some m \<Rightarrow>
          (case (opt_from_value (map_of m ''actor''), opt_from_value (map_of m ''correlation_id''),
                 opt_from_value (map_of m ''source_device'')) of
             (Some a, Some c, Some d) \<Rightarrow>
               Some \<lparr>ctx_actor = a, ctx_correlation_id = c,
                     ctx_metadata = opt_json_from_value (map_of m ''metadata''),
                     ctx_source_device = d\<rparr>
           | _ \<Rightarrow> None))"

definition envelope_to_value :: "command_envelope \<Rightarrow> json" where
  "envelope_to_value e =
     json_object
       [(''aggregate_type'', JString (env_aggregate_type e)),
        (''instance_id'', JString (env_instance_id e)),
        (''command'', env_command e),
        (''context'', context_to_value (env_context e))]"

definition envelope_from_value :: "json \<Rightarrow> command_envelope option" where
  "envelope_from_value v =
     (case as_object v of
        None \<Rightarrow> None
      | Some m \<Rightarrow>
          (case (map_of m ''aggregate_type'', map_of m ''instance_id'', map_of m ''command'',
                 Option.bind (map_of m ''context'') context_from_value) of
             (Some (JString t), Some (JString i), Some c, Some x) \<Rightarrow>
               Some \<lparr>env_aggregate_type = t, env_instance_id = i, env_command = c, env_context = x\<rparr>
           | _ \<Rightarrow> None))"

text \<open>\<open>Some(Value::Null)\<close> reads back as \<open>None\<close>: serde's \<open>Option\<close> swallows a null.\<close>

definition context_canonical :: "command_context \<Rightarrow> bool" where
  "context_canonical c \<longleftrightarrow> ctx_metadata c \<noteq> Some JNull"

lemma as_object_json_object: "as_object (json_object kvs) = Some (fold (\<lambda>(k, v). map_insert k v) kvs [])"
  by (simp add: json_object_def)

lemma opt_from_to [simp]: "opt_from_value (Some (opt_to_value s)) = Some s"
  by (simp add: opt_from_value_def opt_to_value_def split: option.splits)

lemma context_roundtrip_canonical:
  assumes "context_canonical c"
  shows "context_from_value (context_to_value c) = Some c"
  using assms
  by (cases c; cases "ctx_metadata c"; cases "ctx_source_device c")
    (auto simp: context_from_value_def context_to_value_def as_object_json_object opt_from_value_def
      opt_json_from_value_def context_canonical_def opt_to_value_def split: option.splits json.splits)

end
