(* ===== verification/Proto.thy ===== *)
theory Proto
  imports Platform
begin

text \<open>
  The messages of \<^verbatim>\<open>proto/eventfold.proto\<close> the crate builds or reads, one record per
  message and one datatype per \<open>oneof\<close>. A missing \<open>oneof\<close> is \<open>None\<close>, as in the generated
  Rust types.
\<close>

record proposed_event =
  pe_event_id :: string
  pe_event_type :: string
  pe_metadata :: bytes
  pe_payload :: bytes

record recorded_event =
  re_event_id :: string
  re_stream_id :: string
  re_stream_version :: u64
  re_global_position :: u64
  re_event_type :: string
  re_metadata :: bytes
  re_payload :: bytes
  re_recorded_at :: u64

datatype expected_version_kind = KAny | KNoStream | KExact u64

record expected_version =
  ev_kind :: "expected_version_kind option"

record append_request =
  ar_stream_id :: string
  ar_expected_version :: "expected_version option"
  ar_events :: "proposed_event list"

record append_response =
  first_stream_version :: u64
  last_stream_version :: u64
  first_global_position :: u64
  last_global_position :: u64

record read_stream_request =
  rr_stream_id :: string
  rr_from_version :: u64
  rr_max_count :: u64

datatype sub_content = Event recorded_event | CaughtUp

record subscribe_response =
  content :: "sub_content option"

text \<open>
  A subscription stream as its consumer sees it: the items it yields until it ends, each a
  response or the status of a failed stream.
\<close>

type_synonym sub_stream = "(status + subscribe_response) list"

end
