(* ===== verification/Event.thy ===== *)
theory Event
  imports Aggregate Command Proto "HOL-Library.Monad_Syntax"
begin

text \<open>
  \<^verbatim>\<open>src/event.rs\<close>: stream identifiers, the metadata stamped on every event, and the encoder
  and decoder between domain events, proposed events and stored events.
\<close>

subsection \<open>Stream identifiers\<close>

definition STREAM_NAMESPACE :: bytes where
  "STREAM_NAMESPACE = map char_of
     [0x9a, 0x1e, 0x7c, 0x3b, 0x4d, 0x2f, 0x4a, 0x8e, 0xb5, 0x6c, 0x1f, 0x3d, 0x7e, 0x9a, 0x0b, 0xc4 :: nat]"

definition stream_name :: "string \<Rightarrow> string \<Rightarrow> string" where
  "stream_name aggregate_type instance_id = aggregate_type @ ''/'' @ instance_id"

definition stream_uuid :: "ext \<Rightarrow> string \<Rightarrow> string \<Rightarrow> uuid" where
  "stream_uuid E aggregate_type instance_id =
     new_v5 E STREAM_NAMESPACE (stream_name aggregate_type instance_id)"

subsection \<open>Metadata and proposed events\<close>

record event_metadata =
  md_aggregate_type :: string
  md_instance_id :: string
  md_actor :: "string option"
  md_correlation_id :: "string option"
  md_source_device :: "string option"

definition opt_field :: "string \<Rightarrow> string option \<Rightarrow> json_map" where
  "opt_field k v = (case v of None \<Rightarrow> [] | Some s \<Rightarrow> [(k, JString s)])"

text \<open>The derived serialisation, with \<open>skip_serializing_if\<close> on the optional fields.\<close>

definition metadata_to_value :: "event_metadata \<Rightarrow> json" where
  "metadata_to_value m =
     json_object
       ([(''aggregate_type'', JString (md_aggregate_type m)),
         (''instance_id'', JString (md_instance_id m))] @
        opt_field ''actor'' (md_actor m) @
        opt_field ''correlation_id'' (md_correlation_id m) @
        opt_field ''source_device'' (md_source_device m))"

record proposed_event_data =
  pd_event_id :: uuid
  pd_event_type :: string
  pd_payload :: json
  pd_metadata :: event_metadata

definition metadata_of_context :: "command_context \<Rightarrow> string \<Rightarrow> string \<Rightarrow> event_metadata" where
  "metadata_of_context ctx aggregate_type instance_id =
     \<lparr>md_aggregate_type = aggregate_type, md_instance_id = instance_id, md_actor = ctx_actor ctx,
      md_correlation_id = ctx_correlation_id ctx, md_source_device = ctx_source_device ctx\<rparr>"

text \<open>
  \<open>rng\<close> is \<open>Uuid::new_v4\<close>, drawing from the state it is given. The two \<open>expect\<close>s and the
  index \<open>obj["type"]\<close> panic when the event does not serialise to a tagged object.
\<close>

definition encode_domain_event ::
  "('a, 'c, 'e, 'err) aggregate \<Rightarrow> ('s \<Rightarrow> uuid \<times> 's) \<Rightarrow> 'e \<Rightarrow> command_context \<Rightarrow> string \<Rightarrow> string \<Rightarrow> 's
    \<Rightarrow> (string fault + proposed_event_data) \<times> 's" where
  "encode_domain_event A rng event ctx aggregate_type instance_id s =
     (case event_to_value A event of
        Inl e \<Rightarrow> (Inl (Raised e), s)
      | Inr value \<Rightarrow>
          (case as_object value of
             None \<Rightarrow> (Inl (Panicked ''adjacently tagged enum must serialize to a JSON object''), s)
           | Some obj \<Rightarrow>
               (case map_of obj ''type'' of
                  None \<Rightarrow> (Inl (Panicked ''no entry found for key''), s)
                | Some t \<Rightarrow>
                    (case as_str t of
                       None \<Rightarrow> (Inl (Panicked
                         ''adjacently tagged enum must have a string 'type' field''), s)
                     | Some event_type \<Rightarrow>
                         (let payload = (case map_of obj ''data'' of None \<Rightarrow> JNull | Some d \<Rightarrow> d);
                              (event_id, s') = rng s
                          in (Inr \<lparr>pd_event_id = event_id, pd_event_type = event_type,
                                   pd_payload = payload,
                                   pd_metadata = metadata_of_context ctx aggregate_type instance_id\<rparr>,
                              s'))))))"

subsection \<open>Stored events\<close>

record stored_event =
  se_event_id :: uuid
  se_stream_id :: uuid
  se_aggregate_type :: string
  se_instance_id :: string
  se_stream_version :: u64
  se_global_position :: u64
  se_event_type :: string
  se_payload :: json
  se_metadata :: json
  se_recorded_at :: u64

definition ok :: "'e + 'a \<Rightarrow> 'a option" where
  "ok r = (case r of Inl _ \<Rightarrow> None | Inr x \<Rightarrow> Some x)"

definition nonempty_str_field :: "json \<Rightarrow> string \<Rightarrow> string option" where
  "nonempty_str_field v k =
     (case Option.bind (value_get v k) as_str of
        None \<Rightarrow> None
      | Some s \<Rightarrow> if s \<noteq> [] then Some s else None)"

definition decode_payload :: "ext \<Rightarrow> bytes \<Rightarrow> json option" where
  "decode_payload E bs =
     (if bs = [] then Some JNull
      else do { s \<leftarrow> from_utf8 bs; ok (json_from_str E s) })"

definition decode_stored_event :: "ext \<Rightarrow> recorded_event \<Rightarrow> stored_event option" where
  "decode_stored_event E r =
     do { metadata_str \<leftarrow> from_utf8 (re_metadata r);
          metadata_value \<leftarrow> ok (json_from_str E metadata_str);
          aggregate_type \<leftarrow> nonempty_str_field metadata_value ''aggregate_type'';
          instance_id \<leftarrow> nonempty_str_field metadata_value ''instance_id'';
          event_id \<leftarrow> uuid_parse E (re_event_id r);
          stream_id \<leftarrow> uuid_parse E (re_stream_id r);
          payload \<leftarrow> decode_payload E (re_payload r);
          Some \<lparr>se_event_id = event_id, se_stream_id = stream_id,
                se_aggregate_type = aggregate_type, se_instance_id = instance_id,
                se_stream_version = re_stream_version r, se_global_position = re_global_position r,
                se_event_type = re_event_type r, se_payload = payload,
                se_metadata = metadata_value, se_recorded_at = re_recorded_at r\<rparr> }"

subsection \<open>Lemmas\<close>

lemma ok_simps [simp]: "ok (Inl e) = None" "ok (Inr x) = Some x"
  by (simp_all add: ok_def)

lemma ok_Some [simp]: "ok r = Some x \<longleftrightarrow> r = Inr x"
  by (cases r) (simp_all add: ok_def)

lemma stream_name_inj:
  assumes "stream_name t i = stream_name t' i'" and "CHR ''/'' \<notin> set t" and "CHR ''/'' \<notin> set t'"
  shows "t = t' \<and> i = i'"
proof -
  have tw: "takeWhile (\<lambda>c. c \<noteq> CHR ''/'') (stream_name u j) = u" if "CHR ''/'' \<notin> set u" for u j
    using that by (induction u) (auto simp: stream_name_def)
  from assms tw [of t i] tw [of t' i'] have "t = t'" by simp
  with assms(1) show ?thesis by (simp add: stream_name_def)
qed

lemma metadata_get [simp]:
  "value_get (metadata_to_value m) ''aggregate_type'' = Some (JString (md_aggregate_type m))"
  "value_get (metadata_to_value m) ''instance_id'' = Some (JString (md_instance_id m))"
  "value_get (metadata_to_value m) ''actor'' = map_option JString (md_actor m)"
  "value_get (metadata_to_value m) ''correlation_id'' = map_option JString (md_correlation_id m)"
  "value_get (metadata_to_value m) ''source_device'' = map_option JString (md_source_device m)"
  by (auto simp: metadata_to_value_def json_object_def opt_field_def split: option.splits)

text \<open>The strings of a metadata record are UTF-8, as every Rust string is.\<close>

definition metadata_wf :: "event_metadata \<Rightarrow> bool" where
  "metadata_wf m \<longleftrightarrow>
     utf8_valid (md_aggregate_type m) \<and> utf8_valid (md_instance_id m) \<and>
     case_option True utf8_valid (md_actor m) \<and> case_option True utf8_valid (md_correlation_id m) \<and>
     case_option True utf8_valid (md_source_device m)"

lemma json_wf_metadata: "metadata_wf m \<Longrightarrow> json_wf (metadata_to_value m)"
  unfolding metadata_to_value_def
  by (rule json_wf_object)
    (auto simp: metadata_wf_def opt_field_def byte_in_def split: option.splits)

lemma nonempty_str_field_metadata [simp]:
  "nonempty_str_field (metadata_to_value m) ''aggregate_type'' =
     (if md_aggregate_type m = [] then None else Some (md_aggregate_type m))"
  "nonempty_str_field (metadata_to_value m) ''instance_id'' =
     (if md_instance_id m = [] then None else Some (md_instance_id m))"
  by (simp_all add: nonempty_str_field_def)

text \<open>What a decoded event keeps of the recorded one.\<close>

lemma decode_stored_event_fields:
  assumes "decode_stored_event E r = Some s"
  shows "se_global_position s = re_global_position r \<and> se_stream_version s = re_stream_version r \<and>
    se_event_type s = re_event_type r \<and> se_recorded_at s = re_recorded_at r"
  using assms by (auto simp: decode_stored_event_def bind_eq_Some_conv)

context adjacently_tagged
begin

text \<open>Encoding never fails on an event that follows the convention.\<close>

lemma encode_total:
  "\<exists>t d u s'. encode_domain_event A rng e ctx ty i s =
     (Inr \<lparr>pd_event_id = u, pd_event_type = t, pd_payload = d,
           pd_metadata = metadata_of_context ctx ty i\<rparr>, s') \<and>
     (u, s') = rng s \<and> utf8_valid t \<and> json_wf d \<and> event_from_value A (tagged_value t d) = Inr e"
proof -
  obtain t d where e: "event_to_value A e = Inr (tagged_value t d)" "utf8_valid t" "json_wf d"
    "event_from_value A (tagged_value t d) = Inr e"
    using event_envelope by blast
  have "(case map_of (if is_null d then [(''type'', JString t)]
      else [(''data'', d), (''type'', JString t)]) ''data'' of None \<Rightarrow> JNull | Some d \<Rightarrow> d) = d"
    by (simp add: is_null_def)
  with e show ?thesis
    by (cases "rng s") (auto simp: encode_domain_event_def as_object_tagged Let_def)
qed

lemma encode_Inr:
  assumes "encode_domain_event A rng e ctx ty i s = (Inr p, s')"
  shows "event_from_value A (tagged_value (pd_event_type p) (pd_payload p)) = Inr e \<and>
    json_wf (pd_payload p) \<and> utf8_valid (pd_event_type p)"
  using encode_total [of rng e ctx ty i s] assms by auto

end

end
