(* ===== verification/Snapshot.thy ===== *)
theory Snapshot
  imports Aggregate Storage Event
begin

text \<open>
  \<^verbatim>\<open>src/snapshot.rs\<close>: the snapshot of an aggregate, where it is kept, how it is saved
  and loaded. The locale \<open>checkpoint_file\<close> is interpreted on \<open>save_snapshot\<close> and
  \<open>load_snapshot\<close>.
\<close>

record 'a snapshot =
  snap_state :: 'a
  snap_stream_version :: u64

definition snapshot_to_value ::
  "('a, 'c, 'e, 'err) aggregate \<Rightarrow> 'a snapshot \<Rightarrow> string + json" where
  "snapshot_to_value A s =
     (case state_to_value A (snap_state s) of
        Inl e \<Rightarrow> Inl e
      | Inr v \<Rightarrow> Inr (json_object [(''state'', v),
          (''stream_version'', JNumber (PosInt (snap_stream_version s)))]))"

definition snapshot_from_value ::
  "('a, 'c, 'e, 'err) aggregate \<Rightarrow> json \<Rightarrow> string + 'a snapshot" where
  "snapshot_from_value A v =
     (case field_from_value (state_from_value A) ''state'' v of
        Inl e \<Rightarrow> Inl e
      | Inr x \<Rightarrow>
          (case field_from_value u64_from_value ''stream_version'' v of
             Inl e \<Rightarrow> Inl e
           | Inr n \<Rightarrow> Inr \<lparr>snap_state = x, snap_stream_version = n\<rparr>))"

definition snapshot_path :: "path \<Rightarrow> string \<Rightarrow> string \<Rightarrow> path" where
  "snapshot_path base_dir aggregate_type instance_id =
     path_join (path_join (path_join (path_join base_dir ''snapshots'') aggregate_type) instance_id)
       ''snapshot.json''"

definition snapshot_bytes ::
  "ext \<Rightarrow> ('a, 'c, 'e, 'err) aggregate \<Rightarrow> 'a snapshot \<Rightarrow> io_error + bytes" where
  "snapshot_bytes E A s =
     (case snapshot_to_value A s of
        Inl e \<Rightarrow> Inl (io_error_new InvalidData e)
      | Inr v \<Rightarrow>
          (case json_to_vec_pretty E v of
             Inl e \<Rightarrow> Inl (io_error_new InvalidData e)
           | Inr bs \<Rightarrow> Inr bs))"

text \<open>
  \<open>snapshot_path\<close> ends in a component, so \<open>parent()\<close> is \<open>Some\<close> and the \<open>expect\<close> on it never
  fires; the model reads it with a default of the path itself.
\<close>

definition save_snapshot ::
  "ext \<Rightarrow> ('a, 'c, 'e, 'err) aggregate \<Rightarrow> path \<Rightarrow> string \<Rightarrow> 'a snapshot \<Rightarrow> fs \<Rightarrow> (io_error + unit) \<times> fs" where
  "save_snapshot E A base_dir instance_id s F =
     (let path = snapshot_path base_dir (AGGREGATE_TYPE A) instance_id;
          dir = (case path_parent path of Some d \<Rightarrow> d | None \<Rightarrow> path);
          tmp_path = with_extension ''json.tmp'' path
      in write_and_rename dir tmp_path path (snapshot_bytes E A s) F)"

definition load_snapshot ::
  "ext \<Rightarrow> ('a, 'c, 'e, 'err) aggregate \<Rightarrow> path \<Rightarrow> string \<Rightarrow> fs \<Rightarrow> io_error + 'a snapshot option" where
  "load_snapshot E A base_dir instance_id F =
     (case fs_read (snapshot_path base_dir (AGGREGATE_TYPE A) instance_id) F of
        Inl e \<Rightarrow> if kind e = NotFound then Inr None else Inl e
      | Inr bs \<Rightarrow>
          (case json_from_slice E bs of
             Inl _ \<Rightarrow> Inr None
           | Inr v \<Rightarrow>
               (case snapshot_from_value A v of
                  Inl _ \<Rightarrow> Inr None
                | Inr s \<Rightarrow> Inr (Some s))))"

subsection \<open>Paths\<close>

lemma snapshot_path_comps:
  "\<exists>cs. comps (snapshot_path base ty i) = cs @ [''snapshot.json'']"
  by (simp add: snapshot_path_def path_join_simple)

lemma snapshot_path_parent: "path_parent (snapshot_path base ty i) \<noteq> None"
  using snapshot_path_comps [of base ty i] by (auto simp: path_parent_def)

lemma snapshot_tmp_path:
  "with_extension ''json.tmp'' (snapshot_path base ty i) \<noteq> snapshot_path base ty i"
proof
  obtain cs where cs: "comps (snapshot_path base ty i) = cs @ [''snapshot.json'']"
    using snapshot_path_comps by blast
  assume "with_extension ''json.tmp'' (snapshot_path base ty i) = snapshot_path base ty i"
  then have "comps (with_extension ''json.tmp'' (snapshot_path base ty i)) = cs @ [''snapshot.json'']"
    using cs by simp
  with cs show False by (simp add: with_extension_def)
qed

text \<open>Names that are one path component: not empty, not \<open>.\<close>, without a slash.\<close>

definition simple_name :: "string \<Rightarrow> bool" where
  "simple_name s \<longleftrightarrow> s \<noteq> [] \<and> s \<noteq> ''.'' \<and> s \<noteq> ''..'' \<and> CHR ''/'' \<notin> set s"

lemma split_slash_simple: "CHR ''/'' \<notin> set s \<Longrightarrow> split_slash acc s = [acc @ s]"
  by (induction acc s rule: split_slash.induct) auto

lemma path_of_simple: "simple_name s \<Longrightarrow> path_of s = \<lparr>is_absolute = False, comps = [s]\<rparr>"
  by (auto simp: simple_name_def path_of_def split_slash_simple split: list.splits)

lemma snapshot_path_simple:
  assumes "simple_name ty" and "simple_name i"
  shows "snapshot_path base ty i = base\<lparr>comps := comps base @ [''snapshots'', ty, i, ''snapshot.json'']\<rparr>"
  using assms by (simp add: snapshot_path_def path_join_simple path_of_simple)

subsection \<open>The file contract\<close>

definition snapshot_good ::
  "ext \<Rightarrow> ('a, 'c, 'e, 'err) aggregate \<Rightarrow> 'a snapshot \<Rightarrow> bool" where
  "snapshot_good E A s \<longleftrightarrow> ext_ok E \<and>
     (\<exists>v. state_to_value A (snap_state s) = Inr v \<and> json_wf v \<and>
        state_from_value A v = Inr (snap_state s))"

lemma snapshot_value_roundtrip:
  assumes "snapshot_good E A s" and "snapshot_bytes E A s = Inr bs"
  shows "\<exists>v. json_from_slice E bs = Inr v \<and> snapshot_from_value A v = Inr s"
proof -
  obtain x where x: "state_to_value A (snap_state s) = Inr x" "json_wf x"
    "state_from_value A x = Inr (snap_state s)" and E: "ext_ok E"
    using assms(1) by (auto simp: snapshot_good_def)
  let ?v = "json_object [(''state'', x), (''stream_version'', JNumber (PosInt (snap_stream_version s)))]"
  have "json_wf ?v" using x(2) by (intro json_wf_object) (auto simp: byte_in_def)
  with E obtain bs' where "json_to_vec_pretty E ?v = Inr bs'" "json_from_slice E bs' = Inr ?v"
    by (rule ext_ok_pretty)
  with assms(2) x have "json_from_slice E bs = Inr ?v"
    by (simp add: snapshot_bytes_def snapshot_to_value_def)
  moreover have "snapshot_from_value A ?v = Inr s"
    using x by (simp add: snapshot_from_value_def field_from_value_def json_object_def)
  ultimately show ?thesis by blast
qed

interpretation snapshot_file: checkpoint_file
  "snapshot_path base_dir (AGGREGATE_TYPE A) instance_id"
  "with_extension ''json.tmp'' (snapshot_path base_dir (AGGREGATE_TYPE A) instance_id)"
  "snapshot_bytes E A" "save_snapshot E A base_dir instance_id"
  "load_snapshot E A base_dir instance_id" "snapshot_good E A"
  for E :: ext and A :: "('a, 'c, 'e, 'err) aggregate" and base_dir :: path and instance_id :: string
proof (unfold_locales, goal_cases)
  case 1
  show ?case by (rule snapshot_tmp_path)
next
  case (2 c F u F')
  then show ?case
    unfolding save_snapshot_def Let_def by (rule write_and_rename_Inr [OF _ snapshot_tmp_path])
next
  case (3 c F e F')
  then show ?case unfolding save_snapshot_def Let_def by (rule write_and_rename_Inl)
next
  case (4 F G)
  then show ?case unfolding load_snapshot_def by (simp only: fs_read_cong [of F _ G])
next
  case (5 c bs F)
  then show ?case using snapshot_value_roundtrip [OF 5(1,2)]
    by (auto simp: load_snapshot_def fs_read_def)
next
  case (6 F)
  then show ?case by (simp add: load_snapshot_def fs_read_def io_error_new_def)
qed

lemma counter_snapshot_good: "ext_ok E \<Longrightarrow> snapshot_good E Counter sn"
  using counter_agg.state_value [of "snap_state sn"] by (auto simp: snapshot_good_def)

text \<open>On a disk that fails no operation, a serialisable snapshot is saved.\<close>

lemma snapshot_save_succeeds:
  assumes "save_snapshot E A base i sn F = (r, F')" and "snapshot_bytes E A sn = Inr bs"
    and "\<And>op p. io_fails F op p = None"
  shows "r = Inr ()"
proof -
  obtain d where d: "path_parent (snapshot_path base (AGGREGATE_TYPE A) i) = Some d"
    using snapshot_path_parent [of base "AGGREGATE_TYPE A" i] by auto
  have "fst (save_snapshot E A base i sn F) = Inr ()"
    using write_and_rename_succeeds [OF assms(3) parent_with_extension [OF d]] assms(2) d
    by (simp add: save_snapshot_def Let_def)
  with assms(1) show ?thesis by simp
qed

end
