(* ===== verification/Auth.thy ===== *)
theory Auth
  imports Platform
begin

text \<open>
  \<^verbatim>\<open>src/auth.rs\<close>: the interceptor that stamps the shared bearer token on every outgoing
  request. The lock around the token is its current content, \<open>None\<close> when a writer panicked
  while holding it.
\<close>

type_synonym grpc_metadata = "(string \<times> string) list"

text \<open>\<open>MetadataMap::insert\<close> replaces the previous value of the key.\<close>

definition metadata_insert :: "string \<Rightarrow> string \<Rightarrow> grpc_metadata \<Rightarrow> grpc_metadata" where
  "metadata_insert k v m = (k, v) # filter (\<lambda>kv. fst kv \<noteq> k) m"

definition bearer_call ::
  "ext \<Rightarrow> string option \<Rightarrow> grpc_metadata \<Rightarrow> status fault + grpc_metadata" where
  "bearer_call E lock req =
     (case lock of
        None \<Rightarrow> Inl (Panicked ''token RwLock poisoned'')
      | Some token \<Rightarrow>
          if token \<noteq> [] then
            (let value = ''Bearer '' @ token
             in if metadata_value_ok E value then Inr (metadata_insert ''authorization'' value req)
                else Inl (Raised (status_new GInternal ''invalid token characters'')))
          else Inr req)"

lemma map_of_metadata_insert [simp]:
  "map_of (metadata_insert k v m) k' = (if k' = k then Some v else map_of m k')"
proof (cases "k' = k")
  case False
  have "map_of (filter (\<lambda>kv. fst kv \<noteq> k) m) k' = map_of m k'"
    using False by (induction m) auto
  with False show ?thesis by (simp add: metadata_insert_def)
qed (simp add: metadata_insert_def)

text \<open>
  The header of an intercepted request: present with the current token exactly when the token
  is non-empty, every other entry untouched.
\<close>

lemma bearer_call_Inr:
  assumes "bearer_call E (Some token) req = Inr req'"
  shows "map_of req' k =
    (if k = ''authorization'' \<and> token \<noteq> [] then Some (''Bearer '' @ token) else map_of req k)"
  using assms by (auto simp: bearer_call_def Let_def split: if_splits)

end
