(* ===== verification/Client.thy ===== *)
theory Client
  imports Event Auth
begin

text \<open>
  \<^verbatim>\<open>src/client.rs\<close>: the typed wrapper around the generated gRPC client. The generated client
  and the server behind it are the record \<open>rpc\<close> of functions on a world state: each call takes
  the request metadata and the request and returns the response or a status, and the next
  world.
\<close>

datatype expected_version_arg = Any | NoStream | Exact u64

fun to_proto :: "expected_version_arg \<Rightarrow> expected_version" where
  "to_proto Any = \<lparr>ev_kind = Some KAny\<rparr>"
| "to_proto NoStream = \<lparr>ev_kind = Some KNoStream\<rparr>"
| "to_proto (Exact v) = \<lparr>ev_kind = Some (KExact v)\<rparr>"

definition unwrap_or_default :: "'e + 'a list \<Rightarrow> 'a list" where
  "unwrap_or_default r = (case r of Inl _ \<Rightarrow> [] | Inr x \<Rightarrow> x)"

definition to_proto_event :: "ext \<Rightarrow> proposed_event_data \<Rightarrow> proposed_event" where
  "to_proto_event E data =
     \<lparr>pe_event_id = uuid_to_string E (pd_event_id data),
      pe_event_type = pd_event_type data,
      pe_metadata = unwrap_or_default (json_to_vec E (metadata_to_value (pd_metadata data))),
      pe_payload = unwrap_or_default (json_to_vec E (pd_payload data))\<rparr>"

subsection \<open>The transport\<close>

text \<open>\<open>token_lock\<close> is the content of the shared token lock of an authenticated client.\<close>

record 'w rpc =
  token_lock :: "'w \<Rightarrow> string"
  rpc_append :: "'w \<Rightarrow> grpc_metadata \<Rightarrow> append_request \<Rightarrow> (status + append_response) \<times> 'w"
  rpc_read_stream ::
    "'w \<Rightarrow> grpc_metadata \<Rightarrow> read_stream_request \<Rightarrow> (status + recorded_event list) \<times> 'w"
  rpc_subscribe_all :: "'w \<Rightarrow> grpc_metadata \<Rightarrow> u64 \<Rightarrow> (status + sub_stream) \<times> 'w"

datatype es_client = Plain | Auth

definition call_rpc ::
  "ext \<Rightarrow> 'w rpc \<Rightarrow> es_client \<Rightarrow> (grpc_metadata \<Rightarrow> 'w \<Rightarrow> (status + 'r) \<times> 'w) \<Rightarrow> 'w \<Rightarrow> (status + 'r) \<times> 'w" where
  "call_rpc E R c f w =
     (case c of
        Plain \<Rightarrow> f [] w
      | Auth \<Rightarrow>
          (case bearer_call E (Some (token_lock R w)) [] of
             Inl (Raised st) \<Rightarrow> (Inl st, w)
           | Inl (Panicked m) \<Rightarrow> (Inl (status_new GInternal m), w)
           | Inr md \<Rightarrow> f md w))"

definition es_append ::
  "ext \<Rightarrow> 'w rpc \<Rightarrow> es_client \<Rightarrow> uuid \<Rightarrow> expected_version_arg \<Rightarrow> proposed_event_data list \<Rightarrow> 'w
    \<Rightarrow> (status + append_response) \<times> 'w" where
  "es_append E R c stream_id expected events w =
     (let proto_events = map (to_proto_event E) events;
          request = \<lparr>ar_stream_id = uuid_to_string E stream_id,
                     ar_expected_version = Some (to_proto expected),
                     ar_events = proto_events\<rparr>
      in call_rpc E R c (\<lambda>md w. rpc_append R w md request) w)"

definition es_read_stream ::
  "ext \<Rightarrow> 'w rpc \<Rightarrow> es_client \<Rightarrow> uuid \<Rightarrow> u64 \<Rightarrow> u64 \<Rightarrow> 'w \<Rightarrow> (status + recorded_event list) \<times> 'w" where
  "es_read_stream E R c stream_id from_version max_count w =
     (let request = \<lparr>rr_stream_id = uuid_to_string E stream_id,
                     rr_from_version = from_version, rr_max_count = max_count\<rparr>
      in case call_rpc E R c (\<lambda>md w. rpc_read_stream R w md request) w of
           (Inr events, w') \<Rightarrow> (Inr events, w')
         | (Inl st, w') \<Rightarrow> if code st = GNotFound then (Inr [], w') else (Inl st, w'))"

definition es_subscribe_all_from ::
  "ext \<Rightarrow> 'w rpc \<Rightarrow> es_client \<Rightarrow> u64 \<Rightarrow> 'w \<Rightarrow> (status + sub_stream) \<times> 'w" where
  "es_subscribe_all_from E R c from_position w =
     call_rpc E R c (\<lambda>md w. rpc_subscribe_all R w md from_position) w"

subsection \<open>Lemmas\<close>

lemma unwrap_or_default_simps [simp]:
  "unwrap_or_default (Inl e) = []" "unwrap_or_default (Inr x) = x"
  by (simp_all add: unwrap_or_default_def)

lemma to_proto_inj: "to_proto a = to_proto b \<longleftrightarrow> a = b"
  by (cases a; cases b) simp_all

text \<open>\<open>call_rpc\<close> either fails before the wire, leaving the world alone, or makes the call.\<close>

lemma call_rpc_cases:
  assumes "call_rpc E R c f w = (r, w')"
  obtains (sent) md where "f md w = (r, w')"
  | (unsent) st where "r = Inl st" "w' = w" "code st = GInternal"
  using assms
  by (auto simp: call_rpc_def bearer_call_def Let_def status_new_def
      split: es_client.splits if_splits)

text \<open>A recorded event that carries a proposed event, as the server stores it.\<close>

definition carries :: "ext \<Rightarrow> uuid \<Rightarrow> proposed_event_data \<Rightarrow> recorded_event \<Rightarrow> bool" where
  "carries E sid p r \<longleftrightarrow>
     re_stream_id r = uuid_to_string E sid \<and>
     re_event_id r = pe_event_id (to_proto_event E p) \<and>
     re_event_type r = pe_event_type (to_proto_event E p) \<and>
     re_metadata r = pe_metadata (to_proto_event E p) \<and>
     re_payload r = pe_payload (to_proto_event E p)"

text \<open>The stored event a proposed event becomes.\<close>

definition stored_of :: "uuid \<Rightarrow> proposed_event_data \<Rightarrow> recorded_event \<Rightarrow> stored_event" where
  "stored_of sid p r =
     \<lparr>se_event_id = pd_event_id p, se_stream_id = sid,
      se_aggregate_type = md_aggregate_type (pd_metadata p),
      se_instance_id = md_instance_id (pd_metadata p),
      se_stream_version = re_stream_version r, se_global_position = re_global_position r,
      se_event_type = pd_event_type p, se_payload = pd_payload p,
      se_metadata = metadata_to_value (pd_metadata p), se_recorded_at = re_recorded_at r\<rparr>"

lemma decode_carried:
  assumes "ext_ok E" and "carries E sid p r"
    and "json_wf (pd_payload p)" and "metadata_wf (pd_metadata p)"
  shows "decode_stored_event E r =
    (if md_aggregate_type (pd_metadata p) = [] \<or> md_instance_id (pd_metadata p) = [] then None
     else Some (stored_of sid p r))"
proof -
  obtain mbs where m: "json_to_vec E (metadata_to_value (pd_metadata p)) = Inr mbs" "utf8_valid mbs"
    "json_from_str E mbs = Inr (metadata_to_value (pd_metadata p))"
    using assms(1) json_wf_metadata [OF assms(4)] by (rule ext_ok_json)
  obtain pbs where p: "json_to_vec E (pd_payload p) = Inr pbs" "pbs \<noteq> []" "utf8_valid pbs"
    "json_from_str E pbs = Inr (pd_payload p)"
    using assms(1,3) by (rule ext_ok_json)
  show ?thesis
    using assms(2) m p
    by (simp add: decode_stored_event_def carries_def to_proto_event_def decode_payload_def
        ext_ok_uuid [OF assms(1)] from_utf8_def stored_of_def)
qed

subsection \<open>Connecting\<close>

text \<open>
  \<open>channel\<close> is the transport: the error with which opening a channel to an endpoint fails, if it
  does, without and with the interceptor.
\<close>

definition es_connect :: "(string \<Rightarrow> es_client \<Rightarrow> 'terr option) \<Rightarrow> string \<Rightarrow> 'terr + es_client" where
  "es_connect channel endpoint =
     (case channel endpoint Plain of Some e \<Rightarrow> Inl e | None \<Rightarrow> Inr Plain)"

definition es_connect_with_token :: "(string \<Rightarrow> es_client \<Rightarrow> 'terr option) \<Rightarrow> string \<Rightarrow> 'terr + es_client" where
  "es_connect_with_token channel endpoint =
     (case channel endpoint Auth of Some e \<Rightarrow> Inl e | None \<Rightarrow> Inr Auth)"

end
