(* ===== verification/Event_Store.thy ===== *)
theory Event_Store
  imports Client
begin

text \<open>
  The trait \<open>EventStoreOps\<close> of \<^verbatim>\<open>src/actor.rs\<close>, its two implementations (the gRPC client, and
  the mock store of the actor's tests), and what the crate relies on of the server: the
  contract of an append-only, versioned stream with optimistic concurrency, at the wire
  (\<open>rpc_contract\<close>) and at the trait (\<open>store_contract\<close>).
\<close>

record 's event_store_ops =
  append_op :: "uuid \<Rightarrow> expected_version_arg \<Rightarrow> proposed_event_data list \<Rightarrow> 's
    \<Rightarrow> (status + append_response) \<times> 's"
  read_stream_op :: "uuid \<Rightarrow> u64 \<Rightarrow> u64 \<Rightarrow> 's \<Rightarrow> (status + recorded_event list) \<times> 's"

definition es_client_ops :: "ext \<Rightarrow> 'w rpc \<Rightarrow> es_client \<Rightarrow> 'w event_store_ops" where
  "es_client_ops E R c =
     \<lparr>append_op = es_append E R c, read_stream_op = es_read_stream E R c\<rparr>"

subsection \<open>The mock store of the actor's tests\<close>

record mock_store =
  ms_events :: "recorded_event list"
  precondition_failures_remaining :: nat
  next_version :: u64

definition mock_new :: mock_store where
  "mock_new = \<lparr>ms_events = [], precondition_failures_remaining = 0, next_version = 0\<rparr>"

definition with_precondition_failures :: "nat \<Rightarrow> mock_store" where
  "with_precondition_failures n =
     \<lparr>ms_events = [], precondition_failures_remaining = n, next_version = 0\<rparr>"

definition with_events :: "recorded_event list \<Rightarrow> mock_store \<Rightarrow> mock_store" where
  "with_events events m =
     m\<lparr>ms_events := events,
       next_version := (if events = [] then 0 else re_stream_version (last events) + 1)\<rparr>"

definition mock_record :: "ext \<Rightarrow> uuid \<Rightarrow> proposed_event_data \<Rightarrow> mock_store \<Rightarrow> mock_store" where
  "mock_record E sid p m =
     m\<lparr>ms_events := ms_events m @
         [\<lparr>re_event_id = uuid_to_string E (pd_event_id p),
           re_stream_id = uuid_to_string E sid,
           re_stream_version = next_version m,
           re_global_position = of_nat (length (ms_events m)),
           re_event_type = pd_event_type p,
           re_metadata = unwrap_or_default (json_to_vec E (metadata_to_value (pd_metadata p))),
           re_payload = unwrap_or_default (json_to_vec E (pd_payload p)),
           re_recorded_at = 1700000000000\<rparr>],
       next_version := next_version m + 1\<rparr>"

definition mock_append ::
  "ext \<Rightarrow> uuid \<Rightarrow> expected_version_arg \<Rightarrow> proposed_event_data list \<Rightarrow> mock_store
    \<Rightarrow> (status + append_response) \<times> mock_store" where
  "mock_append E sid expected events m =
     (if 0 < precondition_failures_remaining m then
        (Inl (status_new GFailedPrecondition ''wrong expected version''),
         m\<lparr>precondition_failures_remaining := precondition_failures_remaining m - 1\<rparr>)
      else
        (let m' = fold (mock_record E sid) events m
         in (Inr \<lparr>first_stream_version = next_version m' - of_nat (length events),
                  last_stream_version = next_version m' - 1,
                  first_global_position = 0, last_global_position = 0\<rparr>, m')))"

definition mock_read_stream ::
  "uuid \<Rightarrow> u64 \<Rightarrow> u64 \<Rightarrow> mock_store \<Rightarrow> (status + recorded_event list) \<times> mock_store" where
  "mock_read_stream sid from_version max_count m =
     (Inr (take (unat max_count)
        (filter (\<lambda>e. from_version \<le> re_stream_version e) (ms_events m))), m)"

definition mock_ops :: "ext \<Rightarrow> mock_store event_store_ops" where
  "mock_ops E = \<lparr>append_op = mock_append E, read_stream_op = mock_read_stream\<rparr>"

subsection \<open>What the crate relies on of the server\<close>

text \<open>
  \<open>strm w sid\<close> is the stream of the server in world \<open>w\<close>; the world moves only by calls, and
  what other clients do meanwhile happens within a call, before the server serves it. Streams
  only grow; the event at index \<open>i\<close> has version \<open>i\<close>; a successful append puts the proposed
  events, as one block, at the end of the stream, whose length then fits the answered last
  version, and \<open>exact\<close>/\<open>no_stream\<close> name the length it had; an append whose expectation fails
  at that moment is not a success; a read returns the requested slice, or \<open>NotFound\<close> for an
  empty stream.
\<close>

definition versioned :: "recorded_event list \<Rightarrow> bool" where
  "versioned es \<longleftrightarrow> length es < 2 ^ 64 \<and> (\<forall>i < length es. re_stream_version (es ! i) = of_nat i)"

definition expectation_met :: "expected_version option \<Rightarrow> recorded_event list \<Rightarrow> bool" where
  "expectation_met ev pre =
     (case Option.bind ev ev_kind of
        Some (KExact v) \<Rightarrow> length pre = Suc (unat v)
      | Some KNoStream \<Rightarrow> pre = []
      | _ \<Rightarrow> True)"

definition stored_as :: "string \<Rightarrow> proposed_event \<Rightarrow> recorded_event \<Rightarrow> bool" where
  "stored_as sid p r \<longleftrightarrow>
     re_stream_id r = sid \<and> re_event_id r = pe_event_id p \<and> re_event_type r = pe_event_type p \<and>
     re_metadata r = pe_metadata p \<and> re_payload r = pe_payload p"

definition append_ok :: "('w \<Rightarrow> string \<Rightarrow> recorded_event list) \<Rightarrow> append_request \<Rightarrow> 'w
    \<Rightarrow> status + append_response \<Rightarrow> 'w \<Rightarrow> bool" where
  "append_ok strm rq w r w' \<longleftrightarrow>
     (\<forall>sid. prefix (strm w sid) (strm w' sid)) \<and>
     (case r of
        Inl _ \<Rightarrow> True
      | Inr resp \<Rightarrow>
          \<exists>pre new. strm w' (ar_stream_id rq) = pre @ new \<and> prefix (strm w (ar_stream_id rq)) pre \<and>
            list_all2 (stored_as (ar_stream_id rq)) (ar_events rq) new \<and>
            expectation_met (ar_expected_version rq) pre \<and>
            (new \<noteq> [] \<longrightarrow> Suc (unat (last_stream_version resp)) = length (pre @ new)))"

definition read_ok :: "('w \<Rightarrow> string \<Rightarrow> recorded_event list) \<Rightarrow> read_stream_request \<Rightarrow> 'w
    \<Rightarrow> status + recorded_event list \<Rightarrow> 'w \<Rightarrow> bool" where
  "read_ok strm rq w r w' \<longleftrightarrow>
     (\<forall>sid. prefix (strm w sid) (strm w' sid)) \<and>
     (case r of
        Inl st \<Rightarrow> code st = GNotFound \<longrightarrow> strm w' (rr_stream_id rq) = []
      | Inr es \<Rightarrow> es = take (unat (rr_max_count rq))
          (drop (unat (rr_from_version rq)) (strm w' (rr_stream_id rq))))"

definition rpc_contract :: "'w rpc \<Rightarrow> ('w \<Rightarrow> string \<Rightarrow> recorded_event list) \<Rightarrow> bool" where
  "rpc_contract R strm \<longleftrightarrow>
     (\<forall>w sid. versioned (strm w sid)) \<and>
     (\<forall>w md rq. append_ok strm rq w (fst (rpc_append R w md rq)) (snd (rpc_append R w md rq))) \<and>
     (\<forall>w md rq. read_ok strm rq w (fst (rpc_read_stream R w md rq)) (snd (rpc_read_stream R w md rq)))"

subsection \<open>The contract of the trait\<close>

definition expectation_holds :: "expected_version_arg \<Rightarrow> recorded_event list \<Rightarrow> bool" where
  "expectation_holds x pre = expectation_met (Some (to_proto x)) pre"

definition store_contract ::
  "ext \<Rightarrow> 's event_store_ops \<Rightarrow> uuid \<Rightarrow> ('s \<Rightarrow> recorded_event list) \<Rightarrow> bool" where
  "store_contract E S sid strm \<longleftrightarrow>
     (\<forall>s. versioned (strm s)) \<and>
     (\<forall>s s' x ps r. append_op S sid x ps s = (r, s') \<longrightarrow> prefix (strm s) (strm s')) \<and>
     (\<forall>s s' x ps resp. append_op S sid x ps s = (Inr resp, s') \<longrightarrow>
        (\<exists>pre new. strm s' = pre @ new \<and> prefix (strm s) pre \<and> list_all2 (carries E sid) ps new \<and>
           expectation_holds x pre \<and>
           (new \<noteq> [] \<longrightarrow> Suc (unat (last_stream_version resp)) = length (pre @ new)))) \<and>
     (\<forall>s s' from mx r. read_stream_op S sid from mx s = (r, s') \<longrightarrow> prefix (strm s) (strm s')) \<and>
     (\<forall>s s' from mx es. read_stream_op S sid from mx s = (Inr es, s') \<longrightarrow>
        es = take (unat mx) (drop (unat from) (strm s')))"

lemma expectation_holds_simps [simp]:
  "expectation_holds (Exact v) pre \<longleftrightarrow> length pre = Suc (unat v)"
  "expectation_holds NoStream pre \<longleftrightarrow> pre = []"
  "expectation_holds Any pre"
  by (simp_all add: expectation_holds_def expectation_met_def)

lemma stored_as_to_proto:
  "stored_as (uuid_to_string E sid) (to_proto_event E p) r \<longleftrightarrow> carries E sid p r"
  by (auto simp: stored_as_def carries_def)

lemma es_append_cases:
  assumes "es_append E R c sid x ps w = (r, w')"
  shows "(\<exists>md. rpc_append R w md \<lparr>ar_stream_id = uuid_to_string E sid,
             ar_expected_version = Some (to_proto x), ar_events = map (to_proto_event E) ps\<rparr> = (r, w')) \<or>
    (\<exists>st. r = Inl st \<and> w' = w)"
  using assms by (auto simp: es_append_def Let_def elim!: call_rpc_cases)

lemma es_read_cases:
  assumes "es_read_stream E R c sid from mx w = (r, w')"
  shows "(\<exists>md r'. rpc_read_stream R w md \<lparr>rr_stream_id = uuid_to_string E sid,
             rr_from_version = from, rr_max_count = mx\<rparr> = (r', w') \<and>
             (r = r' \<or> (\<exists>st. r' = Inl st \<and> code st = GNotFound \<and> r = Inr []))) \<or>
    (\<exists>st. r = Inl st \<and> w' = w)"
proof -
  obtain r0 w0 where c: "call_rpc E R c (\<lambda>md w. rpc_read_stream R w md \<lparr>rr_stream_id =
      uuid_to_string E sid, rr_from_version = from, rr_max_count = mx\<rparr>) w = (r0, w0)"
    by fastforce
  with assms show ?thesis
    by (cases rule: call_rpc_cases [OF c])
      (auto simp: es_read_stream_def Let_def split: sum.splits if_splits)
qed

text \<open>The projections of the trait contract.\<close>

lemma store_contract_versioned: "store_contract E S sid strm \<Longrightarrow> versioned (strm s)"
  by (simp add: store_contract_def)

lemma store_contract_grows:
  "store_contract E S sid strm \<Longrightarrow> append_op S sid x ps s = (r, s') \<Longrightarrow> prefix (strm s) (strm s')"
  "store_contract E S sid strm \<Longrightarrow> read_stream_op S sid from mx s = (q, s') \<Longrightarrow> prefix (strm s) (strm s')"
  unfolding store_contract_def by blast+

lemma store_contract_append:
  assumes "store_contract E S sid strm" and "append_op S sid x ps s = (Inr resp, s')"
  obtains pre new where "strm s' = pre @ new" "prefix (strm s) pre" "list_all2 (carries E sid) ps new"
    "expectation_holds x pre" "new \<noteq> [] \<longrightarrow> Suc (unat (last_stream_version resp)) = length (pre @ new)"
proof -
  have "\<exists>pre new. strm s' = pre @ new \<and> prefix (strm s) pre \<and> list_all2 (carries E sid) ps new \<and>
      expectation_holds x pre \<and> (new \<noteq> [] \<longrightarrow> Suc (unat (last_stream_version resp)) = length (pre @ new))"
    using assms unfolding store_contract_def by presburger
  then show thesis by (elim exE conjE) (rule that; blast)
qed

lemma store_contract_read:
  "store_contract E S sid strm \<Longrightarrow> read_stream_op S sid from mx s = (Inr es, s') \<Longrightarrow>
    es = take (unat mx) (drop (unat from) (strm s'))"
  unfolding store_contract_def by blast

lemma es_append_contract:
  assumes "rpc_contract R strm" and "es_append E R c sid x ps w = (r, w')"
  shows "prefix (strm w i) (strm w' i)"
    and "r = Inr resp \<Longrightarrow>
      \<exists>pre new. strm w' (uuid_to_string E sid) = pre @ new \<and> prefix (strm w (uuid_to_string E sid)) pre \<and>
        list_all2 (carries E sid) ps new \<and> expectation_holds x pre \<and>
        (new \<noteq> [] \<longrightarrow> Suc (unat (last_stream_version resp)) = length (pre @ new))"
proof -
  let ?rq = "\<lparr>ar_stream_id = uuid_to_string E sid, ar_expected_version = Some (to_proto x),
    ar_events = map (to_proto_event E) ps\<rparr>"
  have ok: "append_ok strm ?rq w r w' \<or> (\<exists>st. r = Inl st \<and> w' = w)"
    using es_append_cases [OF assms(2)] assms(1) unfolding rpc_contract_def by (metis fst_conv snd_conv)
  then show "prefix (strm w i) (strm w' i)" by (auto simp: append_ok_def)
  show "\<exists>pre new. strm w' (uuid_to_string E sid) = pre @ new \<and> prefix (strm w (uuid_to_string E sid)) pre \<and>
        list_all2 (carries E sid) ps new \<and> expectation_holds x pre \<and>
        (new \<noteq> [] \<longrightarrow> Suc (unat (last_stream_version resp)) = length (pre @ new))" if "r = Inr resp"
    using ok that
    by (auto simp: append_ok_def expectation_holds_def list_all2_map1 stored_as_to_proto)
qed

lemma es_read_contract:
  assumes "rpc_contract R strm" and "es_read_stream E R c sid from mx w = (r, w')"
  shows "prefix (strm w i) (strm w' i)"
    and "r = Inr es \<Longrightarrow> es = take (unat mx) (drop (unat from) (strm w' (uuid_to_string E sid)))"
proof -
  let ?rq = "\<lparr>rr_stream_id = uuid_to_string E sid, rr_from_version = from, rr_max_count = mx\<rparr>"
  have ok: "(\<exists>r'. read_ok strm ?rq w r' w' \<and>
      (r = r' \<or> (\<exists>st. r' = Inl st \<and> code st = GNotFound \<and> r = Inr []))) \<or> (\<exists>st. r = Inl st \<and> w' = w)"
    using es_read_cases [OF assms(2)] assms(1) unfolding rpc_contract_def by (metis fst_conv snd_conv)
  then show "prefix (strm w i) (strm w' i)" by (auto simp: read_ok_def)
  show "es = take (unat mx) (drop (unat from) (strm w' (uuid_to_string E sid)))" if "r = Inr es"
    using ok that by (auto simp: read_ok_def)
qed

text \<open>The gRPC client keeps the contract of the server at the trait.\<close>

lemma es_client_contract:
  assumes "rpc_contract R strm"
  shows "store_contract E (es_client_ops E R c) sid (\<lambda>w. strm w (uuid_to_string E sid))"
  unfolding store_contract_def es_client_ops_def event_store_ops.simps
proof (intro conjI allI impI)
  show "versioned (strm w (uuid_to_string E sid))" for w
    using assms by (simp add: rpc_contract_def)
next
  fix w w' x ps r
  assume "es_append E R c sid x ps w = (r, w')"
  with assms show "prefix (strm w (uuid_to_string E sid)) (strm w' (uuid_to_string E sid))"
    by (rule es_append_contract(1))
next
  fix w w' x ps resp
  assume "es_append E R c sid x ps w = (Inr resp, w')"
  from es_append_contract(2) [OF assms this refl]
  show "\<exists>pre new. strm w' (uuid_to_string E sid) = pre @ new \<and>
      prefix (strm w (uuid_to_string E sid)) pre \<and> list_all2 (carries E sid) ps new \<and>
      expectation_holds x pre \<and>
      (new \<noteq> [] \<longrightarrow> Suc (unat (last_stream_version resp)) = length (pre @ new))" .
next
  fix w w' frm mx r
  assume "es_read_stream E R c sid frm mx w = (r, w')"
  with assms show "prefix (strm w (uuid_to_string E sid)) (strm w' (uuid_to_string E sid))"
    by (rule es_read_contract(1))
next
  fix w w' frm mx es
  assume "es_read_stream E R c sid frm mx w = (Inr es, w')"
  from es_read_contract(2) [OF assms this refl]
  show "es = take (unat mx) (drop (unat frm) (strm w' (uuid_to_string E sid)))" .
qed

end
