(* ===== verification/Reference_Env.thy ===== *)
theory Reference_Env
  imports Event_Store
begin

text \<open>
  A concrete instance of the parameters of the model, for the closed instances of the
  theorems: an executable text form of JSON values and identifiers that satisfies \<open>ext_ok\<close>,
  and an in-memory server that satisfies \<open>rpc_contract\<close>, with a schedule of what other
  clients append before each call.
\<close>

subsection \<open>A text form of JSON\<close>

definition bits_of :: "(nat \<Rightarrow> bool) \<Rightarrow> nat \<Rightarrow> string" where
  "bits_of f n = map (\<lambda>i. if f i then CHR ''1'' else CHR ''0'') [0..<n]"

definition bools :: "string \<Rightarrow> bool list" where
  "bools s = map (\<lambda>c. c = CHR ''1'') s"

definition word_text :: "u64 \<Rightarrow> string" where
  "word_text w = bits_of (bit w) 64"

definition text_word :: "string \<Rightarrow> u64" where
  "text_word s = horner_sum of_bool 2 (bools s)"

definition char_text :: "char \<Rightarrow> string" where
  "char_text c = bits_of (bit (of_char c :: nat)) 8"

definition text_char :: "string \<Rightarrow> char" where
  "text_char s = char_of (horner_sum of_bool 2 (bools s) :: nat)"

fun enc_str :: "string \<Rightarrow> string" where
  "enc_str [] = '']''"
| "enc_str (c # s) = CHR '','' # char_text c @ enc_str s"

fun enc :: "json \<Rightarrow> string" and encs :: "json list \<Rightarrow> string" and encm :: "json_map \<Rightarrow> string" where
  "enc JNull = ''n''"
| "enc (JBool b) = (if b then ''t'' else ''f'')"
| "enc (JNumber (PosInt w)) = CHR ''p'' # word_text w"
| "enc (JNumber (NegInt w)) = CHR ''m'' # word_text w"
| "enc (JNumber (Float w)) = CHR ''d'' # word_text w"
| "enc (JString s) = CHR ''s'' # enc_str s"
| "enc (JArray vs) = CHR ''a'' # encs vs"
| "enc (JObject m) = CHR ''o'' # encm m"
| "encs [] = '']''"
| "encs (v # vs) = CHR '','' # enc v @ encs vs"
| "encm [] = '']''"
| "encm ((k, v) # m) = CHR '','' # enc_str k @ enc v @ encm m"

fun dec_str :: "nat \<Rightarrow> string \<Rightarrow> (string \<times> string) option" where
  "dec_str 0 _ = None"
| "dec_str (Suc n) s =
     (if s = [] then None
      else if hd s = CHR '']'' then Some ([], tl s)
      else (case dec_str n (drop 8 (tl s)) of
              None \<Rightarrow> None
            | Some (t, r) \<Rightarrow> Some (text_char (take 8 (tl s)) # t, r)))"

fun dec :: "nat \<Rightarrow> string \<Rightarrow> (json \<times> string) option"
  and decs :: "nat \<Rightarrow> string \<Rightarrow> (json list \<times> string) option"
  and decm :: "nat \<Rightarrow> string \<Rightarrow> (json_map \<times> string) option" where
  "dec 0 _ = None"
| "dec (Suc n) s =
     (case s of
        [] \<Rightarrow> None
      | c # r \<Rightarrow>
          if c = CHR ''n'' then Some (JNull, r)
          else if c = CHR ''t'' then Some (JBool True, r)
          else if c = CHR ''f'' then Some (JBool False, r)
          else if c = CHR ''p'' then Some (JNumber (PosInt (text_word (take 64 r))), drop 64 r)
          else if c = CHR ''m'' then Some (JNumber (NegInt (text_word (take 64 r))), drop 64 r)
          else if c = CHR ''d'' then Some (JNumber (Float (text_word (take 64 r))), drop 64 r)
          else if c = CHR ''s'' then map_option (apfst JString) (dec_str n r)
          else if c = CHR ''a'' then map_option (apfst JArray) (decs n r)
          else map_option (apfst JObject) (decm n r))"
| "decs 0 _ = None"
| "decs (Suc n) s =
     (case s of
        [] \<Rightarrow> None
      | c # r \<Rightarrow>
          if c = CHR '']'' then Some ([], r)
          else (case dec n r of
                  None \<Rightarrow> None
                | Some (v, r') \<Rightarrow> map_option (apfst ((#) v)) (decs n r')))"
| "decm 0 _ = None"
| "decm (Suc n) s =
     (case s of
        [] \<Rightarrow> None
      | c # r \<Rightarrow>
          if c = CHR '']'' then Some ([], r)
          else (case dec_str n r of
                  None \<Rightarrow> None
                | Some (k, r') \<Rightarrow>
                    (case dec n r' of
                       None \<Rightarrow> None
                     | Some (v, r'') \<Rightarrow> map_option (apfst ((#) (k, v))) (decm n r''))))"

lemma bools_bits_of [simp]: "bools (bits_of f n) = map f [0..<n]"
  by (simp add: bools_def bits_of_def)

lemma length_bits_of [simp]: "length (bits_of f n) = n"
  by (simp add: bits_of_def)

lemma text_word_inverse [simp]: "text_word (word_text w) = w"
  by (simp add: text_word_def word_text_def horner_sum_bit_eq_take_bit take_bit_word_eq_self)

lemma text_char_inverse [simp]: "text_char (char_text c) = c"
proof -
  have "take_bit 8 (of_char c :: nat) = of_char c"
    by (simp add: take_bit_eq_mod)
  then show ?thesis by (simp add: text_char_def char_text_def horner_sum_bit_eq_take_bit)
qed

lemma text_lengths [simp]: "length (word_text w) = 64" "length (char_text c) = 8"
  by (simp_all add: word_text_def char_text_def)

lemma dec_enc_str: "length (enc_str s) \<le> n \<Longrightarrow> dec_str n (enc_str s @ r) = Some (s, r)"
proof (induction s arbitrary: n)
  case Nil
  then show ?case by (cases n) simp_all
next
  case (Cons c s)
  then show ?case by (cases n) simp_all
qed

lemma dec_enc:
  "length (enc v) \<le> n \<Longrightarrow> dec n (enc v @ r) = Some (v, r)"
  "length (encs vs) \<le> n \<Longrightarrow> decs n (encs vs @ r) = Some (vs, r)"
  "length (encm m) \<le> n \<Longrightarrow> decm n (encm m @ r) = Some (m, r)"
proof (induction v and vs and m arbitrary: n r and n r and n r rule: enc_encs_encm.induct)
  case 1
  then show ?case by (cases n) simp_all
next
  case (2 b)
  then show ?case by (cases n; cases b) simp_all
next
  case (3 w)
  then show ?case by (cases n) simp_all
next
  case (4 w)
  then show ?case by (cases n) simp_all
next
  case (5 w)
  then show ?case by (cases n) simp_all
next
  case 9
  then show ?case by (cases n) simp_all
next
  case 11
  then show ?case by (cases n) simp_all
next
  case (6 s)
  then show ?case by (cases n) (simp_all add: dec_enc_str)
next
  case (7 vs)
  then show ?case by (cases n) simp_all
next
  case (8 m)
  then show ?case by (cases n) simp_all
next
  case (10 v vs)
  then show ?case by (cases n) simp_all
next
  case (12 k v m)
  then show ?case by (cases n) (simp_all add: dec_enc_str)
qed

definition ascii :: "string \<Rightarrow> bool" where
  "ascii s \<longleftrightarrow> list_all (byte_in 0 127) s"

lemma ascii_bits [simp]: "ascii (word_text w)" "ascii (char_text c)"
  by (auto simp: ascii_def word_text_def char_text_def bits_of_def list_all_iff byte_in_def)

lemma ascii_append [simp]: "ascii (s @ t) = (ascii s \<and> ascii t)" "ascii []"
  "ascii (c # s) = (byte_in 0 127 c \<and> ascii s)"
  by (simp_all add: ascii_def)

lemma ascii_enc_str [simp]: "ascii (enc_str s)"
  by (induction s) (simp_all add: byte_in_def)

lemma ascii_enc [simp]: "ascii (enc v)" "ascii (encs vs)" "ascii (encm m)"
  by (induction v and vs and m rule: enc_encs_encm.induct) (simp_all add: byte_in_def)

lemma enc_nonempty [simp]: "enc v \<noteq> []"
  by (cases v rule: enc.cases) simp_all

subsection \<open>The functions of the dependencies\<close>

definition env_parse :: "string \<Rightarrow> string + json" where
  "env_parse s = (case dec (length s) s of
     Some (v, []) \<Rightarrow> Inr v | _ \<Rightarrow> Inl ''expected value'')"

definition env :: ext where
  "env =
     \<lparr>new_v5 = (\<lambda>ns name. of_nat (foldl (\<lambda>h c. 256 * h + of_char c) 1 (name))),
      uuid_parse = (\<lambda>s. if length s = 128 then Some (horner_sum of_bool 2 (bools s)) else None),
      uuid_to_string = (\<lambda>u. bits_of (bit u) 128),
      json_to_vec = (\<lambda>v. Inr (enc v)),
      json_to_vec_pretty = (\<lambda>v. Inr (enc v)),
      json_from_str = env_parse,
      json_from_slice = env_parse,
      metadata_value_ok = list_all (byte_in 32 126),
      status_to_string = status_message\<rparr>"

lemma env_parse_enc [simp]: "env_parse (enc v) = Inr v"
  using dec_enc(1) [of v "length (enc v)" "[]"] by (simp add: env_parse_def)

lemma env_ok: "ext_ok env"
  by (simp add: ext_ok_def json_roundtrips_def env_def horner_sum_bit_eq_take_bit take_bit_word_eq_self
      utf8_valid_ascii [folded ascii_def])

subsection \<open>An in-memory server\<close>

text \<open>
  The log of all streams, what other clients append before each of the coming calls, and the
  supply of identifiers.
\<close>

record mem_server =
  mem_log :: "(string \<times> proposed_event) list"
  mem_others :: "(string \<times> proposed_event) list list"
  mem_ids :: nat

definition capacity :: nat where
  "capacity = 2 ^ 64 - 1"

definition mem_record :: "string \<Rightarrow> nat \<Rightarrow> proposed_event \<Rightarrow> recorded_event" where
  "mem_record sid i p =
     \<lparr>re_event_id = pe_event_id p, re_stream_id = sid, re_stream_version = of_nat i,
      re_global_position = of_nat i, re_event_type = pe_event_type p,
      re_metadata = pe_metadata p, re_payload = pe_payload p, re_recorded_at = 0\<rparr>"

definition number :: "string \<Rightarrow> proposed_event list \<Rightarrow> recorded_event list" where
  "number sid ps = map (\<lambda>(i, p). mem_record sid i p) (enumerate 0 ps)"

definition mem_stream :: "mem_server \<Rightarrow> string \<Rightarrow> recorded_event list" where
  "mem_stream w sid =
     number sid (take capacity (map snd (filter (\<lambda>x. fst x = sid) (mem_log w))))"

definition mem_interfere :: "mem_server \<Rightarrow> mem_server" where
  "mem_interfere w =
     (case mem_others w of
        [] \<Rightarrow> w
      | b # bs \<Rightarrow> w\<lparr>mem_log := mem_log w @ b, mem_others := bs\<rparr>)"

definition mem_append ::
  "mem_server \<Rightarrow> grpc_metadata \<Rightarrow> append_request \<Rightarrow> (status + append_response) \<times> mem_server" where
  "mem_append w md rq =
     (let w1 = mem_interfere w; sid = ar_stream_id rq; cur = mem_stream w1 sid;
          n = length cur; k = length (ar_events rq)
      in if \<not> expectation_met (ar_expected_version rq) cur then
           (Inl (status_new GFailedPrecondition ''wrong expected version''), w1)
         else if capacity < n + k then (Inl (status_new GResourceExhausted ''stream full''), w1)
         else (Inr \<lparr>first_stream_version = of_nat n, last_stream_version = of_nat (n + k - 1),
                    first_global_position = of_nat n, last_global_position = of_nat (n + k - 1)\<rparr>,
               w1\<lparr>mem_log := mem_log w1 @ map (Pair sid) (ar_events rq)\<rparr>))"

definition mem_read ::
  "mem_server \<Rightarrow> grpc_metadata \<Rightarrow> read_stream_request \<Rightarrow> (status + recorded_event list) \<times> mem_server" where
  "mem_read w md rq =
     (let w1 = mem_interfere w; cur = mem_stream w1 (rr_stream_id rq)
      in if cur = [] then (Inl (status_new GNotFound ''stream not found''), w1)
         else (Inr (take (unat (rr_max_count rq)) (drop (unat (rr_from_version rq)) cur)), w1))"

text \<open>The subscription yields the log from the position on, then the caught-up marker, and ends.\<close>

definition mem_subscribe_all ::
  "mem_server \<Rightarrow> grpc_metadata \<Rightarrow> u64 \<Rightarrow> (status + sub_stream) \<times> mem_server" where
  "mem_subscribe_all w md from_position =
     (Inr (map (\<lambda>(i, sid, p). Inr \<lparr>content = Some (Event (mem_record sid i p))\<rparr>)
             (drop (unat from_position) (enumerate 0 (mem_log w))) @
           [Inr \<lparr>content = Some CaughtUp\<rparr>]), w)"

definition mem_rpc :: "mem_server rpc" where
  "mem_rpc =
     \<lparr>token_lock = (\<lambda>w. ''secret''), rpc_append = mem_append, rpc_read_stream = mem_read,
      rpc_subscribe_all = mem_subscribe_all\<rparr>"

definition mem_rng :: "mem_server \<Rightarrow> uuid \<times> mem_server" where
  "mem_rng w = (of_nat (mem_ids w), w\<lparr>mem_ids := Suc (mem_ids w)\<rparr>)"

definition mem_new :: "(string \<times> proposed_event) list list \<Rightarrow> mem_server" where
  "mem_new others = \<lparr>mem_log = [], mem_others = others, mem_ids = 0\<rparr>"

lemma number_append:
  "number sid (ps @ qs) = number sid ps @ map (\<lambda>(i, p). mem_record sid i p) (enumerate (length ps) qs)"
  by (simp add: number_def enumerate_append_eq)

lemma length_number [simp]: "length (number sid ps) = length ps"
  by (simp add: number_def)

lemma nth_number [simp]: "i < length ps \<Longrightarrow> number sid ps ! i = mem_record sid i (ps ! i)"
  by (simp add: number_def nth_enumerate_eq)

lemma number_prefix: "prefix ps qs \<Longrightarrow> prefix (number sid ps) (number sid qs)"
  by (auto simp: prefix_def number_append)

lemma mem_stream_versioned: "versioned (mem_stream w sid)"
  by (simp add: versioned_def mem_stream_def mem_record_def capacity_def)

lemma mem_stream_grows:
  "mem_log w' = mem_log w @ extra \<Longrightarrow> prefix (mem_stream w sid) (mem_stream w' sid)"
  unfolding mem_stream_def by (intro number_prefix) (simp add: take_is_prefix)

lemma mem_interfere_grows: "prefix (mem_stream w sid) (mem_stream (mem_interfere w) sid)"
  by (cases "mem_others w") (auto simp: mem_interfere_def intro: mem_stream_grows)

lemma mem_stream_append:
  assumes "length (mem_stream w sid) + length ps \<le> capacity"
  shows "mem_stream (w\<lparr>mem_log := mem_log w @ map (Pair sid) ps\<rparr>) sid =
    mem_stream w sid @ map (\<lambda>(i, p). mem_record sid i p) (enumerate (length (mem_stream w sid)) ps)"
proof -
  have f: "filter (\<lambda>x. fst x = sid) (map (Pair sid) ps) = map (Pair sid) ps" "snd \<circ> Pair sid = id"
    by (induction ps) auto
  let ?cur = "map snd (filter (\<lambda>x. fst x = sid) (mem_log w))"
  have "length ?cur < capacity \<or> ps = []"
    using assms by (cases ps) (auto simp: mem_stream_def min_def split: if_splits)
  with assms show ?thesis
    by (auto simp: mem_stream_def f number_append)
qed

lemma mem_append_new:
  "list_all2 (stored_as sid) ps (map (\<lambda>(i, p). mem_record sid i p) (enumerate n ps))"
  by (auto simp: list_all2_conv_all_nth nth_enumerate_eq stored_as_def mem_record_def)

lemma mem_rpc_contract: "rpc_contract mem_rpc mem_stream"
  unfolding rpc_contract_def mem_rpc_def rpc.simps
proof (intro conjI allI)
  show "versioned (mem_stream w sid)" for w sid by (rule mem_stream_versioned)
next
  fix w md and rq :: append_request
  let ?w1 = "mem_interfere w" and ?sid = "ar_stream_id rq"
  let ?cur = "mem_stream ?w1 ?sid"
  let ?w2 = "?w1\<lparr>mem_log := mem_log ?w1 @ map (Pair ?sid) (ar_events rq)\<rparr>"
  have g2: "prefix (mem_stream w s) (mem_stream ?w2 s)" for s
    by (rule prefix_order.trans [OF mem_interfere_grows]) (rule mem_stream_grows, simp)
  show "append_ok mem_stream rq w (fst (mem_append w md rq)) (snd (mem_append w md rq))"
  proof (cases "expectation_met (ar_expected_version rq) ?cur \<and> length ?cur + length (ar_events rq) \<le> capacity")
    case False
    then show ?thesis
      by (auto simp: append_ok_def mem_append_def Let_def mem_interfere_grows not_le)
  next
    case True
    let ?new = "map (\<lambda>(i, p). mem_record ?sid i p) (enumerate (length ?cur) (ar_events rq))"
    have st: "mem_stream ?w2 ?sid = ?cur @ ?new" using True by (intro mem_stream_append) simp
    have "unat (of_nat (length ?cur + length (ar_events rq) - 1) :: u64) =
        length ?cur + length (ar_events rq) - 1"
      using True by (intro unat_of_nat_u64) (auto simp: capacity_def)
    moreover have "list_all2 (stored_as ?sid) (ar_events rq) ?new" by (rule mem_append_new)
    ultimately have "\<exists>pre new. mem_stream ?w2 ?sid = pre @ new \<and> prefix (mem_stream w ?sid) pre \<and>
        list_all2 (stored_as ?sid) (ar_events rq) new \<and>
        expectation_met (ar_expected_version rq) pre \<and>
        (new \<noteq> [] \<longrightarrow> Suc (unat (of_nat (length ?cur + length (ar_events rq) - 1) :: u64)) =
           length (pre @ new))"
      using True st mem_interfere_grows [of w ?sid]
      by - (rule exI [of _ ?cur], rule exI [of _ ?new], cases "ar_events rq", auto)
    with True g2 show ?thesis by (simp add: append_ok_def mem_append_def Let_def)
  qed
next
  fix w md and rq :: read_stream_request
  show "read_ok mem_stream rq w (fst (mem_read w md rq)) (snd (mem_read w md rq))"
    by (auto simp: read_ok_def mem_read_def Let_def status_new_def mem_interfere_grows)
qed

end
