(* ===== verification/Data_Properties.thy ===== *)
theory Data_Properties
  imports Snapshot Reference_Env
begin

text \<open>
  The properties of the data the crate writes and reads back: events and their metadata,
  stream identifiers, command contexts, the authorization header, snapshots, and the client
  against the contract of the server.
\<close>

subsection \<open>Events\<close>

lemma metadata_of_context_simps [simp]:
  "md_aggregate_type (metadata_of_context ctx ty i) = ty"
  "md_instance_id (metadata_of_context ctx ty i) = i"
  "md_correlation_id (metadata_of_context ctx ty i) = ctx_correlation_id ctx"
  "md_actor (metadata_of_context ctx ty i) = ctx_actor ctx"
  "md_source_device (metadata_of_context ctx ty i) = ctx_source_device ctx"
  by (simp_all add: metadata_of_context_def)




subsection \<open>Stream identifiers\<close>

text \<open>
  The name a stream identifier is derived from determines the aggregate type and the
  instance id, when no aggregate type contains a slash.
\<close>

theorem stream_name_injective:
  assumes "stream_name t i = stream_name t' i'" and "CHR ''/'' \<notin> set t" and "CHR ''/'' \<notin> set t'"
  shows "t = t' \<and> i = i'"
  using assms by (rule stream_name_inj)

theorem stream_name_injective_witness: "''counter'' = ''counter'' \<and> ''a/b'' = ''a/b''"
  by (rule stream_name_injective [where i = "''a/b''" and i' = "''a/b''"]) simp_all

text \<open>
  With a slash in an aggregate type, different instances share a stream identifier,
  whatever the hash.
\<close>

theorem stream_uuid_collision:
  "stream_uuid E t (u @ ''/'' @ i) = stream_uuid E (t @ ''/'' @ u) i"
  by (simp add: stream_uuid_def stream_name_def)

subsection \<open>Commands\<close>

text \<open>
  C38. A command envelope reads back from its serialised form, as long as its context does not
  carry an explicit \<open>null\<close> as metadata (which reads back as none).
\<close>

theorem envelope_roundtrip:
  assumes "context_canonical (env_context e)"
  shows "envelope_from_value (envelope_to_value e) = Some e"
  using context_roundtrip_canonical [OF assms]
  by (simp add: envelope_from_value_def envelope_to_value_def as_object_json_object)

theorem envelope_roundtrip_witness:
  "\<exists>e. envelope_from_value (envelope_to_value e) = Some e \<and> env_instance_id e = ''i''"
  using envelope_roundtrip [of "\<lparr>env_aggregate_type = ''t'', env_instance_id = ''i'', env_command = JBool True,
      env_context = with_correlation_id ''x'' command_context_default\<rparr>"]
  by (intro exI [of _ "\<lparr>env_aggregate_type = ''t'', env_instance_id = ''i'', env_command = JBool True,
      env_context = with_correlation_id ''x'' command_context_default\<rparr>"])
    (simp add: context_canonical_def with_correlation_id_def command_context_default_def)

subsection \<open>The client\<close>

text \<open>
  C33. The gRPC client turns the server's contract at the wire into the contract of
  \<open>EventStoreOps\<close>: expected versions become preconditions on the stream length, proposed events
  arrive as one block in order, reads return the requested slice and an unknown stream is empty.
\<close>

theorem client_refines_contract:
  assumes "rpc_contract R strm"
  shows "store_contract E (es_client_ops E R c) sid (\<lambda>w. strm w (uuid_to_string E sid))"
  using assms by (rule es_client_contract)

theorem client_refines_contract_witness:
  "store_contract env (es_client_ops env mem_rpc Auth) 9 (\<lambda>w. mem_stream w (uuid_to_string env 9))"
  by (rule client_refines_contract [OF mem_rpc_contract])

text \<open>
  The interceptor adds the authorization header exactly when the token is non-empty, with
  the current token, and touches no other entry of the metadata; it refuses only tokens that
  are no legal header value.
\<close>

theorem bearer_header:
  "case bearer_call E (Some token) req of
     Inr req' \<Rightarrow> \<forall>k. map_of req' k =
       (if k = ''authorization'' \<and> token \<noteq> [] then Some (''Bearer '' @ token) else map_of req k)
   | Inl f \<Rightarrow> token \<noteq> [] \<and> \<not> metadata_value_ok E (''Bearer '' @ token) \<and>
       f = Raised (status_new GInternal ''invalid token characters'')"
  by (auto simp: bearer_call_def Let_def)

subsection \<open>Snapshots\<close>

text \<open>
  After a save, a load yields the saved snapshot if the save reported success, and what it
  yielded before otherwise; no other file changes but the temporary one.
\<close>

theorem snapshot_save_load:
  assumes "save_snapshot E A base i sn F = (r, F')" and "snapshot_good E A sn"
    and "io_fails F OpRead (snapshot_path base (AGGREGATE_TYPE A) i) = None"
  shows "load_snapshot E A base i F' =
      (case r of Inr _ \<Rightarrow> Inr (Some sn) | Inl _ \<Rightarrow> load_snapshot E A base i F) \<and>
    (\<forall>p. p \<noteq> snapshot_path base (AGGREGATE_TYPE A) i \<longrightarrow>
       p \<noteq> with_extension ''json.tmp'' (snapshot_path base (AGGREGATE_TYPE A) i) \<longrightarrow>
       files F' p = files F p)"
  using snapshot_file.save_atomic [OF assms] snapshot_file.save_frame [OF assms(1)] by blast

definition blank_disk :: fs where
  "blank_disk = \<lparr>files = Map.empty, dirs = (\<lambda>_. False), io_fails = (\<lambda>_ _. None), torn = (\<lambda>_. None)\<rparr>"

theorem snapshot_save_load_witness:
  "let sn = \<lparr>snap_state = \<lparr>counter_value = 2\<rparr>, snap_stream_version = 1\<rparr>; base = path_of ''/d'';
       F' = snd (save_snapshot env Counter base ''c1'' sn blank_disk)
   in load_snapshot env Counter base ''c1'' F' = Inr (Some sn) \<or>
      load_snapshot env Counter base ''c1'' F' = load_snapshot env Counter base ''c1'' blank_disk"
proof -
  let ?sn = "\<lparr>snap_state = \<lparr>counter_value = 2\<rparr>, snap_stream_version = 1\<rparr>"
  obtain r F' where s: "save_snapshot env Counter (path_of ''/d'') ''c1'' ?sn blank_disk = (r, F')" by fastforce
  from snapshot_save_load [OF s counter_snapshot_good [OF env_ok]] s show ?thesis
    by (cases r) (auto simp: Let_def blank_disk_def)
qed




text \<open>
  Aggregates whose types and ids are single path components have different snapshot files,
  all of them inside the base directory.
\<close>

theorem snapshot_paths_distinct:
  assumes "simple_name t" and "simple_name i" and "simple_name t'" and "simple_name i'"
  shows "(snapshot_path base t i = snapshot_path base t' i' \<longleftrightarrow> t = t' \<and> i = i') \<and>
    prefix (comps base) (comps (snapshot_path base t i))"
  using assms by (cases base) (auto simp: snapshot_path_simple)

theorem snapshot_paths_distinct_witness:
  "snapshot_path (path_of ''/d'') ''counter'' ''a'' \<noteq> snapshot_path (path_of ''/d'') ''counter'' ''b''"
  using snapshot_paths_distinct [of "''counter''" "''a''" "''counter''" "''b''" "path_of ''/d''"]
  by (simp add: simple_name_def)

text \<open>
  Other names share a snapshot file: an instance id with a trailing slash, or a slash moved
  between type and id; and an absolute instance id leaves the base directory.
\<close>

theorem snapshot_path_collisions:
  "snapshot_path base t ''x/'' = snapshot_path base t ''x'' \<and>
   snapshot_path base ''a'' ''b/c'' = snapshot_path base ''a/b'' ''c'' \<and>
   snapshot_path base t ''/etc'' = path_of ''/etc/snapshot.json''"
  by (simp add: snapshot_path_def path_join_def path_of_def Let_def)

end
