(* ===== verification/Actor.thy ===== *)
theory Actor
  imports Event_Store Snapshot
begin

text \<open>
  \<^verbatim>\<open>src/actor.rs\<close>: the actor that owns one aggregate. Its local variables (the store it talks
  to, the aggregate state, the stream version) and the disk are a record; the operations are
  the command with its optimistic retries, the injection, the loop over its mailbox, the
  snapshot on shutdown, and the spawn from snapshot and catch-up read.
\<close>

definition MAX_RETRIES :: nat where
  "MAX_RETRIES = 3"

text \<open>\<^verbatim>\<open>src/error.rs\<close>.\<close>

datatype 'err execute_error =
    Domain 'err | WrongExpectedVersion | Io io_error | Transport status | ActorGone

datatype state_error = StateIo io_error | StateTransport status | StateActorGone

subsection \<open>Decoding and folding\<close>

definition decode_domain_event ::
  "ext \<Rightarrow> ('a, 'c, 'e, 'err) aggregate \<Rightarrow> recorded_event \<Rightarrow> 'e option" where
  "decode_domain_event E A recorded =
     do { payload_str \<leftarrow> from_utf8 (re_payload recorded);
          payload_value \<leftarrow> (if payload_str = [] then Some JNull
                            else ok (json_from_str E payload_str));
          let envelope = (if is_null payload_value
                then json_object [(''type'', JString (re_event_type recorded))]
                else json_object [(''type'', JString (re_event_type recorded)),
                                  (''data'', payload_value)]);
          ok (event_from_value A envelope) }"

text \<open>\<open>stream_version.map_or(0, |v| v + 1)\<close>: where the next read starts.\<close>

definition next_from :: "u64 option \<Rightarrow> u64" where
  "next_from v = (case v of None \<Rightarrow> 0 | Some n \<Rightarrow> n + 1)"

fun fold_recorded ::
  "ext \<Rightarrow> ('a, 'c, 'e, 'err) aggregate \<Rightarrow> recorded_event list \<Rightarrow> 'a \<times> u64 option \<Rightarrow> 'a \<times> u64 option" where
  "fold_recorded E A [] (x, v) = (x, v)"
| "fold_recorded E A (ev # evs) (x, v) =
     fold_recorded E A evs
       (case decode_domain_event E A ev of Some d \<Rightarrow> apply_event A x d | None \<Rightarrow> x,
        Some (re_stream_version ev))"

subsection \<open>Executing a command\<close>

record ('s, 'a) actor_state =
  store :: 's
  agg_state :: 'a
  stream_version :: "u64 option"
  disk :: fs

record actor_context =
  stream_id :: uuid
  instance_id :: string
  base_dir :: path

text \<open>\<open>for attempt in 0..MAX_RETRIES\<close>: the argument is the number of attempts left.\<close>

fun execute_attempts ::
  "ext \<Rightarrow> ('a, 'c, 'e, 'err) aggregate \<Rightarrow> 's event_store_ops \<Rightarrow> ('s \<Rightarrow> uuid \<times> 's) \<Rightarrow> actor_context
    \<Rightarrow> 'c \<Rightarrow> command_context \<Rightarrow> nat \<Rightarrow> ('s, 'a) actor_state
    \<Rightarrow> ('err execute_error fault + 'e list) \<times> ('s, 'a) actor_state" where
  "execute_attempts E A S rng K cmd ctx 0 st = (Inl (Raised WrongExpectedVersion), st)"
| "execute_attempts E A S rng K cmd ctx (Suc n) st =
     (case handle A (agg_state st) cmd of
        Inl e \<Rightarrow> (Inl (Raised (Domain e)), st)
      | Inr domain_events \<Rightarrow>
          if domain_events = [] then (Inr [], st)
          else
            (case collect_results
                    (\<lambda>de. encode_domain_event A rng de ctx (AGGREGATE_TYPE A) (instance_id K))
                    domain_events (store st) of
               (Inl (Raised m), s1) \<Rightarrow>
                 (Inl (Raised (Io (io_error_new InvalidData m))), st\<lparr>store := s1\<rparr>)
             | (Inl (Panicked m), s1) \<Rightarrow> (Inl (Panicked m), st\<lparr>store := s1\<rparr>)
             | (Inr proposed, s1) \<Rightarrow>
                 (let expected = (case stream_version st of Some v \<Rightarrow> Exact v | None \<Rightarrow> NoStream)
                  in case append_op S (stream_id K) expected proposed s1 of
                       (Inr resp, s2) \<Rightarrow>
                         (Inr domain_events,
                          st\<lparr>store := s2,
                             agg_state := foldl (apply_event A) (agg_state st) domain_events,
                             stream_version := Some (last_stream_version resp)\<rparr>)
                     | (Inl status, s2) \<Rightarrow>
                         if code status = GFailedPrecondition then
                           (case read_stream_op S (stream_id K) (next_from (stream_version st))
                                   u64_MAX s2 of
                              (Inl status', s3) \<Rightarrow>
                                (Inl (Raised (Transport status')), st\<lparr>store := s3\<rparr>)
                            | (Inr events, s3) \<Rightarrow>
                                (let (x, v) = fold_recorded E A events
                                       (agg_state st, stream_version st)
                                 in execute_attempts E A S rng K cmd ctx n
                                      (st\<lparr>store := s3, agg_state := x, stream_version := v\<rparr>)))
                         else (Inl (Raised (Transport status)), st\<lparr>store := s2\<rparr>))))"

definition execute_with_retry ::
  "ext \<Rightarrow> ('a, 'c, 'e, 'err) aggregate \<Rightarrow> 's event_store_ops \<Rightarrow> ('s \<Rightarrow> uuid \<times> 's) \<Rightarrow> actor_context
    \<Rightarrow> 'c \<Rightarrow> command_context \<Rightarrow> ('s, 'a) actor_state
    \<Rightarrow> ('err execute_error fault + 'e list) \<times> ('s, 'a) actor_state" where
  "execute_with_retry E A S rng K cmd ctx st = execute_attempts E A S rng K cmd ctx MAX_RETRIES st"

text \<open>The \<open>Inject\<close> message: append with \<open>Any\<close>, then read what is new; a failed read is ignored.\<close>

definition inject_step ::
  "ext \<Rightarrow> ('a, 'c, 'e, 'err) aggregate \<Rightarrow> 's event_store_ops \<Rightarrow> actor_context \<Rightarrow> proposed_event_data
    \<Rightarrow> ('s, 'a) actor_state \<Rightarrow> (status + unit) \<times> ('s, 'a) actor_state" where
  "inject_step E A S K proposed st =
     (case append_op S (stream_id K) Any [proposed] (store st) of
        (Inl status, s1) \<Rightarrow> (Inl status, st\<lparr>store := s1\<rparr>)
      | (Inr _, s1) \<Rightarrow>
          (case read_stream_op S (stream_id K) (next_from (stream_version st)) u64_MAX s1 of
             (Inl _, s2) \<Rightarrow> (Inr (), st\<lparr>store := s2\<rparr>)
           | (Inr events, s2) \<Rightarrow>
               (let (x, v) = fold_recorded E A events (agg_state st, stream_version st)
                in (Inr (), st\<lparr>store := s2, agg_state := x, stream_version := v\<rparr>))))"

subsection \<open>The loop\<close>

datatype ('c) actor_message =
    Execute 'c command_context
  | GetState
  | Inject proposed_event_data
  | Shutdown

text \<open>What \<open>timeout(idle_timeout, rx.recv())\<close> yields: a message, a closed channel, the timeout.\<close>

datatype 'm received = Message 'm | Closed | Elapsed

text \<open>The answers sent on the reply channels, in the order they are sent.\<close>

datatype ('a, 'e, 'err) reply =
    ExecuteReply "'err execute_error + 'e list"
  | StateReply "state_error + 'a"
  | InjectReply "status + unit"

datatype loop_status = Running | Exited | Crashed string

definition save_snapshot_quietly ::
  "ext \<Rightarrow> ('a, 'c, 'e, 'err) aggregate \<Rightarrow> path \<Rightarrow> string \<Rightarrow> 'a \<Rightarrow> u64 \<Rightarrow> fs \<Rightarrow> fs" where
  "save_snapshot_quietly E A base i x v F =
     snd (save_snapshot E A base i \<lparr>snap_state = x, snap_stream_version = v\<rparr> F)"

definition unwrap_or :: "'a \<Rightarrow> 'a option \<Rightarrow> 'a" where
  "unwrap_or d x = (case x of None \<Rightarrow> d | Some y \<Rightarrow> y)"

definition save_on_exit ::
  "ext \<Rightarrow> ('a, 'c, 'e, 'err) aggregate \<Rightarrow> actor_context \<Rightarrow> ('s, 'a) actor_state \<Rightarrow> ('s, 'a) actor_state" where
  "save_on_exit E A K st =
     st\<lparr>disk := save_snapshot_quietly E A (base_dir K) (instance_id K) (agg_state st)
          (unwrap_or 0 (stream_version st)) (disk st)\<rparr>"

fun actor_step ::
  "ext \<Rightarrow> ('a, 'c, 'e, 'err) aggregate \<Rightarrow> 's event_store_ops \<Rightarrow> ('s \<Rightarrow> uuid \<times> 's) \<Rightarrow> actor_context
    \<Rightarrow> 'c actor_message received \<Rightarrow> ('s, 'a) actor_state
    \<Rightarrow> ('a, 'e, 'err) reply option \<times> loop_status \<times> ('s, 'a) actor_state" where
  "actor_step E A S rng K (Message (Execute cmd ctx)) st =
     (case execute_with_retry E A S rng K cmd ctx st of
        (Inr es, st') \<Rightarrow> (Some (ExecuteReply (Inr es)), Running, st')
      | (Inl (Raised e), st') \<Rightarrow> (Some (ExecuteReply (Inl e)), Running, st')
      | (Inl (Panicked m), st') \<Rightarrow> (None, Crashed m, st'))"
| "actor_step E A S rng K (Message GetState) st =
     (Some (StateReply (Inr (agg_state st))), Running, st)"
| "actor_step E A S rng K (Message (Inject proposed)) st =
     (case inject_step E A S K proposed st of
        (r, st') \<Rightarrow> (Some (InjectReply r), Running, st'))"
| "actor_step E A S rng K (Message Shutdown) st = (None, Exited, save_on_exit E A K st)"
| "actor_step E A S rng K Closed st = (None, Exited, save_on_exit E A K st)"
| "actor_step E A S rng K Elapsed st = (None, Exited, save_on_exit E A K st)"

fun run_actor ::
  "ext \<Rightarrow> ('a, 'c, 'e, 'err) aggregate \<Rightarrow> 's event_store_ops \<Rightarrow> ('s \<Rightarrow> uuid \<times> 's) \<Rightarrow> actor_context
    \<Rightarrow> 'c actor_message received list \<Rightarrow> ('s, 'a) actor_state
    \<Rightarrow> ('a, 'e, 'err) reply list \<times> loop_status \<times> ('s, 'a) actor_state" where
  "run_actor E A S rng K [] st = ([], Running, st)"
| "run_actor E A S rng K (m # ms) st =
     (case actor_step E A S rng K m st of
        (rep, Running, st') \<Rightarrow>
          (case run_actor E A S rng K ms st' of
             (reps, status, st'') \<Rightarrow> (case rep of None \<Rightarrow> reps | Some r \<Rightarrow> r # reps, status, st''))
      | (rep, status, st') \<Rightarrow> (case rep of None \<Rightarrow> [] | Some r \<Rightarrow> [r], status, st'))"

subsection \<open>Spawning\<close>

definition spawn_state ::
  "ext \<Rightarrow> ('a, 'c, 'e, 'err) aggregate \<Rightarrow> 's event_store_ops \<Rightarrow> path \<Rightarrow> string \<Rightarrow> 's \<Rightarrow> fs
    \<Rightarrow> (status + actor_context \<times> ('s, 'a) actor_state) \<times> 's" where
  "spawn_state E A S base i s F =
     (let sid = stream_uuid E (AGGREGATE_TYPE A) i
      in case load_snapshot E A base i F of
           Inl e \<Rightarrow> (Inl (status_new GInternal (''snapshot load error: '' @ message e)), s)
         | Inr snapshot \<Rightarrow>
             (let (x, version, from_version) =
                (case snapshot of
                   Some snap \<Rightarrow> (snap_state snap, Some (snap_stream_version snap),
                                snap_stream_version snap + 1)
                 | None \<Rightarrow> (agg_default A, None, 0))
              in case read_stream_op S sid from_version u64_MAX s of
                   (Inl status, s1) \<Rightarrow> (Inl status, s1)
                 | (Inr events, s1) \<Rightarrow>
                     (let (x', version') = fold_recorded E A events (x, version)
                      in (Inr (\<lparr>stream_id = sid, instance_id = i, base_dir = base\<rparr>,
                               \<lparr>store = s1, agg_state = x', stream_version = version',
                                disk = F\<rparr>), s1))))"

subsection \<open>The handle\<close>

text \<open>
  A call on a handle as its caller sees it: \<open>sent\<close> is whether the channel took the message,
  \<open>answer\<close> what the reply channel delivered, \<open>None\<close> when the actor dropped it.
\<close>

definition handle_execute ::
  "bool \<Rightarrow> ('err execute_error + 'e list) option \<Rightarrow> 'err execute_error + 'e list" where
  "handle_execute sent answer =
     (if \<not> sent then Inl ActorGone else case answer of None \<Rightarrow> Inl ActorGone | Some r \<Rightarrow> r)"

definition handle_state :: "bool \<Rightarrow> (state_error + 'a) option \<Rightarrow> state_error + 'a" where
  "handle_state sent answer =
     (if \<not> sent then Inl StateActorGone
      else case answer of None \<Rightarrow> Inl StateActorGone | Some r \<Rightarrow> r)"

definition inject_via_actor :: "bool \<Rightarrow> (status + unit) option \<Rightarrow> status + unit" where
  "inject_via_actor sent answer =
     (if \<not> sent then Inl (status_new GCancelled ''actor gone'')
      else case answer of None \<Rightarrow> Inl (status_new GCancelled ''actor gone'') | Some r \<Rightarrow> r)"

end
