(* ===== verification/Actor_Correct.thy ===== *)
theory Actor_Correct
  imports Actor
begin

text \<open>
  The correctness of the actor against the contract of the event store: the local state is the
  fold of a prefix of the stream, a successful command was decided on the whole stream before
  its own events, and no outcome leaves the actor with a state that is no prefix of the stream.
\<close>

subsection \<open>The abstraction: a prefix of the stream\<close>

definition domain_events ::
  "ext \<Rightarrow> ('a, 'c, 'e, 'err) aggregate \<Rightarrow> recorded_event list \<Rightarrow> 'e list" where
  "domain_events E A es = List.map_filter (decode_domain_event E A) es"

definition synced ::
  "ext \<Rightarrow> ('a, 'c, 'e, 'err) aggregate \<Rightarrow> recorded_event list \<Rightarrow> ('s, 'a) actor_state \<Rightarrow> bool" where
  "synced E A es st \<longleftrightarrow>
     agg_state st = replay A (domain_events E A es) \<and>
     stream_version st = (if es = [] then None else Some (of_nat (length es - 1)))"

definition actor_inv ::
  "ext \<Rightarrow> ('a, 'c, 'e, 'err) aggregate \<Rightarrow> ('s \<Rightarrow> recorded_event list) \<Rightarrow> ('s, 'a) actor_state \<Rightarrow> bool" where
  "actor_inv E A strm st \<longleftrightarrow> (\<exists>es. prefix es (strm (store st)) \<and> synced E A es st)"

text \<open>
  The setting of the theorems: the dependencies behave as documented, the aggregate follows
  the serialisation convention, the store keeps its contract for the actor's stream, and
  drawing an identifier leaves the stream alone.
\<close>

definition actor_setting ::
  "ext \<Rightarrow> ('a, 'c, 'e, 'err) aggregate \<Rightarrow> 's event_store_ops \<Rightarrow> ('s \<Rightarrow> uuid \<times> 's) \<Rightarrow> actor_context
    \<Rightarrow> ('s \<Rightarrow> recorded_event list) \<Rightarrow> bool" where
  "actor_setting E A S rng K strm \<longleftrightarrow>
     ext_ok E \<and> adjacently_tagged A \<and> store_contract E S (stream_id K) strm \<and>
     (\<forall>s. strm (snd (rng s)) = strm s)"

lemma actor_settingD:
  assumes "actor_setting E A S rng K strm"
  shows "ext_ok E" "adjacently_tagged A" "store_contract E S (stream_id K) strm"
    "strm (snd (rng s)) = strm s"
  using assms by (auto simp: actor_setting_def)

lemma domain_events_simps [simp]:
  "domain_events E A [] = []"
  "domain_events E A (es @ fs) = domain_events E A es @ domain_events E A fs"
  by (simp_all add: domain_events_def List.map_filter_def)

lemma domain_events_Cons [simp]:
  "domain_events E A (r # es) =
     (case decode_domain_event E A r of None \<Rightarrow> domain_events E A es
      | Some d \<Rightarrow> d # domain_events E A es)"
  by (simp add: domain_events_def List.map_filter_def split: option.splits)

lemma synced_store [simp]: "synced E A es (st\<lparr>store := s\<rparr>) = synced E A es st"
  by (simp add: synced_def)

lemma versioned_prefix:
  assumes "versioned es" and "prefix fs es"
  shows "versioned fs"
proof -
  obtain gs where es: "es = fs @ gs" using assms(2) by (auto simp: prefix_def)
  have "re_stream_version (fs ! i) = of_nat i" if "i < length fs" for i
  proof -
    have "re_stream_version (es ! i) = of_nat i" using assms(1) that es by (auto simp: versioned_def)
    with that es show ?thesis by (simp add: nth_append)
  qed
  with assms(1) es show ?thesis by (simp add: versioned_def)
qed

subsection \<open>Catching up\<close>

lemma fold_recorded_synced:
  assumes "synced E A es st" and "versioned (es @ new)"
    and "fold_recorded E A new (agg_state st, stream_version st) = (x, v)"
  shows "synced E A (es @ new) (st\<lparr>agg_state := x, stream_version := v\<rparr>)"
  using assms
proof (induction new arbitrary: es st)
  case Nil
  then show ?case by (simp add: synced_def)
next
  case (Cons ev evs)
  let ?x = "case decode_domain_event E A ev of Some d \<Rightarrow> apply_event A (agg_state st) d | None \<Rightarrow> agg_state st"
  let ?st = "st\<lparr>agg_state := ?x, stream_version := Some (re_stream_version ev)\<rparr>"
  have "re_stream_version ((es @ ev # evs) ! length es) = of_nat (length es)"
    using Cons.prems(2) by (simp add: versioned_def del: nth_append_length)
  then have "re_stream_version ev = of_nat (length es)" by simp
  with Cons.prems(1) have "synced E A (es @ [ev]) ?st"
    by (auto simp: synced_def replay_append split: option.splits)
  then have "synced E A ((es @ [ev]) @ evs) (?st\<lparr>agg_state := x, stream_version := v\<rparr>)"
    by (rule Cons.IH) (use Cons.prems in simp_all)
  then show ?case by simp
qed

lemma next_from_synced:
  assumes "synced E A es st" and "length es < 2 ^ 64"
  shows "unat (next_from (stream_version st)) = length es"
proof (cases "es = []")
  case True
  with assms(1) show ?thesis by (simp add: synced_def next_from_def)
next
  case False
  then have "(of_nat (length es - 1) :: u64) + 1 = of_nat (length es)"
    by (cases es) simp_all
  with False assms show ?thesis by (simp add: synced_def next_from_def unat_of_nat_u64)
qed

text \<open>One read to the end of the stream brings a synced actor to the whole of it.\<close>

lemma catch_up_synced:
  assumes "store_contract E S sid strm"
    and "synced E A es st" and "prefix es (strm s)"
    and "read_stream_op S sid (next_from (stream_version st)) u64_MAX s = (Inr events, s')"
    and "fold_recorded E A events (agg_state st, stream_version st) = (x, v)"
  shows "prefix (strm s) (strm s')"
    and "synced E A (strm s') (st\<lparr>store := s', agg_state := x, stream_version := v\<rparr>)"
proof -
  show grows: "prefix (strm s) (strm s')" using assms(1,4) by (rule store_contract_grows)
  have ver: "versioned (strm s')" using assms(1) by (rule store_contract_versioned)
  have pre: "prefix es (strm s')" using assms(3) grows by (rule prefix_order.trans)
  have len: "length (strm s') < 2 ^ 64" using ver by (simp add: versioned_def)
  moreover have "length es \<le> length (strm s')" using pre by (rule prefix_length_le)
  ultimately have "unat (next_from (stream_version st)) = length es"
    using assms(2) by (intro next_from_synced) auto
  with store_contract_read [OF assms(1,4)] len have "events = drop (length es) (strm s')"
    by (simp add: unat_u64_MAX)
  with pre have split: "strm s' = es @ events" by (auto simp: prefix_def)
  with ver have "versioned (es @ events)" by simp
  from fold_recorded_synced [OF assms(2) this assms(5)] split
  show "synced E A (strm s') (st\<lparr>store := s', agg_state := x, stream_version := v\<rparr>)"
    by (simp add: synced_def)
qed

subsection \<open>Appending\<close>

lemma decode_carried_domain_event:
  assumes "ext_ok E" and "carries E sid p r" and "json_wf (pd_payload p)"
    and "event_from_value A (tagged_value (pd_event_type p) (pd_payload p)) = Inr e"
  shows "decode_domain_event E A r = Some e"
proof -
  obtain bs where "json_to_vec E (pd_payload p) = Inr bs" "bs \<noteq> []" "utf8_valid bs"
    "json_from_str E bs = Inr (pd_payload p)"
    using assms(1,3) by (rule ext_ok_json)
  with assms(2,4) show ?thesis
    by (auto simp: decode_domain_event_def carries_def to_proto_event_def from_utf8_def
        tagged_value_def Let_def split: if_splits)
qed

abbreviation encodes ::
  "('a, 'c, 'e, 'err) aggregate \<Rightarrow> 'e \<Rightarrow> proposed_event_data \<Rightarrow> bool" where
  "encodes A e p \<equiv> json_wf (pd_payload p) \<and>
     event_from_value A (tagged_value (pd_event_type p) (pd_payload p)) = Inr e"

lemma domain_events_carried:
  assumes "ext_ok E" and "list_all2 (encodes A) des ps" and "list_all2 (carries E sid) ps new"
  shows "domain_events E A new = des \<and> length new = length des"
  using assms(2,3)
proof (induction des ps arbitrary: new rule: list_all2_induct)
  case Nil
  then show ?case by simp
next
  case (Cons e des p ps)
  from Cons.prems obtain r new' where new: "new = r # new'" "carries E sid p r"
    "list_all2 (carries E sid) ps new'"
    by (auto simp: list_all2_Cons1)
  from assms(1) new(2) Cons.hyps(1) have "decode_domain_event E A r = Some e"
    by (intro decode_carried_domain_event) auto
  with new Cons.IH [OF new(3)] show ?case by simp
qed

lemma encode_all:
  assumes "adjacently_tagged A" and "\<And>s. strm (snd (rng s)) = strm s"
  shows "\<exists>ps s'. collect_results (\<lambda>de. encode_domain_event A rng de ctx ty i) des s = (Inr ps, s') \<and>
    list_all2 (encodes A) des ps \<and> strm s' = strm s"
proof -
  let ?f = "\<lambda>de. encode_domain_event A rng de ctx ty i"
  have "\<exists>p s'. ?f e s = (Inr p, s')" for e s
    using adjacently_tagged.encode_total [OF assms(1)] by metis
  then obtain ps s' where c: "collect_results ?f des s = (Inr ps, s')"
    using collect_results_total by metis
  moreover have "list_all2 (encodes A) des ps"
    using c by (rule collect_results_Inr) (auto dest: adjacently_tagged.encode_Inr [OF assms(1)])
  moreover have "strm s' = strm s"
  proof -
    have step: "strm (snd (?f e s)) = strm s" for e s
      using adjacently_tagged.encode_total [OF assms(1), of rng e ctx ty i s] assms(2) [of s]
      by (metis snd_conv)
    have "strm s = strm (snd (collect_results ?f des s))"
      by (rule collect_results_state [where R = "\<lambda>a b. strm a = strm b"]) (simp_all add: step)
    with c show ?thesis by simp
  qed
  ultimately show ?thesis by blast
qed

text \<open>
  A successful append under the expectation an actor derives from its version meets the very
  prefix the actor has seen.
\<close>

lemma append_meets_prefix:
  assumes "synced E A es st" and "prefix es pre" and "length es < 2 ^ 64"
    and "expectation_holds (case stream_version st of Some v \<Rightarrow> Exact v | None \<Rightarrow> NoStream) pre"
  shows "pre = es"
proof (cases "es = []")
  case True
  with assms show ?thesis by (simp add: synced_def)
next
  case False
  then have "unat (of_nat (length es - 1) :: u64) = length es - 1"
    using assms(3) by (intro unat_of_nat_u64) simp
  with False assms(1,4) have "length pre = length es" by (simp add: synced_def)
  with assms(2) show ?thesis by (auto simp: prefix_def)
qed

subsection \<open>One attempt\<close>

definition expected_of :: "u64 option \<Rightarrow> expected_version_arg" where
  "expected_of v = (case v of Some n \<Rightarrow> Exact n | None \<Rightarrow> NoStream)"

text \<open>The outcomes of an attempt when encoding cannot fail.\<close>

lemma execute_attempt_cases:
  assumes "adjacently_tagged A" and "\<And>s. strm (snd (rng s)) = strm s"
    and "execute_attempts E A S rng K cmd ctx (Suc n) st = (r, st')"
  obtains
    (rejected) e where "handle A (agg_state st) cmd = Inl e" "r = Inl (Raised (Domain e))" "st' = st"
  | (noop) "handle A (agg_state st) cmd = Inr []" "r = Inr []" "st' = st"
  | (appended) des ps s1 resp s2 where "handle A (agg_state st) cmd = Inr des" "des \<noteq> []"
      "list_all2 (encodes A) des ps" "strm s1 = strm (store st)"
      "append_op S (stream_id K) (expected_of (stream_version st)) ps s1 = (Inr resp, s2)"
      "r = Inr des"
      "st' = st\<lparr>store := s2, agg_state := foldl (apply_event A) (agg_state st) des,
               stream_version := Some (last_stream_version resp)\<rparr>"
  | (failed) des ps s1 status s2 where "handle A (agg_state st) cmd = Inr des" "des \<noteq> []"
      "strm s1 = strm (store st)"
      "append_op S (stream_id K) (expected_of (stream_version st)) ps s1 = (Inl status, s2)"
      "code status \<noteq> GFailedPrecondition"
      "r = Inl (Raised (Transport status))" "st' = st\<lparr>store := s2\<rparr>"
  | (unread) des ps s1 status s2 status' s3 where "handle A (agg_state st) cmd = Inr des" "des \<noteq> []"
      "strm s1 = strm (store st)"
      "append_op S (stream_id K) (expected_of (stream_version st)) ps s1 = (Inl status, s2)"
      "code status = GFailedPrecondition"
      "read_stream_op S (stream_id K) (next_from (stream_version st)) u64_MAX s2 = (Inl status', s3)"
      "r = Inl (Raised (Transport status'))" "st' = st\<lparr>store := s3\<rparr>"
  | (retried) des ps s1 status s2 events s3 x v where "handle A (agg_state st) cmd = Inr des" "des \<noteq> []"
      "strm s1 = strm (store st)"
      "append_op S (stream_id K) (expected_of (stream_version st)) ps s1 = (Inl status, s2)"
      "code status = GFailedPrecondition"
      "read_stream_op S (stream_id K) (next_from (stream_version st)) u64_MAX s2 = (Inr events, s3)"
      "fold_recorded E A events (agg_state st, stream_version st) = (x, v)"
      "execute_attempts E A S rng K cmd ctx n
         (st\<lparr>store := s3, agg_state := x, stream_version := v\<rparr>) = (r, st')"
proof (cases "handle A (agg_state st) cmd")
  case (Inl e)
  with assms(3) show thesis by (auto intro: rejected)
next
  case (Inr des)
  show thesis
  proof (cases "des = []")
    case True
    with Inr assms(3) show thesis by (auto intro: noop)
  next
    case False
    obtain ps s1 where enc: "collect_results
        (\<lambda>de. encode_domain_event A rng de ctx (AGGREGATE_TYPE A) (instance_id K)) des (store st)
        = (Inr ps, s1)" "list_all2 (encodes A) des ps" "strm s1 = strm (store st)"
      using encode_all [where strm = strm and rng = rng, OF assms(1,2)] by blast
    obtain q s2 where app:
      "append_op S (stream_id K) (expected_of (stream_version st)) ps s1 = (q, s2)" by fastforce
    obtain q' s3 where rd:
      "read_stream_op S (stream_id K) (next_from (stream_version st)) u64_MAX s2 = (q', s3)" by fastforce
    obtain x v where fo: "fold_recorded E A (case q' of Inr es \<Rightarrow> es | Inl _ \<Rightarrow> [])
        (agg_state st, stream_version st) = (x, v)" by fastforce
    note eq = assms(3) Inr False enc(1) app [unfolded expected_of_def]
    show thesis
    proof (cases q)
      case (Inr resp)
      with eq enc app \<open>handle A (agg_state st) cmd = Inr des\<close> show thesis
        by (intro appended [of des ps s1 resp s2]) auto
    next
      case (Inl status)
      show thesis
      proof (cases "code status = GFailedPrecondition")
        case True
        with Inl eq enc app rd fo \<open>handle A (agg_state st) cmd = Inr des\<close> show thesis
          by (cases q') (auto intro: unread [of des s1 ps] retried [of des s1 ps])
      next
        case other: False
        with Inl eq enc app \<open>handle A (agg_state st) cmd = Inr des\<close> show thesis
          by (intro failed [of des s1 ps status s2]) auto
      qed
    qed
  qed
qed

subsection \<open>The command as a whole\<close>

text \<open>
  What a returned command means for the stream: no event and a handler that decided on the
  state the actor now has, or one block of events at the end of the stream, decided on
  everything before it. \<open>before\<close> is the stream when the call began.
\<close>

definition decided ::
  "ext \<Rightarrow> ('a, 'c, 'e, 'err) aggregate \<Rightarrow> recorded_event list \<Rightarrow> recorded_event list \<Rightarrow> 'c
    \<Rightarrow> 'e list \<Rightarrow> bool" where
  "decided E A before es cmd des \<longleftrightarrow>
     (\<exists>pre new. es = pre @ new \<and> prefix before pre \<and> handle A (replay A (domain_events E A pre)) cmd = Inr des \<and>
        domain_events E A new = des \<and> length new = length des)"

lemma decided_earlier: "decided E A later es cmd des \<Longrightarrow> prefix before later \<Longrightarrow> decided E A before es cmd des"
  unfolding decided_def by (blast intro: prefix_order.trans)

lemma appended_decided:
  assumes "ext_ok E" and "store_contract E S sid strm"
    and "synced E A es st" and "prefix es (strm s1)"
    and "handle A (agg_state st) cmd = Inr des" and "des \<noteq> []" and "list_all2 (encodes A) des ps"
    and "append_op S sid (expected_of (stream_version st)) ps s1 = (Inr resp, s2)"
  shows "synced E A (strm s2) (st\<lparr>store := s2, agg_state := foldl (apply_event A) (agg_state st) des,
           stream_version := Some (last_stream_version resp)\<rparr>)"
    and "decided E A (strm s1) (strm s2) cmd des"
proof -
  obtain pre new where sp: "strm s2 = pre @ new" "prefix (strm s1) pre"
    "list_all2 (carries E sid) ps new" "expectation_holds (expected_of (stream_version st)) pre"
    "new \<noteq> [] \<longrightarrow> Suc (unat (last_stream_version resp)) = length (pre @ new)"
    using assms(2,8) by (rule store_contract_append)
  have len: "length (strm s2) < 2 ^ 64"
    using store_contract_versioned [OF assms(2)] by (simp add: versioned_def)
  have "prefix es pre" using assms(4) sp(2) by (rule prefix_order.trans)
  moreover from this have "length es < 2 ^ 64" using len sp(1) prefix_length_le by fastforce
  ultimately have pre: "pre = es"
    using assms(3) sp(4) unfolding expected_of_def by (metis append_meets_prefix)
  have new: "domain_events E A new = des" "length new = length des"
    using domain_events_carried [OF assms(1,7) sp(3)] by simp_all
  with \<open>des \<noteq> []\<close> have ne: "new \<noteq> []" by auto
  have "unat (last_stream_version resp) = length (es @ new) - 1" using sp(5) ne pre by simp
  then have "last_stream_version resp = of_nat (length (es @ new) - 1)"
    by (metis of_nat_unat ucast_id)
  with assms(3) new ne sp(1) pre
  show "synced E A (strm s2) (st\<lparr>store := s2, agg_state := foldl (apply_event A) (agg_state st) des,
           stream_version := Some (last_stream_version resp)\<rparr>)"
    by (simp add: synced_def replay_append)
  show "decided E A (strm s1) (strm s2) cmd des"
    unfolding decided_def using assms(3,5) new sp(1,2) pre by (auto simp: synced_def)
qed

lemma execute_attempts_spec:
  assumes "actor_setting E A S rng K strm" and "actor_inv E A strm st"
    and "execute_attempts E A S rng K cmd ctx n st = (r, st')"
  shows "actor_inv E A strm st' \<and> prefix (strm (store st)) (strm (store st')) \<and> disk st' = disk st \<and>
    (\<forall>des. r = Inr des \<longrightarrow> handle A (agg_state st') cmd = Inr [] \<and> des = [] \<or>
       synced E A (strm (store st')) st' \<and> decided E A (strm (store st)) (strm (store st')) cmd des) \<and>
    (\<forall>e. r = Inl (Raised (Domain e)) \<longrightarrow> handle A (agg_state st') cmd = Inl e) \<and>
    (\<forall>m. r \<noteq> Inl (Panicked m)) \<and> r \<noteq> Inl (Raised ActorGone) \<and> (\<forall>x. r \<noteq> Inl (Raised (Io x)))"
  using assms(2,3)
proof (induction n arbitrary: st)
  case 0
  then show ?case by auto
next
  case (Suc n)
  note set = actor_settingD [OF assms(1)]
  obtain es where es: "prefix es (strm (store st))" "synced E A es st"
    using Suc.prems(1) by (auto simp: actor_inv_def)
  note grows = store_contract_grows [OF set(3)]
  show ?case
  proof (cases rule: execute_attempt_cases
      [where A = A and rng = rng and strm = strm, OF set(2) set(4) Suc.prems(2),
       case_names rejected noop appended failed unread retried])
    case (rejected e)
    with Suc.prems show ?thesis by auto
  next
    case noop
    with Suc.prems show ?thesis by auto
  next
    case (appended des ps s1 resp s2)
    have "prefix es (strm s1)" using es(1) appended(4) by simp
    note dec = appended_decided [OF set(1,3) es(2) this appended(1,2,3,5)]
    have "prefix (strm (store st)) (strm s2)" using grows(1) appended(4,5) by metis
    with dec appended show ?thesis by (auto simp: actor_inv_def)
  next
    case (failed des ps s1 status s2)
    then have "prefix (strm (store st)) (strm s2)" using grows(1) by metis
    with failed es show ?thesis by (auto simp: actor_inv_def intro: prefix_order.trans)
  next
    case (unread des ps s1 status s2 status' s3)
    then have "prefix (strm (store st)) (strm s3)" using grows prefix_order.trans by metis
    with unread es show ?thesis by (auto simp: actor_inv_def intro: prefix_order.trans)
  next
    case (retried des ps s1 status s2 events s3 x v)
    have p2: "prefix (strm (store st)) (strm s2)" using retried grows(1) by metis
    with es(1) have "prefix es (strm s2)" by (rule prefix_order.trans)
    note cu = catch_up_synced [OF set(3) es(2) this retried(6,7)]
    let ?st = "st\<lparr>store := s3, agg_state := x, stream_version := v\<rparr>"
    have "actor_inv E A strm ?st" using cu(2) by (auto simp: actor_inv_def)
    from Suc.IH [OF this retried(8)] p2 cu(1) prefix_order.trans [OF p2 cu(1)] show ?thesis
      by (auto intro: prefix_order.trans decided_earlier)
  qed
qed

end
