(* ===== verification/Actor_Lifecycle.thy ===== *)
theory Actor_Lifecycle
  imports Actor_Correct Reference_Env
begin

text \<open>
  The life of an actor: every message of its mailbox keeps the invariant, a spawn establishes
  it from a snapshot and a read, an exit saves what the next spawn needs. What the exit of an
  actor that never saw an event does to its successor is stated at the end.
\<close>

subsection \<open>Messages\<close>

lemma inject_step_spec:
  assumes "actor_setting E A S rng K strm" and "actor_inv E A strm st"
    and "inject_step E A S K p st = (r, st')"
  shows "actor_inv E A strm st' \<and> prefix (strm (store st)) (strm (store st')) \<and> disk st' = disk st \<and>
    (r = Inr () \<longrightarrow> (\<exists>pre new post. strm (store st') = pre @ new # post \<and>
       prefix (strm (store st)) pre \<and> carries E (stream_id K) p new))"
proof -
  note set = actor_settingD [OF assms(1)]
  note grows = store_contract_grows [OF set(3)]
  obtain es where es: "prefix es (strm (store st))" "synced E A es st"
    using assms(2) by (auto simp: actor_inv_def)
  obtain q s1 where app: "append_op S (stream_id K) Any [p] (store st) = (q, s1)" by fastforce
  note g1 = grows(1) [OF app]
  have es1: "prefix es (strm s1)" using es(1) g1 by (rule prefix_order.trans)
  show ?thesis
  proof (cases q)
    case (Inl status)
    with assms(3) app have "st' = st\<lparr>store := s1\<rparr>" "r = Inl status"
      by (auto simp: inject_step_def)
    with es1 es(2) g1 show ?thesis by (auto simp: actor_inv_def)
  next
    case (Inr resp)
    obtain pre new where sp: "strm s1 = pre @ new" "prefix (strm (store st)) pre"
      "list_all2 (carries E (stream_id K)) [p] new"
      using store_contract_append [OF set(3) app [unfolded Inr]] by metis
    then obtain n where n: "new = [n]" "carries E (stream_id K) p n"
      by (auto simp: list_all2_Cons1)
    obtain q2 s2 where rd:
      "read_stream_op S (stream_id K) (next_from (stream_version st)) u64_MAX s1 = (q2, s2)"
      by fastforce
    note g2 = grows(2) [OF rd]
    then obtain post where "strm s2 = pre @ n # post" using sp(1) n(1) by (auto simp: prefix_def)
    then have kept: "\<exists>pre new post. strm s2 = pre @ new # post \<and>
        prefix (strm (store st)) pre \<and> carries E (stream_id K) p new"
      using sp(2) n(2) by blast
    show ?thesis
    proof (cases q2)
      case bad: (Inl status)
      with assms(3) app Inr rd have "st' = st\<lparr>store := s2\<rparr>" "r = Inr ()"
        by (auto simp: inject_step_def)
      with kept es(2) prefix_order.trans [OF es1 g2] prefix_order.trans [OF g1 g2] show ?thesis
        by (auto simp: actor_inv_def)
    next
      case good: (Inr events)
      obtain x v where fo: "fold_recorded E A events (agg_state st, stream_version st) = (x, v)"
        by fastforce
      with assms(3) app Inr rd good
      have "st' = st\<lparr>store := s2, agg_state := x, stream_version := v\<rparr>" "r = Inr ()"
        by (auto simp: inject_step_def)
      with catch_up_synced(2) [OF set(3) es(2) es1 rd [unfolded good] fo] kept
        prefix_order.trans [OF g1 g2] show ?thesis
        by (auto simp: actor_inv_def)
    qed
  qed
qed

lemma actor_inv_save_on_exit [simp]: "actor_inv E A strm (save_on_exit E A K st) = actor_inv E A strm st"
  by (simp add: actor_inv_def save_on_exit_def synced_def)

lemma store_save_on_exit [simp]: "store (save_on_exit E A K st) = store st"
  by (simp add: save_on_exit_def)

lemma execute_with_retry_spec:
  assumes "actor_setting E A S rng K strm" and "actor_inv E A strm st"
    and "execute_with_retry E A S rng K cmd ctx st = (r, st')"
  shows "actor_inv E A strm st'" "prefix (strm (store st)) (strm (store st'))" "disk st' = disk st"
    "r = Inr des \<Longrightarrow> handle A (agg_state st') cmd = Inr [] \<and> des = [] \<or>
       synced E A (strm (store st')) st' \<and> decided E A (strm (store st)) (strm (store st')) cmd des"
    "r = Inl (Raised (Domain e)) \<Longrightarrow> handle A (agg_state st') cmd = Inl e"
    "r \<noteq> Inl (Panicked m)" "r \<noteq> Inl (Raised ActorGone)" "r \<noteq> Inl (Raised (Io x))"
  using execute_attempts_spec [OF assms(1,2) assms(3) [unfolded execute_with_retry_def]] by auto

lemma actor_step_inv:
  assumes "actor_setting E A S rng K strm" and "actor_inv E A strm st"
    and "actor_step E A S rng K m st = (rep, status, st')"
  shows "actor_inv E A strm st' \<and> prefix (strm (store st)) (strm (store st')) \<and>
    (\<forall>x. status \<noteq> Crashed x)"
proof (cases m)
  case (Message msg)
  show ?thesis
  proof (cases msg)
    case (Execute cmd ctx)
    obtain r s where x: "execute_with_retry E A S rng K cmd ctx st = (r, s)" by fastforce
    note spec = execute_with_retry_spec [OF assms(1,2) x]
    with assms(3) Message Execute x spec show ?thesis
      by (auto split: sum.splits fault.splits)
  next
    case (Inject p)
    obtain r s where x: "inject_step E A S K p st = (r, s)" by fastforce
    with assms(3) Message Inject inject_step_spec [OF assms(1,2) x] show ?thesis by auto
  qed (use assms Message in auto)
qed (use assms in auto)

lemma run_actor_spec:
  assumes "actor_setting E A S rng K strm" and "actor_inv E A strm st"
    and "run_actor E A S rng K ms st = (reps, status, st')"
  shows "actor_inv E A strm st' \<and> prefix (strm (store st)) (strm (store st')) \<and>
    (\<forall>x. status \<noteq> Crashed x)"
  using assms(2,3)
proof (induction ms arbitrary: st reps)
  case Nil
  then show ?case by simp
next
  case (Cons m ms)
  obtain rep status1 st1 where m: "actor_step E A S rng K m st = (rep, status1, st1)"
    by (metis prod_cases3)
  note one = actor_step_inv [OF assms(1) Cons.prems(1) m]
  show ?case
  proof (cases status1)
    case Running
    obtain reps2 where "run_actor E A S rng K ms st1 = (reps2, status, st')"
      using Cons.prems(2) m Running by (auto split: prod.splits)
    with Cons.IH one show ?thesis by (blast intro: prefix_order.trans)
  qed (use Cons.prems(2) m one in auto)
qed

subsection \<open>Versions are never forgotten\<close>

lemma fold_recorded_state:
  "fst (fold_recorded E A es (x, v)) = foldl (apply_event A) x (domain_events E A es)"
  "snd (fold_recorded E A es (x, v)) = (if es = [] then v else Some (re_stream_version (last es)))"
  by (induction es arbitrary: x v) (auto split: option.splits)

lemma fold_recorded_seen: "fold_recorded E A es (x, Some y) = (a, v) \<Longrightarrow> \<exists>z. v = Some z"
  using fold_recorded_state(2) [of E A es x "Some y"] by (auto split: if_splits)

lemma execute_attempts_seen:
  assumes "adjacently_tagged A" and "execute_attempts E A S rng K cmd ctx n st = (r, st')"
    and "stream_version st \<noteq> None"
  shows "stream_version st' \<noteq> None"
  using assms(2,3)
proof (induction n arbitrary: st)
  case 0
  then show ?case by simp
next
  case (Suc n)
  show ?case
  proof (cases rule: execute_attempt_cases [where A = A and rng = rng and strm = "\<lambda>_. ()",
       OF assms(1) refl Suc.prems(1),
       case_names rejected noop appended failed unread retried])
    case (retried des ps s1 status s2 events s3 x v)
    then have "v \<noteq> None"
      using fold_recorded_state(2) [of E A events "agg_state st" "stream_version st"] Suc.prems(2)
      by (auto split: if_splits)
    with Suc.IH [OF retried(8)] show ?thesis by simp
  qed (use Suc.prems in auto)
qed

lemma actor_step_seen:
  assumes "adjacently_tagged A" and "actor_step E A S rng K m st = (rep, status, st')"
    and "stream_version st \<noteq> None"
  shows "stream_version st' \<noteq> None"
proof -
  note ex = execute_attempts_seen [OF assms(1) _ assms(3), of E S rng K]
  show ?thesis
  proof (cases m)
    case (Message msg)
    with assms(2,3) ex show ?thesis
      by (cases msg)
        (auto simp: execute_with_retry_def inject_step_def save_on_exit_def Let_def
          split: prod.splits sum.splits fault.splits if_splits dest: fold_recorded_seen)
  qed (use assms in \<open>auto simp: save_on_exit_def\<close>)
qed

lemma run_actor_seen:
  assumes "adjacently_tagged A" and "run_actor E A S rng K ms st = (reps, status, st')"
    and "stream_version st \<noteq> None"
  shows "stream_version st' \<noteq> None"
  using assms(2,3)
proof (induction ms arbitrary: st reps)
  case Nil
  then show ?case by simp
next
  case (Cons m ms)
  obtain rep status1 st1 where m: "actor_step E A S rng K m st = (rep, status1, st1)"
    by (metis prod_cases3)
  note one = actor_step_seen [OF assms(1) m Cons.prems(2)]
  show ?case
  proof (cases status1)
    case Running
    obtain reps2 where "run_actor E A S rng K ms st1 = (reps2, status, st')"
      using Cons.prems(1) m Running by (auto split: prod.splits)
    with Cons.IH one show ?thesis by blast
  qed (use Cons.prems(1) m one in auto)
qed

subsection \<open>The snapshot on disk\<close>

text \<open>What the disk holds, if it can be read, is the fold of a non-empty prefix of the stream.\<close>

definition snapshot_of_prefix ::
  "ext \<Rightarrow> ('a, 'c, 'e, 'err) aggregate \<Rightarrow> recorded_event list \<Rightarrow> 'a snapshot \<Rightarrow> bool" where
  "snapshot_of_prefix E A es sn \<longleftrightarrow>
     unat (snap_stream_version sn) < length es \<and>
     snap_state sn = replay A (domain_events E A (take (Suc (unat (snap_stream_version sn))) es))"

definition disk_inv ::
  "ext \<Rightarrow> ('a, 'c, 'e, 'err) aggregate \<Rightarrow> path \<Rightarrow> string \<Rightarrow> recorded_event list \<Rightarrow> fs \<Rightarrow> bool" where
  "disk_inv E A base i es F \<longleftrightarrow>
     (\<forall>sn. load_snapshot E A base i F = Inr (Some sn) \<longrightarrow> snapshot_of_prefix E A es sn)"

lemma snapshot_of_prefix_mono:
  assumes "snapshot_of_prefix E A es sn" and "prefix es fs"
  shows "snapshot_of_prefix E A fs sn"
  using assms by (auto simp: snapshot_of_prefix_def prefix_def)

lemma disk_inv_mono: "disk_inv E A base i es F \<Longrightarrow> prefix es fs \<Longrightarrow> disk_inv E A base i fs F"
  unfolding disk_inv_def using snapshot_of_prefix_mono by blast

lemma snapshot_good_always:
  "ext_ok E \<Longrightarrow> adjacently_tagged A \<Longrightarrow> snapshot_good E A sn"
  using adjacently_tagged.state_value [of A "snap_state sn"] by (auto simp: snapshot_good_def)

lemma save_then_load:
  assumes "ext_ok E" and "adjacently_tagged A" and "save_snapshot E A base i sn F = (r, F')"
    and "load_snapshot E A base i F' = Inr (Some sn')"
  shows "sn' = sn \<and> r = Inr () \<or> load_snapshot E A base i F = Inr (Some sn')"
proof (cases r)
  case (Inl e)
  with assms(3,4) show ?thesis using snapshot_file.failed_save_keeps by metis
next
  case (Inr u)
  have "io_fails F' OpRead (snapshot_path base (AGGREGATE_TYPE A) i) = None"
    using assms(4) by (auto simp: load_snapshot_def fs_read_def split: option.splits if_splits)
  moreover have "io_fails F' = io_fails F"
    using snapshot_file.save_Inr assms(3) Inr by metis
  ultimately have "load_snapshot E A base i F' = Inr (Some sn)"
    using snapshot_file.save_load [OF assms(3) [unfolded Inr]] snapshot_good_always [OF assms(1,2)]
    by metis
  with assms(4) Inr show ?thesis by simp
qed

lemma save_on_exit_disk_inv:
  assumes "ext_ok E" and "adjacently_tagged A" and "versioned (strm (store st))"
    and "actor_inv E A strm st" and "stream_version st \<noteq> None"
    and "disk_inv E A (base_dir K) (instance_id K) (strm (store st)) (disk st)"
  shows "disk_inv E A (base_dir K) (instance_id K) (strm (store st)) (disk (save_on_exit E A K st))"
proof -
  obtain es where es: "prefix es (strm (store st))" "synced E A es st"
    using assms(4) by (auto simp: actor_inv_def)
  with assms(5) have "es \<noteq> []" "stream_version st = Some (of_nat (length es - 1))"
    by (auto simp: synced_def split: if_splits)
  moreover have "length es < 2 ^ 64"
    using assms(3) prefix_length_le [OF es(1)] by (simp add: versioned_def)
  ultimately have v: "unat (unwrap_or 0 (stream_version st)) = length es - 1" "0 < length es"
    by (auto simp: unwrap_or_def unat_of_nat_u64)
  moreover have "take (length es) (strm (store st)) = es" using es(1) by (auto simp: prefix_def)
  moreover have "length es - 1 < length (strm (store st))"
    using v(2) prefix_length_le [OF es(1)] by linarith
  ultimately have "snapshot_of_prefix E A (strm (store st))
      \<lparr>snap_state = agg_state st, snap_stream_version = unwrap_or 0 (stream_version st)\<rparr>"
    using es by (auto simp: snapshot_of_prefix_def synced_def)
  moreover obtain r F' where "save_snapshot E A (base_dir K) (instance_id K)
      \<lparr>snap_state = agg_state st, snap_stream_version = unwrap_or 0 (stream_version st)\<rparr> (disk st) = (r, F')"
    by fastforce
  ultimately show ?thesis
    using assms(6) save_then_load [OF assms(1,2)]
    by (fastforce simp: disk_inv_def save_on_exit_def save_snapshot_quietly_def)
qed

subsection \<open>Spawning\<close>

lemma synced_next_from_snapshot:
  assumes "snapshot_of_prefix E A es sn" and "versioned es"
  shows "synced E A (take (Suc (unat (snap_stream_version sn))) es)
    \<lparr>store = s, agg_state = snap_state sn, stream_version = Some (snap_stream_version sn), disk = F\<rparr>"
proof -
  have "unat (snap_stream_version sn) < length es" using assms(1) by (simp add: snapshot_of_prefix_def)
  then have "length (take (Suc (unat (snap_stream_version sn))) es) = Suc (unat (snap_stream_version sn))"
    by simp
  then show ?thesis
    using assms(1) by (auto simp: synced_def snapshot_of_prefix_def)
qed

lemma spawn_spec:
  assumes "store_contract E S (stream_uuid E (AGGREGATE_TYPE A) i) strm"
    and "disk_inv E A base i (strm s) F"
    and "spawn_state E A S base i s F = (Inr (K, st), s')"
  shows "K = \<lparr>stream_id = stream_uuid E (AGGREGATE_TYPE A) i, instance_id = i, base_dir = base\<rparr>"
    and "store st = s'" and "disk st = F" and "prefix (strm s) (strm s')"
    and "synced E A (strm s') st"
proof -
  let ?sid = "stream_uuid E (AGGREGATE_TYPE A) i"
  obtain snapshot where ld: "load_snapshot E A base i F = Inr snapshot"
    using assms(3) by (cases "load_snapshot E A base i F") (auto simp: spawn_state_def Let_def)
  let ?st = "case snapshot of
      Some sn \<Rightarrow> \<lparr>store = s, agg_state = snap_state sn, stream_version = Some (snap_stream_version sn), disk = F\<rparr>
    | None \<Rightarrow> \<lparr>store = s, agg_state = agg_default A, stream_version = None, disk = F\<rparr>"
  let ?es = "case snapshot of Some sn \<Rightarrow> take (Suc (unat (snap_stream_version sn))) (strm s) | None \<Rightarrow> []"
  have ver: "versioned (strm s)" using assms(1) by (rule store_contract_versioned)
  have sy: "synced E A ?es ?st" "prefix ?es (strm s)"
    using assms(2) ld synced_next_from_snapshot [OF _ ver]
    by (auto simp: disk_inv_def synced_def take_is_prefix split: option.splits)
  have from_eq: "next_from (stream_version ?st) =
      (case snapshot of Some sn \<Rightarrow> snap_stream_version sn + 1 | None \<Rightarrow> 0)"
    by (simp add: next_from_def split: option.splits)
  obtain events where rd: "read_stream_op S ?sid (next_from (stream_version ?st)) u64_MAX s = (Inr events, s')"
    using assms(3) ld from_eq
    by (auto simp: spawn_state_def Let_def split: option.splits prod.splits sum.splits)
  obtain x v where fo: "fold_recorded E A events (agg_state ?st, stream_version ?st) = (x, v)" by fastforce
  have eq: "(K, st) = (\<lparr>stream_id = ?sid, instance_id = i, base_dir = base\<rparr>,
      ?st\<lparr>store := s', agg_state := x, stream_version := v\<rparr>)"
    using assms(3) ld rd fo
    by (cases snapshot) (auto simp: spawn_state_def Let_def next_from_def)
  note cu = catch_up_synced [OF assms(1) sy rd fo]
  from eq show "K = \<lparr>stream_id = ?sid, instance_id = i, base_dir = base\<rparr>" "store st = s'" by simp_all
  from eq show "disk st = F" by (simp split: option.splits)
  from cu(1) show "prefix (strm s) (strm s')" .
  from cu(2) eq show "synced E A (strm s') st" by simp
qed

subsection \<open>Successive lives\<close>

text \<open>
  What \<open>AggregateStore::get\<close> leads to over time: an actor is spawned, works through a mailbox,
  is gone (by its own exit, or killed while running), and the next one is spawned on the disk
  and the store it left.
\<close>

fun lives ::
  "ext \<Rightarrow> ('a, 'c, 'e, 'err) aggregate \<Rightarrow> 's event_store_ops \<Rightarrow> ('s \<Rightarrow> uuid \<times> 's) \<Rightarrow> path \<Rightarrow> string
    \<Rightarrow> 'c actor_message received list list \<Rightarrow> 's \<times> fs \<Rightarrow> status + 's \<times> fs" where
  "lives E A S rng base i [] (s, F) = Inr (s, F)"
| "lives E A S rng base i (ms # mss) (s, F) =
     (case spawn_state E A S base i s F of
        (Inl status, s1) \<Rightarrow> Inl status
      | (Inr (K, st), s1) \<Rightarrow>
          (case run_actor E A S rng K ms st of
             (reps, status, st') \<Rightarrow> lives E A S rng base i mss (store st', disk st')))"

text \<open>Between two lives the disk changes at an exit only, and only for the better.\<close>

lemma actor_step_disk:
  assumes "actor_setting E A S rng K strm" and "actor_inv E A strm st"
    and "actor_step E A S rng K m st = (rep, status, st')" and "stream_version st \<noteq> None"
    and "disk_inv E A (base_dir K) (instance_id K) (strm (store st)) (disk st)"
  shows "disk_inv E A (base_dir K) (instance_id K) (strm (store st')) (disk st')"
proof (cases "st' = save_on_exit E A K st")
  case True
  with save_on_exit_disk_inv [OF actor_settingD(1,2) [OF assms(1)]
      store_contract_versioned [OF actor_settingD(3) [OF assms(1)]] assms(2,4,5)]
  show ?thesis by simp
next
  case False
  have "disk st' = disk st"
  proof (cases m)
    case (Message msg)
    show ?thesis
    proof (cases msg)
      case (Execute cmd ctx)
      obtain r s where x: "execute_with_retry E A S rng K cmd ctx st = (r, s)" by fastforce
      with assms(3) Message Execute execute_with_retry_spec(3) [OF assms(1,2) x] show ?thesis
        by (auto split: sum.splits fault.splits)
    next
      case (Inject p)
      obtain r s where x: "inject_step E A S K p st = (r, s)" by fastforce
      with assms(3) Message Inject inject_step_spec [OF assms(1,2) x] show ?thesis by auto
    qed (use False assms Message in auto)
  qed (use False assms in auto)
  with assms(5) actor_step_inv [OF assms(1,2,3)] show ?thesis
    using disk_inv_mono by metis
qed

lemma run_actor_disk:
  assumes "actor_setting E A S rng K strm" and "actor_inv E A strm st"
    and "run_actor E A S rng K ms st = (reps, status, st')" and "stream_version st \<noteq> None"
    and "disk_inv E A (base_dir K) (instance_id K) (strm (store st)) (disk st)"
  shows "disk_inv E A (base_dir K) (instance_id K) (strm (store st')) (disk st')"
  using assms(2-5)
proof (induction ms arbitrary: st reps)
  case Nil
  then show ?case by simp
next
  case (Cons m ms)
  obtain rep status1 st1 where m: "actor_step E A S rng K m st = (rep, status1, st1)"
    by (metis prod_cases3)
  note inv = actor_step_inv [OF assms(1) Cons.prems(1) m]
  note seen = actor_step_seen [OF actor_settingD(2) [OF assms(1)] m Cons.prems(3)]
  note one = actor_step_disk [OF assms(1) Cons.prems(1) m Cons.prems(3,4)]
  show ?case
  proof (cases status1)
    case Running
    obtain reps2 where "run_actor E A S rng K ms st1 = (reps2, status, st')"
      using Cons.prems(2) m Running by (auto split: prod.splits)
    with Cons.IH inv seen one show ?thesis by blast
  qed (use Cons.prems(2) m one in auto)
qed

lemma lives_disk_inv:
  assumes "\<forall>K. stream_id K = stream_uuid E (AGGREGATE_TYPE A) i \<longrightarrow> actor_setting E A S rng K strm"
    and "lives E A S rng base i mss (s, F) = Inr (s', F')"
    and "strm s \<noteq> []" and "disk_inv E A base i (strm s) F"
  shows "strm s' \<noteq> [] \<and> prefix (strm s) (strm s') \<and> disk_inv E A base i (strm s') F'"
  using assms(2-4)
proof (induction mss arbitrary: s F)
  case Nil
  then show ?case by simp
next
  case (Cons ms mss)
  obtain K st s1 where sp: "spawn_state E A S base i s F = (Inr (K, st), s1)"
    using Cons.prems(1) by (auto split: prod.splits sum.splits)
  have "actor_setting E A S rng \<lparr>stream_id = stream_uuid E (AGGREGATE_TYPE A) i, instance_id = i,
      base_dir = base\<rparr> strm"
    using assms(1) by simp
  note spawned = spawn_spec [OF actor_settingD(3) [OF this, simplified] Cons.prems(3) sp]
  have set: "actor_setting E A S rng K strm" using assms(1) spawned(1) by simp
  have ne: "strm (store st) \<noteq> []" using Cons.prems(2) spawned(2,4) by (auto simp: prefix_def)
  then have inv: "actor_inv E A strm st" "stream_version st \<noteq> None"
    using spawned(2,5) by (auto simp: actor_inv_def synced_def)
  have disk: "disk_inv E A (base_dir K) (instance_id K) (strm (store st)) (disk st)"
    using Cons.prems(3) spawned disk_inv_mono by (metis actor_context.select_convs(2,3))
  obtain reps status st' where run: "run_actor E A S rng K ms st = (reps, status, st')"
    by (metis prod_cases3)
  note after = run_actor_spec [OF set inv(1) run]
  have "strm (store st') \<noteq> []" using ne after by auto
  moreover have "disk_inv E A base i (strm (store st')) (disk st')"
    using run_actor_disk [OF set inv(1) run inv(2) disk] spawned(1) by simp
  moreover have "lives E A S rng base i mss (store st', disk st') = Inr (s', F')"
    using Cons.prems(1) sp run by simp
  ultimately show ?case
    using Cons.IH after spawned(2,4) by (metis prefix_order.trans)
qed

subsection \<open>The exit of an actor that saw no event\<close>

text \<open>The exit writes version 0 when there is no version: the next spawn reads from 1.\<close>

lemma exit_without_version:
  assumes "ext_ok E" and "adjacently_tagged A" and "actor_inv E A strm st" and "stream_version st = None"
    and "\<And>op p. io_fails (disk st) op p = None"
  shows "load_snapshot E A (base_dir K) (instance_id K) (disk (save_on_exit E A K st)) =
    Inr (Some \<lparr>snap_state = agg_default A, snap_stream_version = 0\<rparr>)"
proof -
  let ?sn = "\<lparr>snap_state = agg_default A, snap_stream_version = 0\<rparr>"
  have "agg_state st = agg_default A"
    using assms(3,4) by (auto simp: actor_inv_def synced_def split: if_splits)
  moreover obtain r F' where sv:
    "save_snapshot E A (base_dir K) (instance_id K) ?sn (disk st) = (r, F')" by fastforce
  ultimately have d: "disk (save_on_exit E A K st) = F'"
    using assms(4) by (simp add: save_on_exit_def save_snapshot_quietly_def unwrap_or_def)
  have "r = Inr ()"
  proof -
    obtain v where v: "state_to_value A (snap_state ?sn) = Inr v" "json_wf v"
      using adjacently_tagged.state_value [OF assms(2)] by blast
    then have "json_wf (json_object [(''state'', v), (''stream_version'', JNumber (PosInt 0))])"
      by (intro json_wf_object) (auto simp: byte_in_def)
    with assms(1) obtain bs where "json_to_vec_pretty E
        (json_object [(''state'', v), (''stream_version'', JNumber (PosInt 0))]) = Inr bs"
      by (rule ext_ok_pretty)
    with v have bs: "snapshot_bytes E A ?sn = Inr bs"
      by (simp add: snapshot_bytes_def snapshot_to_value_def)
    show ?thesis
      using sv bs assms(5) snapshot_save_succeeds by metis
  qed
  with sv have "load_snapshot E A (base_dir K) (instance_id K) F' = Inr (Some ?sn)"
    using snapshot_file.save_load [of E A "base_dir K" "instance_id K" ?sn "disk st" "()" F']
      snapshot_good_always [OF assms(1,2), of ?sn] assms(5) by simp
  with d show ?thesis by simp
qed

lemma respawn_after_empty_exit:
  assumes "ext_ok E" and "adjacently_tagged A"
    and "store_contract E S (stream_uuid E (AGGREGATE_TYPE A) i) strm"
    and "load_snapshot E A base i F = Inr (Some \<lparr>snap_state = agg_default A, snap_stream_version = 0\<rparr>)"
    and "spawn_state E A S base i s F = (Inr (K, st'), s')"
  shows "agg_state st' = replay A (domain_events E A (drop 1 (strm s')))"
    and "stream_version st' = Some (if length (strm s') \<le> 1 then 0 else of_nat (length (strm s') - 1))"
proof -
  let ?sid = "stream_uuid E (AGGREGATE_TYPE A) i"
  obtain events where rd: "read_stream_op S ?sid 1 u64_MAX s = (Inr events, s')"
    and st': "(agg_state st', stream_version st') = fold_recorded E A events (agg_default A, Some 0)"
    using assms(4,5) by (auto simp: spawn_state_def Let_def split: prod.splits sum.splits)
  have ver: "versioned (strm s')" using assms(3) by (rule store_contract_versioned)
  then have ev: "events = drop 1 (strm s')"
    using store_contract_read [OF assms(3) rd] by (auto simp: unat_u64_MAX versioned_def)
  have a: "agg_state st' = fst (fold_recorded E A events (agg_default A, Some 0))"
    and v: "stream_version st' = snd (fold_recorded E A events (agg_default A, Some 0))"
    using st' by (metis fst_conv, metis snd_conv)
  from a ev show "agg_state st' = replay A (domain_events E A (drop 1 (strm s')))"
    by (simp add: fold_recorded_state replay_def)
  have "re_stream_version (last (drop 1 (strm s'))) = of_nat (length (strm s') - 1)"
    if "1 < length (strm s')"
    using that ver by (simp add: last_conv_nth versioned_def)
  with v ev show "stream_version st' = Some (if length (strm s') \<le> 1 then 0 else of_nat (length (strm s') - 1))"
    by (auto simp: fold_recorded_state)
qed

lemma execute_not_first_writer:
  assumes "actor_setting E A S rng K strm" and "execute_attempts E A S rng K cmd ctx n st = (Inr des, st')"
    and "stream_version st \<noteq> None" and "des \<noteq> []"
  shows "\<exists>pre new. strm (store st') = pre @ new \<and> pre \<noteq> [] \<and> prefix (strm (store st)) pre \<and>
    length new = length des"
  using assms(2,3)
proof (induction n arbitrary: st)
  case 0
  then show ?case by simp
next
  case (Suc n)
  note set = actor_settingD [OF assms(1)]
  show ?case
  proof (cases rule: execute_attempt_cases [where A = A and rng = rng and strm = strm,
       OF set(2) set(4) Suc.prems(1),
       case_names rejected noop appended failed unread retried])
    case (appended des' ps s1 resp s2)
    obtain pre new where sp: "strm s2 = pre @ new" "prefix (strm s1) pre"
      "list_all2 (carries E (stream_id K)) ps new" "expectation_holds (expected_of (stream_version st)) pre"
      using store_contract_append [OF set(3) appended(5)] by metis
    have "pre \<noteq> []" using sp(4) Suc.prems(2) by (auto simp: expected_of_def)
    with sp appended domain_events_carried [OF set(1) appended(3) sp(3)] show ?thesis by auto
  next
    case (retried des' ps s1 status s2 events s3 x v)
    then have "v \<noteq> None" using Suc.prems(2) fold_recorded_seen by fastforce
    moreover have "prefix (strm (store st)) (strm s3)"
      using retried store_contract_grows [OF set(3)] prefix_order.trans by metis
    ultimately show ?thesis using Suc.IH [OF retried(8)] by (auto intro: prefix_order.trans)
  qed (use assms(4) in auto)
qed

subsection \<open>The mock store of the tests\<close>

lemma fold_mock_record:
  "length (ms_events (fold (mock_record E sid) ps m)) = length (ms_events m) + length ps"
  "precondition_failures_remaining (fold (mock_record E sid) ps m) = precondition_failures_remaining m"
  by (induction ps arbitrary: m) (simp_all add: mock_record_def)

lemma execute_attempts_mock:
  assumes "adjacently_tagged A" and "\<And>s. snd (rng s) = s"
    and "handle A (agg_state st) cmd = Inr des" and "des \<noteq> []"
    and "store st = with_precondition_failures n" and "stream_version st = None"
  shows "\<exists>st'. execute_attempts E A (mock_ops E) rng K cmd ctx k st =
      (if n < k then Inr des else Inl (Raised WrongExpectedVersion), st') \<and>
    precondition_failures_remaining (store st') = n - k \<and>
    length (ms_events (store st')) = (if n < k then length des else 0)"
  using assms(3-)
proof (induction k arbitrary: n st)
  case 0
  then show ?case by (simp add: with_precondition_failures_def)
next
  case (Suc k)
  obtain ps s1 where enc: "collect_results
      (\<lambda>de. encode_domain_event A rng de ctx (AGGREGATE_TYPE A) (instance_id K)) des (store st) = (Inr ps, s1)"
    "list_all2 (encodes A) des ps" "s1 = store st"
    using encode_all [where strm = "\<lambda>s. s" and rng = rng and ctx = ctx and ty = "AGGREGATE_TYPE A"
        and i = "instance_id K" and des = des and s = "store st", OF assms(1,2)] by blast
  have len: "length ps = length des" using enc(2) by (simp add: list_all2_lengthD)
  show ?case
  proof (cases n)
    case 0
    with Suc.prems enc len show ?thesis
      by (simp add: mock_ops_def mock_append_def with_precondition_failures_def Let_def fold_mock_record)
  next
    case (Suc m)
    let ?st = "st\<lparr>store := with_precondition_failures m\<rparr>"
    have "execute_attempts E A (mock_ops E) rng K cmd ctx (Suc k) st =
        execute_attempts E A (mock_ops E) rng K cmd ctx k ?st"
      using Suc Suc.prems enc
      by (cases st) (simp add: mock_ops_def mock_append_def mock_read_stream_def
          with_precondition_failures_def Let_def status_new_def)
    with Suc.IH [of ?st m] Suc.prems Suc show ?thesis by simp
  qed
qed

end
