(* ===== verification/Actor_Properties.thy ===== *)
theory Actor_Properties
  imports Actor_Lifecycle
begin

text \<open>
  The properties of the actor, each with a closed instance on the counter of the test fixtures
  against the in-memory server.
\<close>

subsection \<open>A sample actor\<close>

definition sample_context :: actor_context where
  "sample_context =
     \<lparr>stream_id = stream_uuid env (AGGREGATE_TYPE Counter) ''c1'', instance_id = ''c1'',
      base_dir = \<lparr>is_absolute = True, comps = [''data'']\<rparr>\<rparr>"

definition sample_ops :: "mem_server event_store_ops" where
  "sample_ops = es_client_ops env mem_rpc Plain"

definition sample_stream :: "mem_server \<Rightarrow> recorded_event list" where
  "sample_stream w = mem_stream w (uuid_to_string env (stream_id sample_context))"

definition empty_disk :: fs where
  "empty_disk = \<lparr>files = Map.empty, dirs = (\<lambda>_. False), io_fails = (\<lambda>_ _. None), torn = (\<lambda>_. None)\<rparr>"

definition sample_actor :: "(string \<times> proposed_event) list list \<Rightarrow> (mem_server, counter) actor_state" where
  "sample_actor others =
     \<lparr>store = mem_new others, agg_state = agg_default Counter, stream_version = None, disk = empty_disk\<rparr>"

text \<open>An event another client appends to the stream of the sample actor.\<close>

definition foreign_event :: "string \<times> proposed_event" where
  "foreign_event =
     (uuid_to_string env (stream_id sample_context),
      \<lparr>pe_event_id = ''other'', pe_event_type = ''Incremented'', pe_metadata = [],
       pe_payload = enc JNull\<rparr>)"

lemma sample_setting:
  "stream_id K = stream_uuid env (AGGREGATE_TYPE Counter) ''c1'' \<Longrightarrow>
    actor_setting env Counter sample_ops mem_rng K sample_stream"
proof -
  let ?u = "stream_uuid env (AGGREGATE_TYPE Counter) ''c1''"
  have "sample_stream = (\<lambda>w. mem_stream w (uuid_to_string env ?u))"
    by (simp add: fun_eq_iff sample_stream_def sample_context_def)
  moreover have "sample_stream (snd (mem_rng w)) = sample_stream w" for w
    by (simp add: sample_stream_def mem_stream_def mem_rng_def)
  moreover assume "stream_id K = ?u"
  ultimately show ?thesis
    using env_ok counter_agg.adjacently_tagged_axioms es_client_contract [OF mem_rpc_contract, of env Plain ?u]
    by (simp add: actor_setting_def sample_ops_def)
qed

lemma sample_context_setting: "actor_setting env Counter sample_ops mem_rng sample_context sample_stream"
  by (rule sample_setting) (simp add: sample_context_def)

lemma sample_contract:
  "store_contract env sample_ops (stream_uuid env (AGGREGATE_TYPE Counter) ''c1'') sample_stream"
proof -
  have "stream_id sample_context = stream_uuid env (AGGREGATE_TYPE Counter) ''c1''"
    by (simp add: sample_context_def)
  with actor_settingD(3) [OF sample_context_setting] show ?thesis by simp
qed

lemma sample_inv: "actor_inv env Counter sample_stream (sample_actor others)"
  by (auto simp: actor_inv_def synced_def sample_actor_def intro: exI [of _ "[]"])

lemmas sample_run = execute_with_retry_def MAX_RETRIES_def numeral_3_eq_3 sample_actor_def sample_ops_def
  es_client_ops_def es_append_def es_read_stream_def call_rpc_def Let_def mem_rpc_def mem_append_def
  mem_read_def mem_interfere_def mem_new_def mem_stream_def expectation_met_def encode_domain_event_def
  json_object_def Counter_def mem_rng_def capacity_def number_def status_new_def next_from_def
  unat_u64_MAX mem_record_def decode_domain_event_def is_null_def counter_event_from_value_def
  from_utf8_def byte_in_def

lemma sample_execute:
  "\<exists>st'. execute_with_retry env Counter sample_ops mem_rng sample_context Increment
     command_context_default (sample_actor []) = (Inr [Incremented], st')"
  by (simp add: sample_run)

lemma sample_conflict:
  "\<exists>st'. execute_with_retry env Counter sample_ops mem_rng sample_context Increment
     command_context_default (sample_actor [[foreign_event]]) = (Inr [Incremented], st')"
  by (simp add: sample_run foreign_event_def env_parse_def env_def)

lemma sample_actor_simps [simp]:
  "agg_state (sample_actor others) = agg_default Counter" "stream_version (sample_actor others) = None"
  "disk (sample_actor others) = empty_disk" "store (sample_actor others) = mem_new others"
  by (simp_all add: sample_actor_def)

text \<open>Spawning on the in-memory server succeeds on every disk that fails no operation.\<close>

lemma load_snapshot_no_failure:
  assumes "\<And>op p. io_fails F op p = None"
  shows "\<exists>sn. load_snapshot E A base i F = Inr sn"
  using assms by (auto simp: load_snapshot_def fs_read_def io_error_new_def split: option.splits sum.splits)

lemma sample_read: "\<exists>es w'. read_stream_op sample_ops sid from_version n w = (Inr es, w')"
proof -
  have "code st = GNotFound" if "mem_read w md rq = (Inl st, w')" for w md rq st w'
    using that by (auto simp: mem_read_def Let_def status_new_def split: if_splits)
  then show ?thesis
    by (auto simp: sample_ops_def es_client_ops_def es_read_stream_def Let_def call_rpc_def mem_rpc_def
        split: prod.splits sum.splits)
qed

lemma sample_spawn:
  assumes "\<And>op p. io_fails F op p = None"
  shows "\<exists>K st s'. spawn_state env Counter sample_ops base i s F = (Inr (K, st), s')"
proof -
  obtain sn where ld: "load_snapshot env Counter base i F = Inr sn"
    using load_snapshot_no_failure assms by blast
  obtain es s' where "read_stream_op sample_ops (stream_uuid env (AGGREGATE_TYPE Counter) i)
      (case sn of Some snap \<Rightarrow> snap_stream_version snap + 1 | None \<Rightarrow> 0) u64_MAX s = (Inr es, s')"
    using sample_read by blast
  with ld show ?thesis
    by (cases sn) (auto simp: spawn_state_def Let_def split: prod.splits)
qed

lemma io_fails_save_on_exit [simp]: "io_fails (disk (save_on_exit E A K st)) = io_fails (disk st)"
proof -
  let ?sn = "\<lparr>snap_state = agg_state st, snap_stream_version = unwrap_or 0 (stream_version st)\<rparr>"
  obtain r F' where s: "save_snapshot E A (base_dir K) (instance_id K) ?sn (disk st) = (r, F')" by fastforce
  have "io_fails F' = io_fails (disk st)"
    using snapshot_file.save_Inr [of E A "base_dir K" "instance_id K" ?sn "disk st" _ F']
      snapshot_file.save_Inl [of E A "base_dir K" "instance_id K" ?sn "disk st" _ F'] s
    by (cases r) blast+
  with s show ?thesis by (simp add: save_on_exit_def save_snapshot_quietly_def)
qed

lemma io_fails_empty_disk [simp]: "io_fails empty_disk op p = None"
  by (simp add: empty_disk_def)

lemma io_fails_sample_exit:
  "io_fails (disk (save_on_exit env Counter sample_context (sample_actor others))) op p = None"
  by simp

lemma disk_inv_empty: "disk_inv E A base i es empty_disk"
  by (simp add: disk_inv_def load_snapshot_def fs_read_def empty_disk_def io_error_new_def)

lemma sample_respawn:
  assumes "load_snapshot env Counter (base_dir sample_context) ''c1'' F =
    Inr (Some \<lparr>snap_state = agg_default Counter, snap_stream_version = 0\<rparr>)"
  shows "spawn_state env Counter sample_ops (base_dir sample_context) (instance_id sample_context)
      (mem_new ([] # others)) F =
    (Inr (sample_context, \<lparr>store = mem_new others, agg_state = agg_default Counter,
       stream_version = Some 0, disk = F\<rparr>), mem_new others)"
proof -
  have i: "instance_id sample_context = ''c1''" by (simp add: sample_context_def)
  have "read_stream_op sample_ops sid 1 u64_MAX (mem_new ([] # others)) = (Inr [], mem_new others)" for sid
    by (simp add: sample_run)
  then show ?thesis
    using assms unfolding i by (simp add: spawn_state_def Let_def) (simp add: sample_context_def)
qed

lemma sample_exit_load:
  "load_snapshot env Counter (base_dir sample_context) ''c1''
     (disk (save_on_exit env Counter sample_context (sample_actor others))) =
   Inr (Some \<lparr>snap_state = agg_default Counter, snap_stream_version = 0\<rparr>)"
  using exit_without_version [OF env_ok counter_agg.adjacently_tagged_axioms sample_inv,
      of others sample_context]
  by (simp add: sample_context_def)

subsection \<open>Properties\<close>

text \<open>
  C1. A command that returns events was decided on the whole stream: the stream is what it was
  when the call began, what others appended meanwhile, and then, as one block at the very end,
  events that decode to exactly the returned ones, which the handler produced from the fold of
  everything before them. The actor's state is then the fold of the whole stream.
\<close>

theorem execute_is_serialised:
  assumes "actor_setting E A S rng K strm" and "actor_inv E A strm st"
    and "execute_with_retry E A S rng K cmd ctx st = (Inr des, st')" and "des \<noteq> []"
  shows "synced E A (strm (store st')) st' \<and> decided E A (strm (store st)) (strm (store st')) cmd des"
  using execute_with_retry_spec(4) [OF assms(1,2,3) refl] assms(4) by auto

theorem execute_is_serialised_witness:
  "\<exists>st'. synced env Counter (sample_stream (store st')) st' \<and>
     decided env Counter [] (sample_stream (store st')) Increment [Incremented]"
proof -
  obtain st' where "execute_with_retry env Counter sample_ops mem_rng sample_context Increment
     command_context_default (sample_actor [[foreign_event]]) = (Inr [Incremented], st')"
    using sample_conflict by blast
  from execute_is_serialised [OF sample_context_setting sample_inv this] show ?thesis
    by (auto simp: sample_context_def sample_stream_def mem_stream_def mem_new_def number_def)
qed

text \<open>
  C25. The errors of a command: a domain error is the handler's verdict on the state the actor
  has, which is the fold of a prefix of the stream; encoding never fails, nothing panics, and
  the remaining errors are those of the transport and the exhausted retries. The disk is not
  touched and no recorded event is lost.
\<close>

theorem execute_errors:
  assumes "actor_setting E A S rng K strm" and "actor_inv E A strm st"
    and "execute_with_retry E A S rng K cmd ctx st = (Inl f, st')"
  shows "actor_inv E A strm st' \<and> prefix (strm (store st)) (strm (store st')) \<and> disk st' = disk st \<and>
    (f = Raised WrongExpectedVersion \<or> (\<exists>status. f = Raised (Transport status)) \<or>
     (\<exists>e. f = Raised (Domain e) \<and> handle A (agg_state st') cmd = Inl e))"
proof (cases f)
  case (Raised e)
  with execute_with_retry_spec [OF assms] show ?thesis by (cases e) auto
qed (use execute_with_retry_spec(6) [OF assms] in auto)

theorem execute_errors_witness:
  "\<exists>st'. actor_inv env Counter sample_stream st' \<and> disk st' = empty_disk \<and>
     counter_handle (agg_state st') Decrement = Inl AlreadyZero"
proof -
  have "execute_with_retry env Counter sample_ops mem_rng sample_context Decrement
      command_context_default (sample_actor []) = (Inl (Raised (Domain AlreadyZero)), sample_actor [])"
    by (simp add: execute_with_retry_def MAX_RETRIES_def numeral_3_eq_3 Counter_def)
  from execute_errors [OF sample_context_setting sample_inv this] show ?thesis
    by (auto simp: sample_context_def Counter_def)
qed

text \<open>
  Whatever messages an actor processes and whatever other clients append in between, its
  state stays the fold of a prefix of the stream with the matching version, the stream is only
  appended to, and the actor never panics.
\<close>

theorem run_actor_invariant:
  assumes "actor_setting E A S rng K strm" and "actor_inv E A strm st"
    and "run_actor E A S rng K ms st = (reps, status, st')"
  shows "actor_inv E A strm st' \<and> prefix (strm (store st)) (strm (store st')) \<and>
    (status = Running \<or> status = Exited)"
  using run_actor_spec [OF assms] by (cases status) auto

theorem run_actor_invariant_witness:
  "\<exists>reps status st'. run_actor env Counter sample_ops mem_rng sample_context
      [Message GetState, Message (Execute Increment command_context_default), Message Shutdown]
      (sample_actor [[foreign_event]]) = (reps, status, st') \<and>
    actor_inv env Counter sample_stream st' \<and> (status = Running \<or> status = Exited)"
proof -
  obtain reps status st' where r: "run_actor env Counter sample_ops mem_rng sample_context
      [Message GetState, Message (Execute Increment command_context_default), Message Shutdown]
      (sample_actor [[foreign_event]]) = (reps, status, st')"
    by (metis prod_cases3)
  from run_actor_invariant [OF sample_context_setting sample_inv this] r show ?thesis
    by (auto simp: sample_context_def)
qed

text \<open>
  Injected events are appended to the stream as given, whatever its length, after everything
  it held, and the actor's state stays the fold of a prefix of the stream.
\<close>

theorem inject_appends:
  assumes "actor_setting E A S rng K strm" and "actor_inv E A strm st"
    and "inject_step E A S K p st = (Inr (), st')"
  shows "actor_inv E A strm st' \<and>
    (\<exists>pre new post. strm (store st') = pre @ new # post \<and> prefix (strm (store st)) pre \<and>
       carries E (stream_id K) p new)"
  using inject_step_spec [OF assms] by auto

theorem inject_appends_witness:
  "\<exists>p st'. actor_inv env Counter sample_stream st' \<and>
     (\<exists>pre new post. sample_stream (store st') = pre @ new # post \<and>
        carries env (stream_id sample_context) p new)"
proof -
  let ?p = "\<lparr>pd_event_id = 7, pd_event_type = ''Incremented'', pd_payload = JNull,
    pd_metadata = metadata_of_context command_context_default ''counter'' ''c1''\<rparr>"
  obtain st' where "inject_step env Counter sample_ops sample_context ?p (sample_actor []) = (Inr (), st')"
    by (simp add: inject_step_def sample_run split: prod.splits)
  from inject_appends [OF sample_context_setting sample_inv this] show ?thesis
    by blast
qed

text \<open>
  C5. Recovery: on a stream that is not empty, after any number of lives of the actor, each
  ended by an exit or a kill, the next spawn yields the fold of the whole stream and its
  version, whatever was saved and whatever other clients appended in between.
\<close>

theorem respawn_recovers:
  assumes "\<forall>K. stream_id K = stream_uuid E (AGGREGATE_TYPE A) i \<longrightarrow> actor_setting E A S rng K strm"
    and "strm s \<noteq> []" and "disk_inv E A base i (strm s) F"
    and "lives E A S rng base i mss (s, F) = Inr (s1, F1)"
    and "spawn_state E A S base i s1 F1 = (Inr (K, st), s2)"
  shows "synced E A (strm s2) st \<and> prefix (strm s) (strm s2)"
proof -
  have "store_contract E S (stream_uuid E (AGGREGATE_TYPE A) i) strm"
    using assms(1) [rule_format, of "\<lparr>stream_id = stream_uuid E (AGGREGATE_TYPE A) i, instance_id = i,
      base_dir = base\<rparr>"] by (simp add: actor_setting_def)
  moreover have "strm s1 \<noteq> [] \<and> prefix (strm s) (strm s1) \<and> disk_inv E A base i (strm s1) F1"
    by (rule lives_disk_inv [OF assms(1,4,2,3)])
  ultimately show ?thesis
    using spawn_spec(4,5) [OF _ _ assms(5)] by (blast intro: prefix_order.trans)
qed

theorem respawn_recovers_witness:
  "\<exists>s1 F1 (st :: (mem_server, counter) actor_state) s2.
     lives env Counter sample_ops mem_rng (base_dir sample_context) ''c1''
       [[Message (Execute Increment command_context_default), Elapsed], [Message GetState]]
       (\<lparr>mem_log = [foreign_event], mem_others = [[foreign_event]], mem_ids = 0\<rparr>, empty_disk) = Inr (s1, F1) \<and>
     synced env Counter (sample_stream s2) st"
proof -
  let ?s = "\<lparr>mem_log = [foreign_event], mem_others = [[foreign_event]], mem_ids = 0\<rparr>"
  let ?b = "base_dir sample_context"
  let ?ms = "[Message (Execute Increment command_context_default), Elapsed]"
  let ?mss = "[?ms, [Message GetState]]"
  have ne: "sample_stream ?s \<noteq> []"
    by (simp add: sample_stream_def mem_stream_def foreign_event_def capacity_def number_def)
  have set: "\<forall>K. stream_id K = stream_uuid env (AGGREGATE_TYPE Counter) ''c1'' \<longrightarrow>
      actor_setting env Counter sample_ops mem_rng K sample_stream"
    using sample_setting by blast
  obtain K st w where a: "spawn_state env Counter sample_ops ?b ''c1'' ?s empty_disk = (Inr (K, st), w)"
    using sample_spawn [OF io_fails_empty_disk] by blast
  obtain reps status st' where r: "run_actor env Counter sample_ops mem_rng K ?ms st = (reps, status, st')"
    by (metis prod_cases3)
  have K: "stream_id K = stream_uuid env (AGGREGATE_TYPE Counter) ''c1''" "disk st = empty_disk"
    "actor_inv env Counter sample_stream st"
    using spawn_spec [OF sample_contract disk_inv_empty a] by (auto simp: actor_inv_def)
  obtain r1 st1 where e: "execute_with_retry env Counter sample_ops mem_rng K Increment
      command_context_default st = (r1, st1)" by fastforce
  note ex = execute_with_retry_spec [OF sample_setting [OF K(1)] K(3) e]
  have "st' = st1 \<or> st' = save_on_exit env Counter K st1"
    using r e by (auto split: sum.splits fault.splits)
  then have ok: "io_fails (disk st') op p = None" for op p
    using ex(3) K(2) by auto
  then obtain K2 st2 w2 where b: "spawn_state env Counter sample_ops ?b ''c1'' (store st') (disk st') =
      (Inr (K2, st2), w2)"
    using sample_spawn [OF ok] by blast
  have "disk st2 = disk st'" using b by (auto simp: spawn_state_def Let_def split: prod.splits sum.splits option.splits)
  with ok have ok2: "io_fails (disk st2) op p = None" for op p by simp
  obtain K3 st3 w3 where c: "spawn_state env Counter sample_ops ?b ''c1'' (store st2) (disk st2) =
      (Inr (K3, st3), w3)"
    using sample_spawn [OF ok2] by blast
  have l: "lives env Counter sample_ops mem_rng ?b ''c1'' ?mss (?s, empty_disk) = Inr (store st2, disk st2)"
    using a r b by (simp del: run_actor.simps) simp
  from respawn_recovers [OF set ne disk_inv_empty l c] l show ?thesis by blast
qed

text \<open>
  C22. An actor that exits before it has seen an event saves version 0, not the absence of a
  version: its successor never applies event 0 of the stream, whoever wrote it.
\<close>

theorem idle_exit_skips_first_event:
  assumes "actor_setting E A S rng K strm" and "actor_inv E A strm st" and "stream_version st = None"
    and "\<forall>op p. io_fails (disk st) op p = None"
    and "stream_id K = stream_uuid E (AGGREGATE_TYPE A) (instance_id K)"
    and "spawn_state E A S (base_dir K) (instance_id K) s (disk (save_on_exit E A K st)) = (Inr (K', st'), s')"
  shows "agg_state st' = replay A (domain_events E A (drop 1 (strm s'))) \<and> stream_version st' \<noteq> None"
proof -
  note set = actor_settingD [OF assms(1)]
  note ld = exit_without_version [OF set(1,2) assms(2,3) assms(4) [rule_format]]
  from respawn_after_empty_exit [OF set(1,2) set(3) [unfolded assms(5)] ld assms(6)] show ?thesis
    by simp
qed

theorem idle_exit_skips_first_event_witness:
  "\<exists>K' st' s'. spawn_state env Counter sample_ops (base_dir sample_context) (instance_id sample_context)
       (mem_new [[foreign_event]]) (disk (save_on_exit env Counter sample_context (sample_actor []))) =
       (Inr (K', st'), s') \<and>
     agg_state st' = replay Counter (domain_events env Counter (drop 1 (sample_stream s')))"
proof -
  obtain K' st' s' where sp: "spawn_state env Counter sample_ops (base_dir sample_context)
      (instance_id sample_context) (mem_new [[foreign_event]])
      (disk (save_on_exit env Counter sample_context (sample_actor []))) = (Inr (K', st'), s')"
    using sample_spawn [OF io_fails_sample_exit] by blast
  have "stream_id sample_context = stream_uuid env (AGGREGATE_TYPE Counter) (instance_id sample_context)"
    by (simp add: sample_context_def)
  from idle_exit_skips_first_event [OF sample_context_setting sample_inv _ _ this sp] sp
  show ?thesis by auto
qed

text \<open>
  Such a successor cannot write the first event of its stream either: any events it returns
  for a command come after events of other clients.
\<close>

theorem idle_exit_blocks_first_write:
  assumes "actor_setting E A S rng K strm" and "actor_inv E A strm st" and "stream_version st = None"
    and "\<forall>op p. io_fails (disk st) op p = None"
    and "stream_id K = stream_uuid E (AGGREGATE_TYPE A) (instance_id K)"
    and "spawn_state E A S (base_dir K) (instance_id K) s (disk (save_on_exit E A K st)) = (Inr (K, st1), s1)"
    and "execute_with_retry E A S rng K cmd ctx st1 = (Inr des, st2)" and "des \<noteq> []"
  shows "length des < length (strm (store st2))"
proof -
  note set = actor_settingD [OF assms(1)]
  note ld = exit_without_version [OF set(1,2) assms(2,3) assms(4) [rule_format]]
  have "stream_version st1 \<noteq> None"
    using respawn_after_empty_exit(2) [OF set(1,2) set(3) [unfolded assms(5)] ld assms(6)] by simp
  from execute_not_first_writer [OF assms(1) assms(7) [unfolded execute_with_retry_def] this assms(8)]
  show ?thesis by auto
qed

theorem idle_exit_blocks_first_write_witness:
  "\<exists>st2 :: (mem_server, counter) actor_state. 1 < length (sample_stream (store st2))"
proof -
  let ?F = "disk (save_on_exit env Counter sample_context (sample_actor []))"
  let ?st1 = "\<lparr>store = mem_new [[foreign_event]], agg_state = agg_default Counter,
    stream_version = Some 0, disk = ?F\<rparr>"
  have sp: "spawn_state env Counter sample_ops (base_dir sample_context) (instance_id sample_context)
      (mem_new [[], [foreign_event]]) ?F = (Inr (sample_context, ?st1), mem_new [[foreign_event]])"
    using sample_respawn [OF sample_exit_load] by simp
  obtain st2 where ex: "execute_with_retry env Counter sample_ops mem_rng sample_context Increment
      command_context_default ?st1 = (Inr [Incremented], st2)"
    by (simp add: sample_run foreign_event_def)
  have "stream_id sample_context = stream_uuid env (AGGREGATE_TYPE Counter) (instance_id sample_context)"
    by (simp add: sample_context_def)
  from idle_exit_blocks_first_write [OF sample_context_setting sample_inv _ _ this sp ex]
  show ?thesis by auto
qed



end
