(* ===== verification/Cursor.thy ===== *)
theory Cursor
  imports Client Storage
begin

text \<open>
  What projections and process managers have in common: both consume the global log in order
  behind a position, the next global position to read, and both skip what they have already
  consumed. The locale \<open>cursor_step\<close> is the contract of one recorded event, \<open>cursor_runner\<close>
  adds the loop over a subscription. Their lemmas say that every event of the log is consumed
  exactly once, however much of it is delivered again.
\<close>

subsection \<open>Logs and subscriptions\<close>

text \<open>
  A global log: positions increase strictly and stay below the largest \<open>u64\<close>, so that the next
  position exists.
\<close>

definition log_ok :: "recorded_event list \<Rightarrow> bool" where
  "log_ok es \<longleftrightarrow>
     sorted_wrt (\<lambda>a b. re_global_position a < re_global_position b) es \<and>
     (\<forall>r \<in> set es. re_global_position r \<noteq> u64_MAX)"

text \<open>The events a subscription yields up to its \<open>CaughtUp\<close> marker, its first error or its end.\<close>

fun delivered :: "sub_stream \<Rightarrow> recorded_event list" where
  "delivered [] = []"
| "delivered (Inl st # items) = []"
| "delivered (Inr resp # items) =
     (case content resp of
        Some (Event r) \<Rightarrow> r # delivered items
      | Some CaughtUp \<Rightarrow> []
      | None \<Rightarrow> delivered items)"

text \<open>The error that ends it before a \<open>CaughtUp\<close> marker, if any.\<close>

fun failure :: "sub_stream \<Rightarrow> status option" where
  "failure [] = None"
| "failure (Inl st # items) = Some st"
| "failure (Inr resp # items) =
     (case content resp of
        Some CaughtUp \<Rightarrow> None
      | _ \<Rightarrow> failure items)"

lemma log_ok_append:
  "log_ok (es @ fs) \<longleftrightarrow> log_ok es \<and> log_ok fs \<and>
    (\<forall>a \<in> set es. \<forall>b \<in> set fs. re_global_position a < re_global_position b)"
  by (auto simp: log_ok_def sorted_wrt_append)

lemma log_ok_prefix: "log_ok es \<Longrightarrow> prefix fs es \<Longrightarrow> log_ok fs"
  by (auto simp: prefix_def log_ok_append)

lemma less_Suc_u64: "(a::u64) \<noteq> u64_MAX \<Longrightarrow> b < a + 1 \<longleftrightarrow> b \<le> a"
  by (simp add: word_less_nat_alt word_le_nat_alt unat_Suc_u64 less_Suc_eq_le)

lemma next_le_u64: "(a::u64) \<noteq> u64_MAX \<Longrightarrow> a < b \<Longrightarrow> a + 1 \<le> b"
  by (simp add: word_less_nat_alt word_le_nat_alt unat_Suc_u64)

text \<open>
  What the crate relies on of a subscription from \<open>pos\<close>: the log in order, without a gap, from
  a point at or before \<open>pos\<close>; \<open>delivers_part\<close> when it may stop early.
\<close>

definition delivers_part :: "recorded_event list \<Rightarrow> u64 \<Rightarrow> sub_stream \<Rightarrow> bool" where
  "delivers_part log pos items \<longleftrightarrow>
     (\<exists>k n. delivered items = take n (drop k log) \<and> (\<forall>r \<in> set (take k log). re_global_position r < pos))"

definition delivers :: "recorded_event list \<Rightarrow> u64 \<Rightarrow> sub_stream \<Rightarrow> bool" where
  "delivers log pos items \<longleftrightarrow>
     (\<exists>k. delivered items = drop k log \<and> (\<forall>r \<in> set (take k log). re_global_position r < pos))"

definition end_position :: "recorded_event list \<Rightarrow> u64" where
  "end_position es = (if es = [] then 0 else re_global_position (last es) + 1)"

lemma before_end:
  assumes "log_ok es" and "r \<in> set es"
  shows "re_global_position r < end_position es"
proof (cases es rule: rev_cases)
  case Nil
  with assms(2) show ?thesis by simp
next
  case (snoc as l)
  with assms(1) have "log_ok as \<and> log_ok [l] \<and>
      (\<forall>a \<in> set as. \<forall>b \<in> set [l]. re_global_position a < re_global_position b)"
    using snoc log_ok_append [of as "[l]"] by blast
  with snoc assms(2) have "re_global_position r \<le> re_global_position l" "re_global_position l \<noteq> u64_MAX"
    by (auto simp: log_ok_def)
  with snoc show ?thesis by (simp add: end_position_def less_Suc_u64)
qed

lemma after_end:
  assumes "log_ok (es @ fs)" and "r \<in> set fs"
  shows "end_position es \<le> re_global_position r"
proof (cases es rule: rev_cases)
  case Nil
  then show ?thesis by (simp add: end_position_def)
next
  case (snoc as l)
  with assms(1) have "log_ok es \<and> log_ok fs \<and>
      (\<forall>a \<in> set es. \<forall>b \<in> set fs. re_global_position a < re_global_position b)"
    using log_ok_append [of es fs] by blast
  with snoc assms(2) have "re_global_position l < re_global_position r" "re_global_position l \<noteq> u64_MAX"
    by (auto simp: log_ok_def)
  with snoc show ?thesis by (simp add: end_position_def next_le_u64)
qed

lemma delivered_from:
  assumes "log_ok (es @ fs)" and "\<forall>r \<in> set (take k (es @ fs)). re_global_position r < end_position es"
  shows "drop k (es @ fs) = drop k es @ fs"
proof -
  have "k \<le> length es \<or> fs = []"
  proof (rule ccontr)
    assume "\<not> (k \<le> length es \<or> fs = [])"
    then obtain f fs' where "fs = f # fs'" "f \<in> set (take k (es @ fs))"
      by (cases fs; cases "k - length es") auto
    then have "re_global_position f < end_position es" "f \<in> set fs" using assms(2) by auto
    with after_end [OF assms(1), of f] show False by simp
  qed
  then show ?thesis by auto
qed

subsection \<open>Consuming one event\<close>

locale cursor_step =
  fixes E :: ext
    and consume :: "'s \<Rightarrow> stored_event \<Rightarrow> 's \<times> 'o list"
    and step :: "recorded_event \<Rightarrow> 's \<times> u64 \<Rightarrow> ('s \<times> u64) \<times> 'o list"
  assumes step_old: "re_global_position r < pos \<Longrightarrow> step r (x, pos) = ((x, pos), [])"
    and step_new: "pos \<le> re_global_position r \<Longrightarrow>
      step r (x, pos) =
        (case decode_stored_event E r of
           None \<Rightarrow> ((x, re_global_position r + 1), [])
         | Some s \<Rightarrow> ((fst (consume x s), re_global_position r + 1), snd (consume x s)))"
begin

text \<open>The events in turn, with everything they produce.\<close>

fun consume_all :: "recorded_event list \<Rightarrow> 's \<times> u64 \<Rightarrow> ('s \<times> u64) \<times> 'o list" where
  "consume_all [] c = (c, [])"
| "consume_all (r # es) c =
     (let (c', out) = step r c; (c'', outs) = consume_all es c' in (c'', out @ outs))"

text \<open>What the log means: its decodable events consumed in order from the initial state.\<close>

fun meaning :: "recorded_event list \<Rightarrow> 's \<Rightarrow> 's \<times> 'o list" where
  "meaning [] x = (x, [])"
| "meaning (r # es) x =
     (case decode_stored_event E r of
        None \<Rightarrow> meaning es x
      | Some s \<Rightarrow> (let (x', out) = consume x s; (x'', outs) = meaning es x' in (x'', out @ outs)))"

lemma consume_all_append:
  "consume_all (es @ fs) c =
     (let (c', out) = consume_all es c; (c'', outs) = consume_all fs c' in (c'', out @ outs))"
  by (induction es arbitrary: c) (auto simp: Let_def split: prod.splits)

lemma meaning_append:
  "meaning (es @ fs) x =
     (let (x', out) = meaning es x; (x'', outs) = meaning fs x' in (x'', out @ outs))"
  by (induction es arbitrary: x) (auto simp: Let_def split: prod.splits option.splits)

text \<open>What is behind the position is skipped: delivering it again changes nothing.\<close>

lemma consume_all_old:
  "\<forall>r \<in> set es. re_global_position r < snd c \<Longrightarrow> consume_all es c = (c, [])"
  by (cases c; induction es) (auto simp: step_old)

lemma consume_all_new:
  assumes "log_ok es" and "\<forall>r \<in> set es. pos \<le> re_global_position r"
  shows "consume_all es (x, pos) =
    ((fst (meaning es x), if es = [] then pos else end_position es), snd (meaning es x))"
  using assms
proof (induction es arbitrary: x pos)
  case Nil
  then show ?case by simp
next
  case (Cons r es)
  let ?x = "case decode_stored_event E r of None \<Rightarrow> x | Some s \<Rightarrow> fst (consume x s)"
  let ?out = "case decode_stored_event E r of None \<Rightarrow> [] | Some s \<Rightarrow> snd (consume x s)"
  let ?pos = "re_global_position r + 1"
  have st: "step r (x, pos) = ((?x, ?pos), ?out)"
    using Cons.prems(2) step_new by (auto split: option.splits)
  have "\<forall>q \<in> set es. ?pos \<le> re_global_position q"
    using Cons.prems(1) by (auto simp: log_ok_def next_le_u64)
  then have "consume_all es (?x, ?pos) =
      ((fst (meaning es ?x), if es = [] then ?pos else end_position es), snd (meaning es ?x))"
    using Cons.prems(1) by (intro Cons.IH) (auto simp: log_ok_def)
  with st show ?case
    by (auto simp: Let_def end_position_def split: option.splits prod.splits)
qed

text \<open>The invariant: the state is the meaning of a prefix of the log, the position its end.\<close>

definition reached :: "'s \<Rightarrow> recorded_event list \<Rightarrow> 's \<times> u64 \<Rightarrow> bool" where
  "reached x0 es c \<longleftrightarrow> c = (fst (meaning es x0), end_position es)"

text \<open>
  The main lemma: from the end of \<open>es\<close>, a delivery that starts anywhere in \<open>es\<close> and goes on to
  the end of \<open>es @ fs\<close> consumes exactly \<open>fs\<close>.
\<close>

lemma consume_overlap:
  assumes "log_ok (es @ fs)" and "reached x0 es c"
  shows "consume_all (drop k es @ fs) c =
      ((fst (meaning (es @ fs) x0), end_position (es @ fs)), snd (meaning fs (fst c)))"
proof -
  have "\<forall>r \<in> set (drop k es). re_global_position r < snd c"
    using assms before_end by (auto simp: reached_def log_ok_append dest: in_set_dropD)
  then have old: "consume_all (drop k es) c = (c, [])" by (rule consume_all_old)
  have "\<forall>r \<in> set fs. snd c \<le> re_global_position r"
    using assms after_end by (auto simp: reached_def)
  moreover have "log_ok fs" using assms(1) by (simp add: log_ok_append)
  ultimately have "consume_all fs c =
      ((fst (meaning fs (fst c)), if fs = [] then snd c else end_position fs), snd (meaning fs (fst c)))"
    using consume_all_new [of fs "snd c" "fst c"] by simp
  with old assms(2) show ?thesis
    by (auto simp: consume_all_append meaning_append reached_def end_position_def Let_def
        split: prod.splits)
qed

lemma consume_delivers:
  assumes "log_ok (es @ fs)" and "reached x0 es c" and "delivers (es @ fs) (snd c) items"
  shows "consume_all (delivered items) c =
      ((fst (meaning (es @ fs) x0), end_position (es @ fs)), snd (meaning fs (fst c)))"
  using assms consume_overlap [OF assms(1,2)] delivered_from [OF assms(1)]
  by (auto simp: delivers_def reached_def)

text \<open>A delivery that stops early leaves the state at a prefix of the log between the two.\<close>

lemma consume_delivers_part:
  assumes "log_ok (es @ fs)" and "reached x0 es c" and "delivers_part (es @ fs) (snd c) items"
  shows "\<exists>gs hs. fs = gs @ hs \<and> reached x0 (es @ gs) (fst (consume_all (delivered items) c)) \<and>
    snd (consume_all (delivered items) c) = snd (meaning gs (fst c))"
proof -
  obtain k n where kn: "delivered items = take n (drop k es @ fs)"
    using assms delivered_from [OF assms(1)] by (auto simp: delivers_part_def reached_def)
  show ?thesis
  proof (cases "n \<le> length (drop k es)")
    case True
    then have "\<forall>r \<in> set (delivered items). re_global_position r < snd c"
      using kn assms(1,2) before_end
      by (auto simp: reached_def log_ok_append dest: in_set_takeD in_set_dropD)
    then have "consume_all (delivered items) c = (c, [])" by (rule consume_all_old)
    with assms(2) show ?thesis by - (rule exI [of _ "[]"], rule exI [of _ fs], simp)
  next
    case False
    let ?gs = "take (n - length (drop k es)) fs"
    have "log_ok (es @ ?gs)"
      using assms(1) by (rule log_ok_prefix) (simp add: take_is_prefix)
    from consume_overlap [OF this assms(2), of k] kn False show ?thesis
      by (intro exI [of _ ?gs] exI [of _ "drop (n - length (drop k es)) fs"]) (auto simp: reached_def)
  qed
qed

text \<open>
  One more event of the log, at index \<open>k\<close>, for a cursor that has everything before it: either it
  is behind the position and nothing happens, or it is the next one and is consumed.
\<close>

lemma step_next:
  assumes "log_ok log" and "prefix es log" and "reached x0 es c" and "k < length log"
    and "\<forall>r \<in> set (take k log). re_global_position r < snd c"
  shows "k < length es \<and> step (log ! k) c = (c, []) \<or>
    k = length es \<and> reached x0 (take (Suc k) log) (fst (step (log ! k) c)) \<and>
    snd (step (log ! k) c) = snd (meaning [log ! k] (fst c))"
proof -
  obtain fs where log: "log = es @ fs" using assms(2) by (auto simp: prefix_def)
  obtain x pos where c: "c = (x, pos)" by fastforce
  have pos: "pos = end_position es" using assms(3) c by (simp add: reached_def)
  show ?thesis
  proof (cases "k < length es")
    case True
    then have "re_global_position (log ! k) < pos"
      using before_end [of es "es ! k"] log_ok_prefix [OF assms(1,2)] pos by (simp add: log nth_append)
    with True c show ?thesis by (simp add: step_old)
  next
    case False
    have k: "k = length es"
    proof (rule ccontr)
      assume "k \<noteq> length es"
      then have "length es < k" using False by simp
      then have f: "fs \<noteq> []" "hd fs \<in> set (take k log)"
        using assms(4) by (cases fs; cases "k - length es"; simp add: log)+
      have "end_position es \<le> re_global_position (hd fs)"
        by (rule after_end) (use assms(1) f(1) log in auto)
      with f(2) assms(5) pos c show False by auto
    qed
    with assms(4) log have r: "log ! k \<in> set fs" "take (Suc k) log = es @ [log ! k]"
      by (simp_all add: take_Suc_conv_app_nth nth_append)
    then have "pos \<le> re_global_position (log ! k)" using after_end assms(1) log pos by metis
    note st = step_new [OF this, of x]
    then have "consume_all [log ! k] c =
        ((fst (meaning [log ! k] x), re_global_position (log ! k) + 1), snd (meaning [log ! k] x))"
      using c by (auto simp: Let_def split_beta split: option.split)
    then have "step (log ! k) c =
        ((fst (meaning [log ! k] x), re_global_position (log ! k) + 1), snd (meaning [log ! k] x))"
      by (auto simp: Let_def split_beta)
    with k c assms(3) r(2) show ?thesis
      by (simp add: reached_def end_position_def meaning_append Let_def split_beta)
  qed
qed

lemma reached_start: "reached x0 [] (x0, 0)"
  by (simp add: reached_def end_position_def)

end

subsection \<open>Consuming a subscription\<close>

locale cursor_runner = cursor_step E consume step
  for E :: ext
    and consume :: "'s \<Rightarrow> stored_event \<Rightarrow> 's \<times> 'o list"
    and step :: "recorded_event \<Rightarrow> 's \<times> u64 \<Rightarrow> ('s \<times> u64) \<times> 'o list" +
  fixes process :: "'s \<times> u64 \<Rightarrow> sub_stream \<Rightarrow> (io_error + 'o list) \<times> ('s \<times> u64)"
  assumes process_eq: "process c items =
      (case failure items of
         Some st \<Rightarrow> (Inl (io_error_other (''subscribe stream error: '' @ status_to_string E st)),
           fst (consume_all (delivered items) c))
       | None \<Rightarrow> (Inr (snd (consume_all (delivered items) c)),
           fst (consume_all (delivered items) c)))"
begin

text \<open>
  A catch-up that ends without an error reaches the end of what was delivered, and yields what
  the new events produce; one that fails keeps the invariant but yields nothing.
\<close>

lemma process_catches_up:
  assumes "log_ok (es @ fs)" and "reached x0 es c" and "delivers (es @ fs) (snd c) items"
    and "failure items = None"
  shows "process c items = (Inr (snd (meaning fs (fst c))), (fst (meaning (es @ fs) x0), end_position (es @ fs)))"
  using consume_delivers [OF assms(1-3)] assms(4) by (simp add: process_eq)

lemma process_part:
  assumes "log_ok (es @ fs)" and "reached x0 es c" and "delivers_part (es @ fs) (snd c) items"
    and "process c items = (r, c')"
  shows "\<exists>gs hs. fs = gs @ hs \<and> reached x0 (es @ gs) c' \<and>
    (case r of Inr out \<Rightarrow> out = snd (meaning gs (fst c)) | Inl _ \<Rightarrow> failure items \<noteq> None)"
  using consume_delivers_part [OF assms(1-3)] assms(4)
  by (auto simp: process_eq split: option.splits)

end

subsection \<open>Checkpoint files\<close>

text \<open>
  \<open>{ "state": \<dots>, "last_global_position": N }\<close> and the file it is kept in, as both checkpoints
  write and read them.
\<close>

definition checkpoint_to_value :: "string + json \<Rightarrow> u64 \<Rightarrow> string + json" where
  "checkpoint_to_value x n =
     (case x of
        Inl e \<Rightarrow> Inl e
      | Inr v \<Rightarrow> Inr (json_object [(''state'', v), (''last_global_position'', JNumber (PosInt n))]))"

definition pretty_bytes :: "ext \<Rightarrow> string + json \<Rightarrow> io_error + bytes" where
  "pretty_bytes E x =
     (case x of
        Inl e \<Rightarrow> Inl (io_error_other e)
      | Inr v \<Rightarrow>
          (case json_to_vec_pretty E v of Inl e \<Rightarrow> Inl (io_error_other e) | Inr bs \<Rightarrow> Inr bs))"

definition checkpoint_path :: "path \<Rightarrow> path" where
  "checkpoint_path dir = path_join dir ''checkpoint.json''"

definition checkpoint_tmp_path :: "path \<Rightarrow> path" where
  "checkpoint_tmp_path dir = path_join dir ''checkpoint.json.tmp''"

definition read_checkpoint ::
  "ext \<Rightarrow> (json \<Rightarrow> string + 'p) \<Rightarrow> path \<Rightarrow> fs \<Rightarrow> io_error + ('p \<times> u64) option" where
  "read_checkpoint E state_of dir F =
     (case fs_read_to_string (checkpoint_path dir) F of
        Inl e \<Rightarrow> if kind e = NotFound then Inr None else Inl e
      | Inr text \<Rightarrow>
          (case json_from_str E text of
             Inl _ \<Rightarrow> Inr None
           | Inr v \<Rightarrow>
               (case (field_from_value state_of ''state'' v,
                      field_from_value u64_from_value ''last_global_position'' v) of
                  (Inr x, Inr n) \<Rightarrow> Inr (Some (x, n))
                | _ \<Rightarrow> Inr None)))"

lemma checkpoint_paths_differ: "checkpoint_tmp_path dir \<noteq> checkpoint_path dir"
proof
  assume "checkpoint_tmp_path dir = checkpoint_path dir"
  then have "comps (checkpoint_tmp_path dir) = comps (checkpoint_path dir)" by simp
  then show False by (simp add: checkpoint_tmp_path_def checkpoint_path_def path_join_simple)
qed

lemma read_checkpoint_cong:
  "files F (checkpoint_path dir) = files G (checkpoint_path dir) \<Longrightarrow>
    io_fails F OpRead (checkpoint_path dir) = io_fails G OpRead (checkpoint_path dir) \<Longrightarrow>
    read_checkpoint E f dir F = read_checkpoint E f dir G"
  by (simp add: read_checkpoint_def fs_read_to_string_def fs_read_cong [of F _ G])

lemma read_checkpoint_missing:
  "files F (checkpoint_path dir) = None \<Longrightarrow> io_fails F OpRead (checkpoint_path dir) = None \<Longrightarrow>
    read_checkpoint E f dir F = Inr None"
  by (simp add: read_checkpoint_def fs_read_to_string_def fs_read_def io_error_new_def)

lemma read_checkpoint_good:
  assumes "ext_ok E" and "to_v = Inr v" and "json_wf v" and "f v = Inr x"
    and "pretty_bytes E (checkpoint_to_value to_v n) = Inr bs"
    and "files F (checkpoint_path dir) = Some bs" and "io_fails F OpRead (checkpoint_path dir) = None"
  shows "read_checkpoint E f dir F = Inr (Some (x, n))"
proof -
  let ?v = "json_object [(''state'', v), (''last_global_position'', JNumber (PosInt n))]"
  have "json_wf ?v" using assms(3) by (intro json_wf_object) (auto simp: byte_in_def)
  with assms(1) obtain bs' where "json_to_vec_pretty E ?v = Inr bs'" "utf8_valid bs'"
    "json_from_str E bs' = Inr ?v"
    by (rule ext_ok_pretty)
  moreover from this assms(2,5) have "bs' = bs"
    by (simp add: pretty_bytes_def checkpoint_to_value_def)
  ultimately show ?thesis
    using assms(4,6,7)
    by (simp add: read_checkpoint_def fs_read_to_string_def fs_read_def from_utf8_def
        field_from_value_def json_object_def)
qed

lemma checkpoint_path_inj: "checkpoint_path d = checkpoint_path d' \<Longrightarrow> d = d'"
  by (cases d; cases d') (simp add: checkpoint_path_def path_join_simple)

lemma checkpoint_tmp_path_other: "checkpoint_tmp_path d \<noteq> checkpoint_path d'"
proof
  assume "checkpoint_tmp_path d = checkpoint_path d'"
  then have "last (comps (checkpoint_tmp_path d)) = last (comps (checkpoint_path d'))" by simp
  then show False by (simp add: checkpoint_path_def checkpoint_tmp_path_def path_join_simple)
qed

lemma checkpoint_tmp_parent: "path_parent (checkpoint_tmp_path dir) = Some dir"
  by (simp add: checkpoint_tmp_path_def path_join_simple path_parent_def)

text \<open>A good checkpoint is saved on a disk that fails no operation.\<close>

lemma pretty_bytes_good:
  assumes "ext_ok E" and "x = Inr v" and "json_wf v"
  shows "\<exists>bs. pretty_bytes E (checkpoint_to_value x n) = Inr bs"
proof -
  let ?v = "json_object [(''state'', v), (''last_global_position'', JNumber (PosInt n))]"
  have "json_wf ?v" using assms(3) by (intro json_wf_object) (auto simp: byte_in_def)
  with assms(1) obtain bs where "json_to_vec_pretty E ?v = Inr bs"
    by (rule ext_ok_pretty)
  with assms(2) show ?thesis by (simp add: pretty_bytes_def checkpoint_to_value_def)
qed

end
