(* ===== verification/Process_Manager.thy ===== *)
theory Process_Manager
  imports Cursor
begin

text \<open>
  \<^verbatim>\<open>src/process_manager.rs\<close>: consumers of the global log that produce commands. Unlike a
  projection's, their catch-up does not save the checkpoint; the envelopes it returns are
  dispatched first. The dead-letter log and the saga of the test fixtures are here too.
\<close>

record 'p process_manager =
  PM_NAME :: string
  pm_default :: 'p
  react :: "'p \<Rightarrow> stored_event \<Rightarrow> 'p \<times> command_envelope list"
  pm_to_value :: "'p \<Rightarrow> string + json"
  pm_from_value :: "json \<Rightarrow> string + 'p"

record 'p pm_checkpoint =
  pmc_state :: 'p
  pmc_last_global_position :: u64

definition pm_checkpoint_default :: "'p process_manager \<Rightarrow> 'p pm_checkpoint" where
  "pm_checkpoint_default P = \<lparr>pmc_state = pm_default P, pmc_last_global_position = 0\<rparr>"

subsection \<open>The checkpoint file\<close>

definition pm_checkpoint_bytes ::
  "ext \<Rightarrow> 'p process_manager \<Rightarrow> 'p pm_checkpoint \<Rightarrow> io_error + bytes" where
  "pm_checkpoint_bytes E P ck =
     pretty_bytes E (checkpoint_to_value (pm_to_value P (pmc_state ck)) (pmc_last_global_position ck))"

definition save_pm_checkpoint ::
  "ext \<Rightarrow> 'p process_manager \<Rightarrow> path \<Rightarrow> 'p pm_checkpoint \<Rightarrow> fs \<Rightarrow> (io_error + unit) \<times> fs" where
  "save_pm_checkpoint E P dir ck F =
     write_and_rename dir (checkpoint_tmp_path dir) (checkpoint_path dir) (pm_checkpoint_bytes E P ck) F"

definition load_pm_checkpoint ::
  "ext \<Rightarrow> 'p process_manager \<Rightarrow> path \<Rightarrow> fs \<Rightarrow> io_error + 'p pm_checkpoint option" where
  "load_pm_checkpoint E P dir F =
     (case read_checkpoint E (pm_from_value P) dir F of
        Inl e \<Rightarrow> Inl e
      | Inr None \<Rightarrow> Inr None
      | Inr (Some (x, n)) \<Rightarrow> Inr (Some \<lparr>pmc_state = x, pmc_last_global_position = n\<rparr>))"

subsection \<open>The runner\<close>

record 'p pm_runner =
  pm_checkpoint :: "'p pm_checkpoint"
  pm_checkpoint_dir :: path

definition pm_runner_new ::
  "ext \<Rightarrow> 'p process_manager \<Rightarrow> path \<Rightarrow> fs \<Rightarrow> io_error + 'p pm_runner" where
  "pm_runner_new E P dir F =
     (case load_pm_checkpoint E P dir F of
        Inl e \<Rightarrow> Inl e
      | Inr ck \<Rightarrow>
          Inr \<lparr>pm_checkpoint = (case ck of Some c \<Rightarrow> c | None \<Rightarrow> pm_checkpoint_default P),
               pm_checkpoint_dir = dir\<rparr>)"

definition react_recorded_event ::
  "ext \<Rightarrow> 'p process_manager \<Rightarrow> recorded_event \<Rightarrow> 'p \<times> u64
    \<Rightarrow> ('p \<times> u64) \<times> command_envelope list" where
  "react_recorded_event E P recorded = (\<lambda>(state, last_global_position).
     if re_global_position recorded < last_global_position then ((state, last_global_position), [])
     else
       (let next_position = re_global_position recorded + 1;
            (state', produced) =
              (case decode_stored_event E recorded of
                 Some stored \<Rightarrow> react P state stored
               | None \<Rightarrow> (state, []))
        in ((state', next_position), produced)))"

text \<open>\<open>envelopes\<close> is the vector collected so far.\<close>

fun pm_process_stream ::
  "ext \<Rightarrow> 'p process_manager \<Rightarrow> sub_stream \<Rightarrow> command_envelope list \<Rightarrow> 'p pm_checkpoint
    \<Rightarrow> (io_error + command_envelope list) \<times> 'p pm_checkpoint" where
  "pm_process_stream E P [] envelopes ck = (Inr envelopes, ck)"
| "pm_process_stream E P (Inl st # items) envelopes ck =
     (Inl (io_error_other (''subscribe stream error: '' @ status_to_string E st)), ck)"
| "pm_process_stream E P (Inr resp # items) envelopes ck =
     (case content resp of
        Some (Event recorded) \<Rightarrow>
          (let ((x, n), produced) =
             react_recorded_event E P recorded (pmc_state ck, pmc_last_global_position ck)
           in pm_process_stream E P items (envelopes @ produced)
                \<lparr>pmc_state = x, pmc_last_global_position = n\<rparr>)
      | Some CaughtUp \<Rightarrow> (Inr envelopes, ck)
      | None \<Rightarrow> pm_process_stream E P items envelopes ck)"

definition pm_catch_up ::
  "ext \<Rightarrow> 'p process_manager \<Rightarrow> 'w rpc \<Rightarrow> es_client \<Rightarrow> 'p pm_runner \<Rightarrow> 'w
    \<Rightarrow> (io_error + command_envelope list) \<times> 'p pm_runner \<times> 'w" where
  "pm_catch_up E P R c rn w =
     (case es_subscribe_all_from E R c (pmc_last_global_position (pm_checkpoint rn)) w of
        (Inl st, w') \<Rightarrow>
          (Inl (io_error_other (''subscribe_all_from failed: '' @ status_to_string E st)), rn, w')
      | (Inr stream, w') \<Rightarrow>
          (case pm_process_stream E P stream [] (pm_checkpoint rn) of
             (r, ck) \<Rightarrow> (r, rn\<lparr>pm_checkpoint := ck\<rparr>, w')))"

definition pm_react_event ::
  "ext \<Rightarrow> 'p process_manager \<Rightarrow> recorded_event \<Rightarrow> 'p pm_runner
    \<Rightarrow> 'p pm_runner \<times> command_envelope list" where
  "pm_react_event E P recorded rn =
     (let ((x, n), produced) = react_recorded_event E P recorded
            (pmc_state (pm_checkpoint rn), pmc_last_global_position (pm_checkpoint rn))
      in (rn\<lparr>pm_checkpoint := \<lparr>pmc_state = x, pmc_last_global_position = n\<rparr>\<rparr>, produced))"

definition pm_position :: "'p pm_runner \<Rightarrow> u64" where
  "pm_position rn = pmc_last_global_position (pm_checkpoint rn)"

definition pm_save ::
  "ext \<Rightarrow> 'p process_manager \<Rightarrow> 'p pm_runner \<Rightarrow> fs \<Rightarrow> (io_error + unit) \<times> fs" where
  "pm_save E P rn F = save_pm_checkpoint E P (pm_checkpoint_dir rn) (pm_checkpoint rn) F"

definition dead_letter_path :: "'p pm_runner \<Rightarrow> path" where
  "dead_letter_path rn = path_join (pm_checkpoint_dir rn) ''dead_letters.jsonl''"

subsection \<open>The dead-letter log\<close>

record dead_letter_entry =
  dl_envelope :: command_envelope
  dl_error :: string
  dl_ts :: u64

definition dead_letter_to_value :: "dead_letter_entry \<Rightarrow> json" where
  "dead_letter_to_value d =
     json_object
       [(''envelope'', envelope_to_value (dl_envelope d)), (''error'', JString (dl_error d)),
        (''ts'', JNumber (PosInt (dl_ts d)))]"

text \<open>\<open>now\<close> is the clock: the seconds since the epoch, \<open>None\<close> before it.\<close>

definition append_dead_letter ::
  "ext \<Rightarrow> u64 option \<Rightarrow> path \<Rightarrow> command_envelope \<Rightarrow> string \<Rightarrow> fs \<Rightarrow> (io_error fault + unit) \<times> fs" where
  "append_dead_letter E now path envelope err F =
     (case now of
        None \<Rightarrow> (Inl (Panicked ''system clock is before Unix epoch''), F)
      | Some ts \<Rightarrow>
          (case json_to_vec E (dead_letter_to_value
                  \<lparr>dl_envelope = envelope, dl_error = err, dl_ts = ts\<rparr>) of
             Inl e \<Rightarrow> (Inl (Raised (io_error_other e)), F)
           | Inr json \<Rightarrow>
               (case (case path_parent path of Some d \<Rightarrow> create_dir_all d F | None \<Rightarrow> (Inr (), F)) of
                  (Inl e, F1) \<Rightarrow> (Inl (Raised e), F1)
                | (Inr _, F1) \<Rightarrow>
                    (case fs_append_line path json F1 of
                       (Inl e, F2) \<Rightarrow> (Inl (Raised e), F2)
                     | (Inr _, F2) \<Rightarrow> (Inr (), F2)))))"

record process_manager_report =
  dispatched :: nat
  dead_lettered :: nat

definition report_default :: process_manager_report where
  "report_default = \<lparr>dispatched = 0, dead_lettered = 0\<rparr>"

subsection \<open>The saga of the test fixtures\<close>

record echo_saga =
  events_seen :: u64

definition echo_react :: "echo_saga \<Rightarrow> stored_event \<Rightarrow> echo_saga \<times> command_envelope list" where
  "echo_react s event =
     (if se_aggregate_type event \<noteq> ''counter'' then (s, [])
      else
        (let s' = s\<lparr>events_seen := events_seen s + 1\<rparr>
         in (s', [\<lparr>env_aggregate_type = ''target'', env_instance_id = se_instance_id event,
                   env_command = json_object [(''source_event_type'', JString (se_event_type event))],
                   env_context = with_correlation_id (''echo-'' @ decimal (unat (events_seen s')))
                     command_context_default\<rparr>])))"

definition EchoSaga :: "echo_saga process_manager" where
  "EchoSaga =
     \<lparr>PM_NAME = ''echo-saga'', pm_default = \<lparr>events_seen = 0\<rparr>, react = echo_react,
      pm_to_value = (\<lambda>s. Inr (json_object [(''events_seen'', JNumber (PosInt (events_seen s)))])),
      pm_from_value = (\<lambda>v. case field_from_value u64_from_value ''events_seen'' v of
         Inl e \<Rightarrow> Inl e | Inr n \<Rightarrow> Inr \<lparr>events_seen = n\<rparr>)\<rparr>"

subsection \<open>The contracts\<close>

definition pm_good :: "ext \<Rightarrow> 'p process_manager \<Rightarrow> 'p pm_checkpoint \<Rightarrow> bool" where
  "pm_good E P ck \<longleftrightarrow> ext_ok E \<and>
     (\<exists>v. pm_to_value P (pmc_state ck) = Inr v \<and> json_wf v \<and> pm_from_value P v = Inr (pmc_state ck))"

interpretation pm_file: checkpoint_file
  "checkpoint_path dir" "checkpoint_tmp_path dir" "pm_checkpoint_bytes E P" "save_pm_checkpoint E P dir"
  "load_pm_checkpoint E P dir" "pm_good E P"
  for E :: ext and P :: "'p process_manager" and dir :: path
proof (unfold_locales, goal_cases)
  case 1
  show ?case by (rule checkpoint_paths_differ)
next
  case (2 c F u F')
  then show ?case
    unfolding save_pm_checkpoint_def by (rule write_and_rename_Inr [OF _ checkpoint_paths_differ])
next
  case (3 c F e F')
  then show ?case unfolding save_pm_checkpoint_def by (rule write_and_rename_Inl)
next
  case (4 F G)
  then show ?case by (simp add: load_pm_checkpoint_def read_checkpoint_cong [of F _ G])
next
  case (5 c bs F)
  then obtain v where "ext_ok E" "pm_to_value P (pmc_state c) = Inr v" "json_wf v"
    "pm_from_value P v = Inr (pmc_state c)"
    by (auto simp: pm_good_def)
  from read_checkpoint_good [where f = "pm_from_value P" and x = "pmc_state c" and
      n = "pmc_last_global_position c", OF this 5(2) [unfolded pm_checkpoint_bytes_def] 5(3,4)]
  show ?case by (simp add: load_pm_checkpoint_def)
next
  case (6 F)
  then show ?case by (simp add: load_pm_checkpoint_def read_checkpoint_missing)
qed

text \<open>The runner's loop on the pair of state and position.\<close>

definition pm_process ::
  "ext \<Rightarrow> 'p process_manager \<Rightarrow> 'p \<times> u64 \<Rightarrow> sub_stream
    \<Rightarrow> (io_error + command_envelope list) \<times> ('p \<times> u64)" where
  "pm_process E P c items =
     (case pm_process_stream E P items [] \<lparr>pmc_state = fst c, pmc_last_global_position = snd c\<rparr> of
        (r, ck) \<Rightarrow> (r, pmc_state ck, pmc_last_global_position ck))"

interpretation pm_cursor: cursor_step E "react P" "react_recorded_event E P" for E P
  by unfold_locales
    (auto simp: react_recorded_event_def Let_def split: option.splits prod.splits)

lemma pm_process_stream_envelopes:
  "pm_process_stream E P items envs ck =
     (case pm_process_stream E P items [] ck of
        (r, ck') \<Rightarrow> (map_sum id ((@) envs) r, ck'))"
proof (induction items arbitrary: envs ck)
  case Nil
  then show ?case by simp
next
  case (Cons item items)
  show ?case
  proof (cases item)
    case (Inl st)
    then show ?thesis by simp
  next
    case (Inr resp)
    show ?thesis
    proof (cases "\<exists>r. content resp = Some (Event r)")
      case True
      then obtain r where r: "content resp = Some (Event r)" ..
      obtain x n out where st: "react_recorded_event E P r (pmc_state ck, pmc_last_global_position ck) = ((x, n), out)"
        by (metis prod_cases3 surj_pair)
      let ?ck = "\<lparr>pmc_state = x, pmc_last_global_position = n\<rparr>"
      obtain q ck' where "pm_process_stream E P items [] ?ck = (q, ck')" by fastforce
      with Cons [of "envs @ out" ?ck] Cons [of out ?ck] Inr r st show ?thesis
        by (cases q) (simp_all add: Let_def)
    next
      case False
      then show ?thesis
        using Inr Cons.IH [of envs ck] by (auto split: option.split sub_content.split)
    qed
  qed
qed

lemma pm_process_event:
  assumes "content resp = Some (Event r)"
  shows "pm_process E P c (Inr resp # items) =
     (let (c', out) = react_recorded_event E P r c; (q, c'') = pm_process E P c' items
      in (map_sum id ((@) out) q, c''))"
proof -
  obtain x n out where "react_recorded_event E P r c = ((x, n), out)"
    by (metis prod_cases3 surj_pair)
  with assms pm_process_stream_envelopes [of E P items out "\<lparr>pmc_state = x, pmc_last_global_position = n\<rparr>"]
  show ?thesis by (simp add: pm_process_def Let_def split: prod.split)
qed

lemma pm_process_unfold:
  "pm_process E P c [] = (Inr [], c)"
  "pm_process E P c (Inl st # items) =
     (Inl (io_error_other (''subscribe stream error: '' @ status_to_string E st)), c)"
  "content resp = Some CaughtUp \<Longrightarrow> pm_process E P c (Inr resp # items) = (Inr [], c)"
  "content resp = None \<Longrightarrow> pm_process E P c (Inr resp # items) = pm_process E P c items"
  by (simp_all add: pm_process_def)

interpretation pm_loop: cursor_runner E "react P" "react_recorded_event E P" "pm_process E P" for E P
proof unfold_locales
  show "pm_process E P c items =
      (case failure items of
         Some st \<Rightarrow> (Inl (io_error_other (''subscribe stream error: '' @ status_to_string E st)),
           fst (pm_cursor.consume_all E P (delivered items) c))
       | None \<Rightarrow> (Inr (snd (pm_cursor.consume_all E P (delivered items) c)),
           fst (pm_cursor.consume_all E P (delivered items) c)))" for c items
  proof (induction items arbitrary: c)
    case Nil
    then show ?case by (simp add: pm_process_unfold)
  next
    case (Cons item items)
    show ?case
    proof (cases item)
      case (Inl st)
      then show ?thesis by (simp add: pm_process_unfold)
    next
      case (Inr resp)
      show ?thesis
      proof (cases "content resp")
        case None
        with Inr Cons.IH [of c] show ?thesis by (simp add: pm_process_unfold split: option.split)
      next
        case (Some x)
        with Inr Cons.IH [of "fst (react_recorded_event E P r c)" for r] show ?thesis
          by (cases x) (simp_all add: pm_process_unfold pm_process_event Let_def split_beta
              split: option.split)
      qed
    qed
  qed
qed

end
