(* ===== verification/Projection.thy ===== *)
theory Projection
  imports Cursor
begin

text \<open>
  \<^verbatim>\<open>src/projection.rs\<close>: read models over the global log. The trait is a record of its
  methods; the checkpoint, its file, the runner and its catch-up are translated one to one.
  \<open>cursor_runner\<close> and \<open>checkpoint_file\<close> are interpreted on them.
\<close>

record 'p projection =
  NAME :: string
  proj_default :: 'p
  proj_apply :: "'p \<Rightarrow> stored_event \<Rightarrow> 'p"
  proj_to_value :: "'p \<Rightarrow> string + json"
  proj_from_value :: "json \<Rightarrow> string + 'p"

record 'p projection_checkpoint =
  pc_state :: 'p
  pc_last_global_position :: u64

definition checkpoint_default :: "'p projection \<Rightarrow> 'p projection_checkpoint" where
  "checkpoint_default P = \<lparr>pc_state = proj_default P, pc_last_global_position = 0\<rparr>"

subsection \<open>The checkpoint file\<close>

definition checkpoint_bytes ::
  "ext \<Rightarrow> 'p projection \<Rightarrow> 'p projection_checkpoint \<Rightarrow> io_error + bytes" where
  "checkpoint_bytes E P ck =
     pretty_bytes E (checkpoint_to_value (proj_to_value P (pc_state ck)) (pc_last_global_position ck))"

definition save_checkpoint ::
  "ext \<Rightarrow> 'p projection \<Rightarrow> path \<Rightarrow> 'p projection_checkpoint \<Rightarrow> fs \<Rightarrow> (io_error + unit) \<times> fs" where
  "save_checkpoint E P dir ck F =
     write_and_rename dir (checkpoint_tmp_path dir) (checkpoint_path dir) (checkpoint_bytes E P ck) F"

definition load_checkpoint ::
  "ext \<Rightarrow> 'p projection \<Rightarrow> path \<Rightarrow> fs \<Rightarrow> io_error + 'p projection_checkpoint option" where
  "load_checkpoint E P dir F =
     (case read_checkpoint E (proj_from_value P) dir F of
        Inl e \<Rightarrow> Inl e
      | Inr None \<Rightarrow> Inr None
      | Inr (Some (x, n)) \<Rightarrow> Inr (Some \<lparr>pc_state = x, pc_last_global_position = n\<rparr>))"

subsection \<open>The runner\<close>

record 'p projection_runner =
  checkpoint :: "'p projection_checkpoint"
  checkpoint_dir :: path

definition projection_runner_new ::
  "ext \<Rightarrow> 'p projection \<Rightarrow> path \<Rightarrow> fs \<Rightarrow> io_error + 'p projection_runner" where
  "projection_runner_new E P dir F =
     (case load_checkpoint E P dir F of
        Inl e \<Rightarrow> Inl e
      | Inr ck \<Rightarrow>
          Inr \<lparr>checkpoint = (case ck of Some c \<Rightarrow> c | None \<Rightarrow> checkpoint_default P),
               checkpoint_dir = dir\<rparr>)"

definition apply_recorded_event ::
  "ext \<Rightarrow> 'p projection \<Rightarrow> recorded_event \<Rightarrow> 'p \<times> u64 \<Rightarrow> 'p \<times> u64" where
  "apply_recorded_event E P recorded = (\<lambda>(state, last_global_position).
     if re_global_position recorded < last_global_position then (state, last_global_position)
     else
       (let next_position = re_global_position recorded + 1
        in (case decode_stored_event E recorded of
              Some stored \<Rightarrow> proj_apply P state stored
            | None \<Rightarrow> state, next_position)))"

fun process_stream ::
  "ext \<Rightarrow> 'p projection \<Rightarrow> sub_stream \<Rightarrow> 'p projection_checkpoint
    \<Rightarrow> (io_error + unit) \<times> 'p projection_checkpoint" where
  "process_stream E P [] ck = (Inr (), ck)"
| "process_stream E P (Inl st # items) ck =
     (Inl (io_error_other (''subscribe stream error: '' @ status_to_string E st)), ck)"
| "process_stream E P (Inr resp # items) ck =
     (case content resp of
        Some (Event recorded) \<Rightarrow>
          (let (x, n) = apply_recorded_event E P recorded (pc_state ck, pc_last_global_position ck)
           in process_stream E P items \<lparr>pc_state = x, pc_last_global_position = n\<rparr>)
      | Some CaughtUp \<Rightarrow> (Inr (), ck)
      | None \<Rightarrow> process_stream E P items ck)"

definition projection_catch_up ::
  "ext \<Rightarrow> 'p projection \<Rightarrow> 'w rpc \<Rightarrow> es_client \<Rightarrow> 'p projection_runner \<Rightarrow> 'w \<Rightarrow> fs
    \<Rightarrow> (io_error + unit) \<times> 'p projection_runner \<times> 'w \<times> fs" where
  "projection_catch_up E P R c rn w F =
     (case es_subscribe_all_from E R c (pc_last_global_position (checkpoint rn)) w of
        (Inl st, w') \<Rightarrow>
          (Inl (io_error_other (''subscribe_all_from failed: '' @ status_to_string E st)), rn, w', F)
      | (Inr stream, w') \<Rightarrow>
          (case process_stream E P stream (checkpoint rn) of
             (Inl e, ck) \<Rightarrow> (Inl e, rn\<lparr>checkpoint := ck\<rparr>, w', F)
           | (Inr _, ck) \<Rightarrow>
               (case save_checkpoint E P (checkpoint_dir rn) ck F of
                  (Inl e, F') \<Rightarrow> (Inl e, rn\<lparr>checkpoint := ck\<rparr>, w', F')
                | (Inr _, F') \<Rightarrow> (Inr (), rn\<lparr>checkpoint := ck\<rparr>, w', F'))))"

text \<open>The type-erased interface the store and the live loop use.\<close>

definition projection_apply_event ::
  "ext \<Rightarrow> 'p projection \<Rightarrow> recorded_event \<Rightarrow> 'p projection_runner \<Rightarrow> 'p projection_runner" where
  "projection_apply_event E P recorded rn =
     (let (x, n) = apply_recorded_event E P recorded
            (pc_state (checkpoint rn), pc_last_global_position (checkpoint rn))
      in rn\<lparr>checkpoint := \<lparr>pc_state = x, pc_last_global_position = n\<rparr>\<rparr>)"

definition projection_position :: "'p projection_runner \<Rightarrow> u64" where
  "projection_position rn = pc_last_global_position (checkpoint rn)"

definition projection_save ::
  "ext \<Rightarrow> 'p projection \<Rightarrow> 'p projection_runner \<Rightarrow> fs \<Rightarrow> (io_error + unit) \<times> fs" where
  "projection_save E P rn F = save_checkpoint E P (checkpoint_dir rn) (checkpoint rn) F"

definition projection_state_any :: "'p projection_runner \<Rightarrow> 'p" where
  "projection_state_any rn = pc_state (checkpoint rn)"

subsection \<open>The contracts\<close>

definition projection_good :: "ext \<Rightarrow> 'p projection \<Rightarrow> 'p projection_checkpoint \<Rightarrow> bool" where
  "projection_good E P ck \<longleftrightarrow> ext_ok E \<and>
     (\<exists>v. proj_to_value P (pc_state ck) = Inr v \<and> json_wf v \<and> proj_from_value P v = Inr (pc_state ck))"

interpretation projection_file: checkpoint_file
  "checkpoint_path dir" "checkpoint_tmp_path dir" "checkpoint_bytes E P" "save_checkpoint E P dir"
  "load_checkpoint E P dir" "projection_good E P"
  for E :: ext and P :: "'p projection" and dir :: path
proof (unfold_locales, goal_cases)
  case 1
  show ?case by (rule checkpoint_paths_differ)
next
  case (2 c F u F')
  then show ?case
    unfolding save_checkpoint_def by (rule write_and_rename_Inr [OF _ checkpoint_paths_differ])
next
  case (3 c F e F')
  then show ?case unfolding save_checkpoint_def by (rule write_and_rename_Inl)
next
  case (4 F G)
  then show ?case by (simp add: load_checkpoint_def read_checkpoint_cong [of F _ G])
next
  case (5 c bs F)
  then obtain v where "ext_ok E" "proj_to_value P (pc_state c) = Inr v" "json_wf v"
    "proj_from_value P v = Inr (pc_state c)"
    by (auto simp: projection_good_def)
  from read_checkpoint_good [where f = "proj_from_value P" and x = "pc_state c" and
      n = "pc_last_global_position c", OF this 5(2) [unfolded checkpoint_bytes_def] 5(3,4)]
  show ?case by (simp add: load_checkpoint_def)
next
  case (6 F)
  then show ?case by (simp add: load_checkpoint_def read_checkpoint_missing)
qed

text \<open>The runner's loop on the pair of state and position.\<close>

definition projection_process ::
  "ext \<Rightarrow> 'p projection \<Rightarrow> 'p \<times> u64 \<Rightarrow> sub_stream \<Rightarrow> (io_error + unit list) \<times> ('p \<times> u64)" where
  "projection_process E P c items =
     (case process_stream E P items \<lparr>pc_state = fst c, pc_last_global_position = snd c\<rparr> of
        (r, ck) \<Rightarrow> (map_sum id (\<lambda>_. []) r, pc_state ck, pc_last_global_position ck))"

interpretation projection_cursor: cursor_step E "\<lambda>x s. (proj_apply P x s, [] :: unit list)"
  "\<lambda>r c. (apply_recorded_event E P r c, [])" for E P
  by unfold_locales (auto simp: apply_recorded_event_def Let_def split: option.splits)

lemma projection_no_output: "snd (projection_cursor.consume_all E P es c) = []"
  by (induction es arbitrary: c) (auto simp: Let_def split: prod.splits)

lemma projection_process_unfold:
  "projection_process E P c [] = (Inr [], c)"
  "projection_process E P c (Inl st # items) =
     (Inl (io_error_other (''subscribe stream error: '' @ status_to_string E st)), c)"
  "projection_process E P c (Inr resp # items) =
     (case content resp of
        Some (Event r) \<Rightarrow> projection_process E P (apply_recorded_event E P r c) items
      | Some CaughtUp \<Rightarrow> (Inr [], c)
      | None \<Rightarrow> projection_process E P c items)"
  by (simp_all add: projection_process_def Let_def split: option.splits sub_content.splits prod.splits)

interpretation projection_loop: cursor_runner E "\<lambda>x s. (proj_apply P x s, [] :: unit list)"
  "\<lambda>r c. (apply_recorded_event E P r c, [])" "projection_process E P" for E P
proof unfold_locales
  show "projection_process E P c items =
      (case failure items of
         Some st \<Rightarrow> (Inl (io_error_other (''subscribe stream error: '' @ status_to_string E st)),
           fst (projection_cursor.consume_all E P (delivered items) c))
       | None \<Rightarrow> (Inr (snd (projection_cursor.consume_all E P (delivered items) c)),
           fst (projection_cursor.consume_all E P (delivered items) c)))" for c items
    unfolding projection_no_output
  proof (induction items arbitrary: c)
    case Nil
    then show ?case by (simp add: projection_process_unfold)
  next
    case (Cons item items)
    then show ?case
      by (cases item)
        (simp_all add: projection_process_unfold Let_def split_beta split: option.split sub_content.split)
  qed
qed

end
