(* ===== verification/Example_Counter.thy ===== *)
theory Example_Counter
  imports Projection
begin

text \<open>
  \<^verbatim>\<open>examples/counter.rs\<close>: a signed counter with a reset, and the projection that counts the
  events of all counters. An \<open>i64\<close> is the 64-bit word read as signed; \<open>+=\<close> wraps as in a
  release build.
\<close>

record ex_counter =
  ex_value :: u64

datatype ex_command = ExIncrement | ExDecrement | ExReset

datatype ex_event = ExIncremented | ExDecremented | WasReset u64

datatype ex_error = ExAlreadyZero | NothingToReset

fun ex_handle :: "ex_counter \<Rightarrow> ex_command \<Rightarrow> ex_error + ex_event list" where
  "ex_handle s ExIncrement = Inr [ExIncremented]"
| "ex_handle s ExDecrement =
     (if sint (ex_value s) \<le> 0 then Inl ExAlreadyZero else Inr [ExDecremented])"
| "ex_handle s ExReset =
     (if ex_value s = 0 then Inl NothingToReset else Inr [WasReset (ex_value s)])"

fun ex_apply :: "ex_counter \<Rightarrow> ex_event \<Rightarrow> ex_counter" where
  "ex_apply s ExIncremented = s\<lparr>ex_value := ex_value s + 1\<rparr>"
| "ex_apply s ExDecremented = s\<lparr>ex_value := ex_value s - 1\<rparr>"
| "ex_apply s (WasReset previous) = s\<lparr>ex_value := 0\<rparr>"

fun ex_event_to_value :: "ex_event \<Rightarrow> json" where
  "ex_event_to_value ExIncremented = json_object [(''type'', JString ''Incremented'')]"
| "ex_event_to_value ExDecremented = json_object [(''type'', JString ''Decremented'')]"
| "ex_event_to_value (WasReset previous) =
     json_object [(''type'', JString ''WasReset''),
       (''data'', json_object [(''previous'', i64_to_value previous)])]"

definition ex_event_from_value :: "json \<Rightarrow> string + ex_event" where
  "ex_event_from_value v =
     (case value_get v ''type'' of
        Some (JString t) \<Rightarrow>
          if t = ''Incremented'' then Inr ExIncremented
          else if t = ''Decremented'' then Inr ExDecremented
          else if t = ''WasReset'' then
            (case value_get v ''data'' of
               None \<Rightarrow> Inl ''missing field `data`''
             | Some d \<Rightarrow>
                 (case field_from_value i64_from_value ''previous'' d of
                    Inl e \<Rightarrow> Inl e | Inr n \<Rightarrow> Inr (WasReset n)))
          else Inl ''unknown variant''
      | _ \<Rightarrow> Inl ''missing field `type`'')"

definition ExCounter :: "(ex_counter, ex_command, ex_event, ex_error) aggregate" where
  "ExCounter =
     \<lparr>AGGREGATE_TYPE = ''counter'',
      agg_default = \<lparr>ex_value = 0\<rparr>,
      handle = ex_handle,
      apply_event = ex_apply,
      state_to_value = (\<lambda>s. Inr (json_object [(''value'', i64_to_value (ex_value s))])),
      state_from_value = (\<lambda>v. case field_from_value i64_from_value ''value'' v of
         Inl e \<Rightarrow> Inl e | Inr n \<Rightarrow> Inr \<lparr>ex_value = n\<rparr>),
      event_to_value = (\<lambda>e. Inr (ex_event_to_value e)),
      event_from_value = ex_event_from_value\<rparr>"

lemma ex_event_tagged:
  "\<exists>t d. ex_event_to_value e = tagged_value t d \<and> utf8_valid t \<and> json_wf d \<and>
     ex_event_from_value (tagged_value t d) = Inr e"
proof (cases e)
  case ExIncremented
  then show ?thesis
    by (intro exI [of _ "''Incremented''"] exI [of _ JNull])
      (simp add: tagged_value_def is_null_def ex_event_from_value_def json_object_def byte_in_def)
next
  case ExDecremented
  then show ?thesis
    by (intro exI [of _ "''Decremented''"] exI [of _ JNull])
      (simp add: tagged_value_def is_null_def ex_event_from_value_def json_object_def byte_in_def)
next
  case (WasReset n)
  then show ?thesis
    by (intro exI [of _ "''WasReset''"] exI [of _ "json_object [(''previous'', i64_to_value n)]"])
      (simp add: tagged_value_def is_null_def ex_event_from_value_def json_object_def
        field_from_value_def byte_in_def)
qed

interpretation ex_counter_agg: adjacently_tagged ExCounter
proof unfold_locales
  show "\<exists>t d. event_to_value ExCounter e = Inr (tagged_value t d) \<and> utf8_valid t \<and> json_wf d \<and>
      event_from_value ExCounter (tagged_value t d) = Inr e" for e
    using ex_event_tagged [of e] by (simp add: ExCounter_def)
  show "\<exists>v. state_to_value ExCounter x = Inr v \<and> json_wf v \<and> state_from_value ExCounter v = Inr x" for x
    by (cases x) (simp add: ExCounter_def json_object_def field_from_value_def byte_in_def)
qed

subsection \<open>The projection\<close>

record total_counter =
  total_increments :: u64
  total_decrements :: u64
  total_resets :: u64

definition total_apply :: "total_counter \<Rightarrow> stored_event \<Rightarrow> total_counter" where
  "total_apply s event =
     (if se_aggregate_type event \<noteq> ''counter'' then s
      else if se_event_type event = ''Incremented'' then s\<lparr>total_increments := total_increments s + 1\<rparr>
      else if se_event_type event = ''Decremented'' then s\<lparr>total_decrements := total_decrements s + 1\<rparr>
      else if se_event_type event = ''WasReset'' then s\<lparr>total_resets := total_resets s + 1\<rparr>
      else s)"

definition TotalCounter :: "total_counter projection" where
  "TotalCounter =
     \<lparr>NAME = ''total-counter'',
      proj_default = \<lparr>total_increments = 0, total_decrements = 0, total_resets = 0\<rparr>,
      proj_apply = total_apply,
      proj_to_value = (\<lambda>s. Inr (json_object
        [(''total_increments'', JNumber (PosInt (total_increments s))),
         (''total_decrements'', JNumber (PosInt (total_decrements s))),
         (''total_resets'', JNumber (PosInt (total_resets s)))])),
      proj_from_value = (\<lambda>v.
        case (field_from_value u64_from_value ''total_increments'' v,
              field_from_value u64_from_value ''total_decrements'' v,
              field_from_value u64_from_value ''total_resets'' v) of
          (Inr i, Inr d, Inr r) \<Rightarrow>
            Inr \<lparr>total_increments = i, total_decrements = d, total_resets = r\<rparr>
        | (Inl e, _) \<Rightarrow> Inl e
        | (_, Inl e, _) \<Rightarrow> Inl e
        | (_, _, Inl e) \<Rightarrow> Inl e)\<rparr>"

lemma total_counter_good: "ext_ok E \<Longrightarrow> projection_good E TotalCounter ck"
proof -
  assume "ext_ok E"
  moreover have "\<exists>v. proj_to_value TotalCounter x = Inr v \<and> json_wf v \<and> proj_from_value TotalCounter v = Inr x" for x
    by (cases x) (simp add: TotalCounter_def json_object_def field_from_value_def byte_in_def)
  ultimately show "projection_good E TotalCounter ck" by (simp add: projection_good_def)
qed

subsection \<open>The signed counter never goes below zero\<close>

text \<open>
  The states a history of accepted commands reaches: each command is handled by the state the
  events so far fold to.
\<close>

fun run_commands :: "ex_counter \<Rightarrow> ex_command list \<Rightarrow> ex_counter" where
  "run_commands s [] = s"
| "run_commands s (c # cs) =
     (case ex_handle s c of
        Inl _ \<Rightarrow> run_commands s cs
      | Inr es \<Rightarrow> run_commands (foldl ex_apply s es) cs)"

lemma sint_small: "n < 2 ^ 63 \<Longrightarrow> sint (of_nat n :: u64) = int n"
  by (simp add: sint_uint unat_of_nat_u64 signed_take_bit_int_eq_self_iff flip: uint_nat)
    (simp add: signed_take_bit_int_eq_self_iff unsigned_of_nat take_bit_nat_eq_self)

lemma ex_step_bounds:
  assumes "unat (ex_value s) \<le> n" and "Suc n < 2 ^ 63"
    and "ex_handle s c = Inr es"
  shows "unat (ex_value (foldl ex_apply s es)) \<le> Suc n"
proof (cases c)
  case ExIncrement
  moreover have "ex_value s \<noteq> u64_MAX" using assms(1,2) unat_u64_MAX by auto
  ultimately show ?thesis using assms by (auto simp: unat_Suc_u64)
next
  case ExDecrement
  with assms have "ex_value s \<noteq> 0" "es = [ExDecremented]" by (auto split: if_splits)
  then have "unat (ex_value s - 1) = unat (ex_value s) - 1" by (simp add: unat_minus_one)
  with \<open>es = _\<close> assms(1) show ?thesis by simp
next
  case ExReset
  with assms show ?thesis by (auto split: if_splits)
qed

lemma run_commands_bounds:
  assumes "unat (ex_value s) + length cs < 2 ^ 63"
  shows "unat (ex_value (run_commands s cs)) \<le> unat (ex_value s) + length cs"
  using assms
proof (induction cs arbitrary: s)
  case Nil
  then show ?case by simp
next
  case (Cons c cs)
  show ?case
  proof (cases "ex_handle s c")
    case (Inl e)
    with Cons.IH [of s] Cons.prems show ?thesis by simp
  next
    case (Inr es)
    have "unat (ex_value (foldl ex_apply s es)) \<le> Suc (unat (ex_value s))"
      using Inr Cons.prems by (intro ex_step_bounds) auto
    with Cons.IH [of "foldl ex_apply s es"] Cons.prems Inr show ?thesis by simp
  qed
qed

end
