(* ===== verification/Consumer_Properties.thy ===== *)
theory Consumer_Properties
  imports Process_Manager Example_Counter Reference_Env
begin

text \<open>
  The properties of projections and process managers against a global log: each event is
  consumed once however often it is delivered, restarts lose and repeat nothing of a
  projection, and what a process manager's checkpoint promises of its commands.
\<close>

subsection \<open>Specifications\<close>

text \<open>A projection means the fold of the decodable events of the log.\<close>

definition projected :: "ext \<Rightarrow> 'p projection \<Rightarrow> recorded_event list \<Rightarrow> 'p" where
  "projected E P es = foldl (proj_apply P) (proj_default P) (List.map_filter (decode_stored_event E) es)"

definition projection_at :: "ext \<Rightarrow> 'p projection \<Rightarrow> recorded_event list \<Rightarrow> 'p projection_checkpoint \<Rightarrow> bool" where
  "projection_at E P es ck \<longleftrightarrow>
     pc_state ck = projected E P es \<and> pc_last_global_position ck = end_position es"

text \<open>A process manager means the state and the commands of reacting to them in turn.\<close>

fun reactions ::
  "ext \<Rightarrow> 'p process_manager \<Rightarrow> recorded_event list \<Rightarrow> 'p \<Rightarrow> 'p \<times> command_envelope list" where
  "reactions E P [] x = (x, [])"
| "reactions E P (r # es) x =
     (case decode_stored_event E r of
        None \<Rightarrow> reactions E P es x
      | Some s \<Rightarrow>
          (let (x', out) = react P x s; (x'', outs) = reactions E P es x' in (x'', out @ outs)))"

definition pm_at :: "ext \<Rightarrow> 'p process_manager \<Rightarrow> recorded_event list \<Rightarrow> 'p pm_checkpoint \<Rightarrow> bool" where
  "pm_at E P es ck \<longleftrightarrow>
     pmc_state ck = fst (reactions E P es (pm_default P)) \<and>
     pmc_last_global_position ck = end_position es"

text \<open>The commands the events \<open>fs\<close> give after \<open>es\<close>.\<close>

definition commands_after ::
  "ext \<Rightarrow> 'p process_manager \<Rightarrow> recorded_event list \<Rightarrow> recorded_event list \<Rightarrow> command_envelope list" where
  "commands_after E P es fs = snd (reactions E P fs (fst (reactions E P es (pm_default P))))"

lemma projected_meaning: "projected E P es = fst (projection_cursor.meaning E P es (proj_default P))"
proof -
  have "foldl (proj_apply P) x (List.map_filter (decode_stored_event E) es) =
      fst (projection_cursor.meaning E P es x)" for x
    by (induction es arbitrary: x) (simp_all add: List.map_filter_simps Let_def split_beta split: option.split)
  then show ?thesis by (simp add: projected_def)
qed

lemma projection_at_reached:
  "projection_at E P es ck \<longleftrightarrow>
    projection_cursor.reached E P (proj_default P) es (pc_state ck, pc_last_global_position ck)"
  by (auto simp: projection_at_def projection_cursor.reached_def projected_meaning)

lemma reactions_meaning: "reactions E P es x = pm_cursor.meaning E P es x"
  by (induction es arbitrary: x) (simp_all split: option.split)

lemma pm_at_reached:
  "pm_at E P es ck \<longleftrightarrow>
    pm_cursor.reached E P (pm_default P) es (pmc_state ck, pmc_last_global_position ck)"
  by (auto simp: pm_at_def pm_cursor.reached_def reactions_meaning)


subsection \<open>Lemmas on the loops\<close>

lemma process_stream_pair:
  assumes "process_stream E P items ck = (r, ck')"
  shows "projection_process E P (pc_state ck, pc_last_global_position ck) items =
    (map_sum id (\<lambda>_. []) r, pc_state ck', pc_last_global_position ck')"
  using assms by (cases ck) (simp add: projection_process_def)

lemma process_stream_part:
  assumes "log_ok (es @ fs)" and "projection_at E P es ck"
    and "delivers_part (es @ fs) (pc_last_global_position ck) items"
    and "process_stream E P items ck = (r, ck')"
  shows "\<exists>gs hs. fs = gs @ hs \<and> projection_at E P (es @ gs) ck'"
proof -
  have "delivers_part (es @ fs) (snd (pc_state ck, pc_last_global_position ck)) items"
    using assms(3) by simp
  from projection_loop.process_part [OF assms(1) assms(2) [unfolded projection_at_reached] this
      process_stream_pair [OF assms(4)]]
  show ?thesis unfolding projection_at_reached by blast
qed

lemma process_stream_all:
  assumes "log_ok (es @ fs)" and "projection_at E P es ck"
    and "delivers (es @ fs) (pc_last_global_position ck) items" and "failure items = None"
    and "process_stream E P items ck = (r, ck')"
  shows "r = Inr () \<and> projection_at E P (es @ fs) ck'"
proof -
  have "projection_process E P (pc_state ck, pc_last_global_position ck) items =
      (Inr (snd (projection_cursor.meaning E P fs (pc_state ck))),
       fst (projection_cursor.meaning E P (es @ fs) (proj_default P)), end_position (es @ fs))"
    using projection_loop.process_catches_up [OF assms(1) assms(2) [unfolded projection_at_reached] _ assms(4)]
      assms(3) by simp
  with process_stream_pair [OF assms(5)] show ?thesis
    by (cases r) (auto simp: projection_at_def projected_meaning)
qed

lemma pm_process_stream_pair:
  assumes "pm_process_stream E P items [] ck = (r, ck')"
  shows "pm_process E P (pmc_state ck, pmc_last_global_position ck) items =
    (r, pmc_state ck', pmc_last_global_position ck')"
  using assms by (cases ck) (simp add: pm_process_def)

lemma pm_process_stream_part:
  assumes "log_ok (es @ fs)" and "pm_at E P es ck"
    and "delivers_part (es @ fs) (pmc_last_global_position ck) items"
    and "pm_process_stream E P items [] ck = (r, ck')"
  shows "\<exists>gs hs. fs = gs @ hs \<and> pm_at E P (es @ gs) ck' \<and>
    (case r of Inr out \<Rightarrow> out = commands_after E P es gs | Inl _ \<Rightarrow> failure items \<noteq> None)"
proof -
  have "delivers_part (es @ fs) (snd (pmc_state ck, pmc_last_global_position ck)) items"
    using assms(3) by simp
  from pm_loop.process_part [OF assms(1) assms(2) [unfolded pm_at_reached] this
      pm_process_stream_pair [OF assms(4)]]
  have "\<exists>gs hs. fs = gs @ hs \<and> pm_at E P (es @ gs) ck' \<and>
      (case r of Inr out \<Rightarrow> out = snd (pm_cursor.meaning E P gs (pmc_state ck)) | Inl _ \<Rightarrow> failure items \<noteq> None)"
    by (simp only: pm_at_reached fst_conv)
  moreover have "snd (pm_cursor.meaning E P gs (pmc_state ck)) = commands_after E P es gs" for gs
    using assms(2) by (simp add: pm_at_def commands_after_def reactions_meaning)
  ultimately show ?thesis by (cases r) auto
qed

lemma pm_process_stream_all:
  assumes "log_ok (es @ fs)" and "pm_at E P es ck"
    and "delivers (es @ fs) (pmc_last_global_position ck) items" and "failure items = None"
    and "pm_process_stream E P items [] ck = (r, ck')"
  shows "r = Inr (commands_after E P es fs) \<and> pm_at E P (es @ fs) ck'"
proof -
  have "pm_process E P (pmc_state ck, pmc_last_global_position ck) items =
      (Inr (snd (pm_cursor.meaning E P fs (pmc_state ck))),
       fst (pm_cursor.meaning E P (es @ fs) (pm_default P)), end_position (es @ fs))"
    using pm_loop.process_catches_up [OF assms(1) assms(2) [unfolded pm_at_reached] _ assms(4)]
      assms(3) by simp
  with pm_process_stream_pair [OF assms(5)] assms(2) show ?thesis
    by (auto simp: pm_at_def commands_after_def reactions_meaning)
qed

lemma projection_at_default: "projection_at E P [] (checkpoint_default P)"
  by (simp add: projection_at_def projected_def end_position_def checkpoint_default_def
      List.map_filter_simps)

lemma pm_at_default: "pm_at E P [] (pm_checkpoint_default P)"
  by (simp add: pm_at_def end_position_def pm_checkpoint_default_def)

subsection \<open>The in-memory server as a source of the global log\<close>

definition mem_global :: "mem_server \<Rightarrow> recorded_event list" where
  "mem_global w = map (\<lambda>(i, sid, p). mem_record sid i p) (enumerate 0 (mem_log w))"

lemma mem_global_nth:
  "i < length (mem_log w) \<Longrightarrow> re_global_position (mem_global w ! i) = of_nat i"
  by (simp add: mem_global_def nth_enumerate_eq mem_record_def split_beta)

lemma mem_global_ok:
  assumes "length (mem_log w) < 2 ^ 64 - 1"
  shows "log_ok (mem_global w)"
proof -
  have len: "length (mem_global w) = length (mem_log w)" by (simp add: mem_global_def)
  have "(of_nat i :: u64) < of_nat j" if "i < j" "j < length (mem_log w)" for i j
    using that assms by (simp add: word_less_nat_alt unat_of_nat_u64)
  moreover have "(of_nat i :: u64) \<noteq> u64_MAX" if "i < length (mem_log w)" for i
  proof -
    have "unat (of_nat i :: u64) \<noteq> unat u64_MAX"
      using that assms by (simp add: unat_of_nat_u64 unat_u64_MAX)
    then show ?thesis by metis
  qed
  ultimately show ?thesis
    by (auto simp: log_ok_def sorted_wrt_iff_nth_less mem_global_nth len in_set_conv_nth)
qed

lemma delivered_map_events:
  "delivered (map (\<lambda>r. Inr \<lparr>content = Some (Event r)\<rparr>) es @ [Inr \<lparr>content = Some CaughtUp\<rparr>]) = es"
  "failure (map (\<lambda>r. Inr \<lparr>content = Some (Event r)\<rparr>) es @ [Inr \<lparr>content = Some CaughtUp\<rparr>]) = None"
  by (induction es) simp_all

lemma mem_subscribe:
  assumes "length (mem_log w) < 2 ^ 64 - 1"
  shows "\<exists>items. es_subscribe_all_from E mem_rpc Plain pos w = (Inr items, w) \<and>
    delivers (mem_global w) pos items \<and> failure items = None"
proof -
  let ?es = "drop (unat pos) (mem_global w)"
  let ?items = "map (\<lambda>r. Inr \<lparr>content = Some (Event r)\<rparr>) ?es @ [Inr \<lparr>content = Some CaughtUp\<rparr>]"
  have "es_subscribe_all_from E mem_rpc Plain pos w = (Inr ?items, w)"
    by (simp add: es_subscribe_all_from_def call_rpc_def mem_rpc_def mem_subscribe_all_def mem_global_def
        drop_map split_beta comp_def)
  moreover have "\<forall>r \<in> set (take (unat pos) (mem_global w)). re_global_position r < pos"
  proof
    fix r assume "r \<in> set (take (unat pos) (mem_global w))"
    then obtain i where i: "i < unat pos" "i < length (mem_log w)" "r = mem_global w ! i"
      by (auto simp: in_set_conv_nth mem_global_def)
    then show "re_global_position r < pos"
      using assms by (simp add: mem_global_nth word_less_nat_alt unat_of_nat_u64)
  qed
  ultimately show ?thesis
    unfolding delivers_def by (metis delivered_map_events)
qed

definition sample_event :: proposed_event where
  "sample_event = to_proto_event env
     \<lparr>pd_event_id = 1, pd_event_type = ''Incremented'', pd_payload = JNull,
      pd_metadata = metadata_of_context command_context_default ''counter'' ''c1''\<rparr>"

definition sample_world :: mem_server where
  "sample_world = \<lparr>mem_log = [(uuid_to_string env 7, sample_event), (uuid_to_string env 7, sample_event)], mem_others = [], mem_ids = 0\<rparr>"

text \<open>Both events decode, and the saga answers each with one command.\<close>

lemma sample_decode:
  "\<exists>s. decode_stored_event env (mem_record (uuid_to_string env 7) i sample_event) = Some s \<and>
    se_aggregate_type s = ''counter''"
proof -
  let ?pd = "\<lparr>pd_event_id = 1, pd_event_type = ''Incremented'', pd_payload = JNull,
      pd_metadata = metadata_of_context command_context_default ''counter'' ''c1''\<rparr>"
  let ?r = "mem_record (uuid_to_string env 7) i sample_event"
  have c: "carries env 7 ?pd ?r" by (simp add: carries_def mem_record_def sample_event_def)
  have j: "json_wf (pd_payload ?pd)" by simp
  have m: "metadata_wf (pd_metadata ?pd)"
    by (simp add: metadata_wf_def metadata_of_context_def command_context_default_def byte_in_def)
  have e: "md_aggregate_type (pd_metadata ?pd) = ''counter''" "md_instance_id (pd_metadata ?pd) = ''c1''"
    by (simp_all add: metadata_of_context_def)
  have "decode_stored_event env ?r = Some (stored_of 7 ?pd ?r)"
    using decode_carried [OF env_ok c j m] unfolding e by simp
  moreover have "se_aggregate_type (stored_of 7 ?pd ?r) = ''counter''"
    using e(1) by (simp add: stored_of_def)
  ultimately show ?thesis by blast
qed

lemma sample_log:
  "mem_global sample_world =
    [mem_record (uuid_to_string env 7) 0 sample_event, mem_record (uuid_to_string env 7) 1 sample_event]"
  by (simp add: mem_global_def sample_world_def)

lemma echo_one: "se_aggregate_type s = ''counter'' \<Longrightarrow> \<exists>e. snd (react EchoSaga x s) = [e]"
  by (simp add: EchoSaga_def echo_react_def Let_def)

lemma sample_commands: "length (snd (reactions env EchoSaga (mem_global sample_world) x)) = 2"
proof -
  obtain s0 s1 where "decode_stored_event env (mem_record (uuid_to_string env 7) 0 sample_event) = Some s0"
    "se_aggregate_type s0 = ''counter''"
    "decode_stored_event env (mem_record (uuid_to_string env 7) 1 sample_event) = Some s1"
    "se_aggregate_type s1 = ''counter''"
    using sample_decode by metis
  moreover obtain e0 where "snd (react EchoSaga x s0) = [e0]" using echo_one calculation(2) by blast
  moreover obtain e1 where "snd (react EchoSaga (fst (react EchoSaga x s0)) s1) = [e1]"
    using echo_one calculation(4) by blast
  ultimately show ?thesis by (simp add: Let_def split_beta sample_log)
qed

lemma sample_world_small: "length (mem_log sample_world) < 2 ^ 64 - 1"
  by (simp add: sample_world_def)

text \<open>
  A server whose subscription breaks after the first event of the log, as long as it has drawn
  no identifier.
\<close>

definition broken_rpc :: "mem_server rpc" where
  "broken_rpc = mem_rpc\<lparr>rpc_subscribe_all := (\<lambda>w md pos.
     if mem_ids w \<noteq> 0 then mem_subscribe_all w md pos
     else (Inr (map (\<lambda>r. Inr \<lparr>content = Some (Event r)\<rparr>) (take 1 (mem_global w)) @
        [Inl (status_new GUnavailable ''connection lost'')]), w))\<rparr>"

lemma delivered_broken:
  "delivered (map (\<lambda>r. Inr \<lparr>content = Some (Event r)\<rparr>) es @ [Inl st]) = es"
  "failure (map (\<lambda>r. Inr \<lparr>content = Some (Event r)\<rparr>) es @ [Inl st]) = Some st"
  by (induction es) simp_all

lemma delivers_part_start: "delivered items = take n log \<Longrightarrow> delivers_part log pos items"
  unfolding delivers_part_def by (rule exI [of _ 0], rule exI [of _ n]) simp

lemma broken_subscribe:
  assumes "es_subscribe_all_from E broken_rpc Plain pos w = (Inr items, w')" and "mem_ids w = 0"
  shows "delivered items = take 1 (mem_global w) \<and>
    failure items = Some (status_new GUnavailable ''connection lost'')"
  using assms delivered_broken [of "take 1 (mem_global w)"]
  by (auto simp: es_subscribe_all_from_def call_rpc_def broken_rpc_def)

lemma unbroken_subscribe:
  "mem_ids w \<noteq> 0 \<Longrightarrow>
    es_subscribe_all_from E broken_rpc Plain pos w = es_subscribe_all_from E mem_rpc Plain pos w"
  by (simp add: es_subscribe_all_from_def call_rpc_def broken_rpc_def mem_rpc_def)

lemma sample_world_ids [simp]: "mem_ids sample_world = 0"
  by (simp add: sample_world_def)

subsection \<open>Projections\<close>

lemma projection_catch_up_step:
  assumes "log_ok (es @ fs)" and "projection_at E P es (checkpoint rn)"
    and "es_subscribe_all_from E R c (projection_position rn) w = (Inr items, w')"
    and "delivers (es @ fs) (projection_position rn) items" and "failure items = None"
    and "projection_catch_up E P R c rn w F = (r, rn', w2, F')"
  shows "projection_at E P (es @ fs) (checkpoint rn') \<and>
    (r = Inr () \<longrightarrow> projection_good E P (checkpoint rn') \<longrightarrow>
       io_fails F OpRead (checkpoint_path (checkpoint_dir rn)) = None \<longrightarrow>
       load_checkpoint E P (checkpoint_dir rn) F' = Inr (Some (checkpoint rn')))"
proof -
  obtain q ck where ps: "process_stream E P items (checkpoint rn) = (q, ck)" by fastforce
  note all = process_stream_all [OF assms(1,2) assms(4)[unfolded projection_position_def] assms(5) ps]
  obtain sr F1 where sv: "save_checkpoint E P (checkpoint_dir rn) ck F = (sr, F1)" by fastforce
  have "rn' = rn\<lparr>checkpoint := ck\<rparr>" "r = sr" "F' = F1"
    using assms(3,6) all ps sv
    by (auto simp: projection_catch_up_def projection_position_def split: sum.splits)
  with all sv show ?thesis using projection_file.save_load by auto
qed

definition clear_disk :: fs where
  "clear_disk = \<lparr>files = Map.empty, dirs = (\<lambda>_. False), io_fails = (\<lambda>_ _. None), torn = (\<lambda>_. None)\<rparr>"

lemma clear_catch_up:
  assumes "log_ok (es @ fs)" and "projection_at env TotalCounter es (checkpoint rn)"
    and "es_subscribe_all_from env R c (projection_position rn) w = (Inr items, w')"
    and "delivers (es @ fs) (projection_position rn) items" and "failure items = None"
  shows "\<exists>rn' F'. projection_catch_up env TotalCounter R c rn w clear_disk = (Inr (), rn', w', F')"
proof -
  obtain q ck where ps: "process_stream env TotalCounter items (checkpoint rn) = (q, ck)" by fastforce
  have "q = Inr ()"
    using process_stream_all [OF assms(1,2) _ assms(5) ps] assms(4) by (simp add: projection_position_def)
  moreover have "\<exists>F'. save_checkpoint env TotalCounter (checkpoint_dir rn) ck clear_disk = (Inr (), F')"
  proof -
    have "\<exists>bs. checkpoint_bytes env TotalCounter ck = Inr bs"
      by (simp add: checkpoint_bytes_def pretty_bytes_def checkpoint_to_value_def TotalCounter_def env_def)
    then show ?thesis
      using write_and_rename_succeeds [of clear_disk, OF _ checkpoint_tmp_parent]
      by (metis clear_disk_def fs.select_convs(3) prod.collapse save_checkpoint_def)
  qed
  ultimately show ?thesis
    using assms(3) ps by (auto simp: projection_catch_up_def projection_position_def)
qed

text \<open>
  C13. A catch-up whose subscription delivers the log from the position on, or from any earlier
  point, brings the projection to the fold of every decodable event of the whole log, each
  applied once and in order; when it also reports success, the checkpoint on disk is that state.
\<close>

theorem projection_catch_up_exact:
  assumes "log_ok (es @ fs)" and "projection_at E P es (checkpoint rn)"
    and "es_subscribe_all_from E R c (projection_position rn) w = (Inr items, w')"
    and "delivers (es @ fs) (projection_position rn) items" and "failure items = None"
    and "projection_catch_up E P R c rn w F = (r, rn', w2, F')"
  shows "projection_at E P (es @ fs) (checkpoint rn') \<and>
    (r = Inr () \<longrightarrow> projection_good E P (checkpoint rn') \<longrightarrow>
       io_fails F OpRead (checkpoint_path (checkpoint_dir rn)) = None \<longrightarrow>
       load_checkpoint E P (checkpoint_dir rn) F' = Inr (Some (checkpoint rn')))"
  using assms by (rule projection_catch_up_step)

theorem projection_catch_up_exact_witness:
  "\<exists>r rn' w2 F'. projection_catch_up env TotalCounter mem_rpc Plain
      \<lparr>checkpoint = checkpoint_default TotalCounter, checkpoint_dir = path_of ''/p''\<rparr> sample_world clear_disk = (r, rn', w2, F') \<and>
    projection_at env TotalCounter (mem_global sample_world) (checkpoint rn')"
proof -
  let ?rn = "\<lparr>checkpoint = checkpoint_default TotalCounter, checkpoint_dir = path_of ''/p''\<rparr>"
  obtain items where sub: "es_subscribe_all_from env mem_rpc Plain (projection_position ?rn) sample_world = (Inr items, sample_world)"
    "delivers ([] @ mem_global sample_world) (projection_position ?rn) items" "failure items = None"
    using mem_subscribe [OF sample_world_small] by force
  have ok: "log_ok ([] @ mem_global sample_world)" using mem_global_ok [OF sample_world_small] by simp
  have at: "projection_at env TotalCounter [] (checkpoint ?rn)" by (simp add: projection_at_default)
  obtain r rn' w2 F' where c: "projection_catch_up env TotalCounter mem_rpc Plain ?rn sample_world clear_disk = (r, rn', w2, F')"
    by (metis prod_cases4)
  from projection_catch_up_exact [OF ok at sub c] c show ?thesis by auto
qed

text \<open>
  Whatever happens in a catch-up (the subscription is refused, the stream breaks or ends
  early, the checkpoint cannot be written), the projection stays at a prefix of the log at or
  after the one it had reached.
\<close>

theorem projection_catch_up_interrupted:
  assumes "log_ok (es @ fs)" and "projection_at E P es (checkpoint rn)"
    and "\<forall>items w'. es_subscribe_all_from E R c (projection_position rn) w = (Inr items, w') \<longrightarrow>
      delivers_part (es @ fs) (projection_position rn) items"
    and "projection_catch_up E P R c rn w F = (r, rn', w2, F')"
  shows "\<exists>gs hs. fs = gs @ hs \<and> projection_at E P (es @ gs) (checkpoint rn')"
proof (cases "es_subscribe_all_from E R c (projection_position rn) w")
  case (Pair q w')
  show ?thesis
  proof (cases q)
    case (Inl st)
    with Pair assms(4) have "rn' = rn" by (simp add: projection_catch_up_def projection_position_def)
    with assms(2) show ?thesis by - (rule exI [of _ "[]"], rule exI [of _ fs], simp)
  next
    case (Inr items)
    obtain q ck where ps: "process_stream E P items (checkpoint rn) = (q, ck)" by fastforce
    have d: "delivers_part (es @ fs) (pc_last_global_position (checkpoint rn)) items"
      using assms(3) Pair Inr by (simp add: projection_position_def)
    have "rn' = rn\<lparr>checkpoint := ck\<rparr>"
      using assms(4) Pair Inr ps
      by (auto simp: projection_catch_up_def projection_position_def split: sum.splits prod.splits)
    with process_stream_part [OF assms(1,2) d ps] show ?thesis by simp
  qed
qed

theorem projection_catch_up_interrupted_witness:
  "\<exists>r rn' w2 F' gs hs. projection_catch_up env TotalCounter broken_rpc Plain
      \<lparr>checkpoint = checkpoint_default TotalCounter, checkpoint_dir = path_of ''/p''\<rparr> sample_world clear_disk = (r, rn', w2, F') \<and>
    mem_global sample_world = gs @ hs \<and> projection_at env TotalCounter gs (checkpoint rn')"
proof -
  let ?rn = "\<lparr>checkpoint = checkpoint_default TotalCounter, checkpoint_dir = path_of ''/p''\<rparr>"
  have ok: "log_ok ([] @ mem_global sample_world)" using mem_global_ok [OF sample_world_small] by simp
  have at: "projection_at env TotalCounter [] (checkpoint ?rn)" by (simp add: projection_at_default)
  have sub: "\<forall>items w'. es_subscribe_all_from env broken_rpc Plain (projection_position ?rn) sample_world = (Inr items, w') \<longrightarrow>
      delivers_part ([] @ mem_global sample_world) (projection_position ?rn) items"
    using broken_subscribe delivers_part_start by fastforce
  obtain r rn' w2 F' where c: "projection_catch_up env TotalCounter broken_rpc Plain ?rn sample_world clear_disk = (r, rn', w2, F')"
    by (metis prod_cases4)
  from projection_catch_up_interrupted [OF ok at sub c] c show ?thesis by auto
qed

text \<open>
  C35. A restart loses and repeats nothing: after a successful catch-up on \<open>es @ fs\<close>, a runner
  loaded from the disk catches up on the longer log to exactly the fold of all of it.
\<close>

theorem projection_restart_exact:
  assumes "log_ok ((es @ fs) @ gs)" and "projection_at E P es (checkpoint rn)"
    and "\<forall>ck. projection_good E P ck" and "\<forall>p. io_fails F OpRead p = None"
    and "es_subscribe_all_from E R c (projection_position rn) w = (Inr items, w1)"
    and "delivers (es @ fs) (projection_position rn) items" and "failure items = None"
    and "projection_catch_up E P R c rn w F = (Inr (), rn1, w2, F1)"
    and "projection_runner_new E P (checkpoint_dir rn) F1 = Inr rn2"
    and "es_subscribe_all_from E R c (projection_position rn2) w3 = (Inr items2, w4)"
    and "delivers ((es @ fs) @ gs) (projection_position rn2) items2" and "failure items2 = None"
    and "projection_catch_up E P R c rn2 w3 F2 = (r, rn3, w5, F3)"
  shows "checkpoint rn2 = checkpoint rn1 \<and> projection_at E P ((es @ fs) @ gs) (checkpoint rn3)"
proof -
  have ok: "log_ok (es @ fs)" using assms(1) by (simp add: log_ok_append)
  note first = projection_catch_up_step [OF ok assms(2,5-8)]
  have "load_checkpoint E P (checkpoint_dir rn) F1 = Inr (Some (checkpoint rn1))"
    using first assms(3,4) by simp
  with assms(9) have eq: "checkpoint rn2 = checkpoint rn1" by (auto simp: projection_runner_new_def)
  with first have "projection_at E P (es @ fs) (checkpoint rn2)" by simp
  from projection_catch_up_step [OF assms(1) this assms(10-13)] eq show ?thesis by simp
qed

theorem projection_restart_exact_witness:
  "\<exists>rn1 rn2 rn3 w5 F1 F3 r.
     projection_catch_up env TotalCounter mem_rpc Plain
       \<lparr>checkpoint = checkpoint_default TotalCounter, checkpoint_dir = path_of ''/p''\<rparr> sample_world clear_disk
       = (Inr (), rn1, sample_world, F1) \<and>
     projection_catch_up env TotalCounter mem_rpc Plain rn2 sample_world F1 = (r, rn3, w5, F3) \<and>
     projection_at env TotalCounter (mem_global sample_world) (checkpoint rn3)"
proof -
  let ?rn = "\<lparr>checkpoint = checkpoint_default TotalCounter, checkpoint_dir = path_of ''/p''\<rparr>"
  let ?log = "mem_global sample_world"
  obtain items where sub: "es_subscribe_all_from env mem_rpc Plain (projection_position ?rn) sample_world = (Inr items, sample_world)"
    "delivers ([] @ ?log) (projection_position ?rn) items" "failure items = None"
    using mem_subscribe [OF sample_world_small] by force
  have ok: "log_ok (([] @ ?log) @ [])" using mem_global_ok [OF sample_world_small] by simp
  then have ok1: "log_ok ([] @ ?log)" by simp
  have at: "projection_at env TotalCounter [] (checkpoint ?rn)" by (simp add: projection_at_default)
  have good: "\<forall>ck. projection_good env TotalCounter ck" using total_counter_good [OF env_ok] by blast
  have io: "\<forall>p. io_fails clear_disk OpRead p = None" by (simp add: clear_disk_def)
  obtain rn1 F1 where c: "projection_catch_up env TotalCounter mem_rpc Plain ?rn sample_world clear_disk
      = (Inr (), rn1, sample_world, F1)"
    using clear_catch_up [OF ok1 at sub] by blast
  have "load_checkpoint env TotalCounter (checkpoint_dir ?rn) F1 = Inr (Some (checkpoint rn1))"
    using projection_catch_up_step [OF ok1 at sub c] good io by simp
  then obtain rn2 where n: "projection_runner_new env TotalCounter (checkpoint_dir ?rn) F1 = Inr rn2"
    by (simp add: projection_runner_new_def)
  obtain items2 where sub2: "es_subscribe_all_from env mem_rpc Plain (projection_position rn2) sample_world = (Inr items2, sample_world)"
    "delivers (([] @ ?log) @ []) (projection_position rn2) items2" "failure items2 = None"
    using mem_subscribe [OF sample_world_small] by force
  obtain r rn3 w5 F3 where c2: "projection_catch_up env TotalCounter mem_rpc Plain rn2 sample_world F1 = (r, rn3, w5, F3)"
    by (metis prod_cases4)
  have "projection_at env TotalCounter ?log (checkpoint rn3)"
    using projection_restart_exact [OF ok at good io sub c n sub2 c2] by simp
  with c c2 show ?thesis by blast
qed

subsection \<open>Process managers\<close>

lemma pm_catch_up_step:
  assumes "es_subscribe_all_from E R c (pm_position rn) w = (Inr items, w')"
    and "pm_catch_up E P R c rn w = (r, rn', w2)"
  shows "\<exists>ck. pm_process_stream E P items [] (pm_checkpoint rn) = (r, ck) \<and> rn' = rn\<lparr>pm_checkpoint := ck\<rparr>"
  using assms by (auto simp: pm_catch_up_def pm_position_def split: prod.splits)

lemma pm_catch_up_all:
  assumes "log_ok (es @ fs)" and "pm_at E P es (pm_checkpoint rn)"
    and "es_subscribe_all_from E R c (pm_position rn) w = (Inr items, w')"
    and "delivers (es @ fs) (pm_position rn) items" and "failure items = None"
    and "pm_catch_up E P R c rn w = (r, rn', w2)"
  shows "r = Inr (commands_after E P es fs) \<and> pm_at E P (es @ fs) (pm_checkpoint rn')"
proof -
  obtain ck where ck: "pm_process_stream E P items [] (pm_checkpoint rn) = (r, ck)"
    "rn' = rn\<lparr>pm_checkpoint := ck\<rparr>"
    using pm_catch_up_step [OF assms(3,6)] by blast
  from pm_process_stream_all [OF assms(1,2) assms(4)[unfolded pm_position_def] assms(5) ck(1)] ck(2)
  show ?thesis by simp
qed

text \<open>
  C36. A process manager's catch-up returns exactly the commands its reactions to the new events
  give, in log order, however far back the delivery starts, and moves its in-memory checkpoint
  to the end of the log.
\<close>

theorem pm_catch_up_exact:
  assumes "log_ok (es @ fs)" and "pm_at E P es (pm_checkpoint rn)"
    and "es_subscribe_all_from E R c (pm_position rn) w = (Inr items, w')"
    and "delivers (es @ fs) (pm_position rn) items" and "failure items = None"
    and "pm_catch_up E P R c rn w = (r, rn', w2)"
  shows "r = Inr (commands_after E P es fs) \<and> pm_at E P (es @ fs) (pm_checkpoint rn')"
  using assms by (rule pm_catch_up_all)

theorem pm_catch_up_exact_witness:
  "\<exists>rn' w2. pm_catch_up env EchoSaga mem_rpc Plain
      \<lparr>pm_checkpoint = pm_checkpoint_default EchoSaga, pm_checkpoint_dir = path_of ''/p''\<rparr> sample_world =
      (Inr (commands_after env EchoSaga [] (mem_global sample_world)), rn', w2)"
proof -
  let ?rn = "\<lparr>pm_checkpoint = pm_checkpoint_default EchoSaga, pm_checkpoint_dir = path_of ''/p''\<rparr>"
  obtain items where sub: "es_subscribe_all_from env mem_rpc Plain (pm_position ?rn) sample_world = (Inr items, sample_world)"
    "delivers ([] @ mem_global sample_world) (pm_position ?rn) items" "failure items = None"
    using mem_subscribe [OF sample_world_small] by force
  have ok: "log_ok ([] @ mem_global sample_world)" using mem_global_ok [OF sample_world_small] by simp
  have at: "pm_at env EchoSaga [] (pm_checkpoint ?rn)" by (simp add: pm_at_default)
  obtain r rn' w2 where c: "pm_catch_up env EchoSaga mem_rpc Plain ?rn sample_world = (r, rn', w2)"
    by (metis prod_cases3)
  from pm_catch_up_exact [OF ok at sub c] c show ?thesis by auto
qed



text \<open>
  C26. A catch-up whose subscription breaks returns an error and no commands, but the in-memory
  checkpoint has moved past the events it consumed: the commands of those events are in no later
  catch-up of the runner either.
\<close>

theorem pm_broken_catch_up_loses:
  assumes "log_ok ((es @ gs) @ hs)" and "pm_at E P es (pm_checkpoint rn)"
    and "es_subscribe_all_from E R c (pm_position rn) w = (Inr items, w1)"
    and "delivered items = gs" and "failure items = Some st"
    and "pm_catch_up E P R c rn w = (r1, rn1, w2)"
    and "es_subscribe_all_from E R c (pm_position rn1) w3 = (Inr items2, w4)"
    and "delivers ((es @ gs) @ hs) (pm_position rn1) items2" and "failure items2 = None"
    and "pm_catch_up E P R c rn1 w3 = (r2, rn2, w5)"
  shows "(\<exists>e. r1 = Inl e) \<and> r2 = Inr (commands_after E P (es @ gs) hs)"
proof -
  have ok: "log_ok (es @ gs)" using assms(1) by (simp add: log_ok_append)
  obtain ck where ck: "pm_process_stream E P items [] (pm_checkpoint rn) = (r1, ck)"
    "rn1 = rn\<lparr>pm_checkpoint := ck\<rparr>"
    using pm_catch_up_step [OF assms(3,6)] by blast
  let ?c = "(pmc_state (pm_checkpoint rn), pmc_last_global_position (pm_checkpoint rn))"
  have "pm_cursor.consume_all E P (delivered items) ?c =
      ((fst (pm_cursor.meaning E P (es @ gs) (pm_default P)), end_position (es @ gs)),
       snd (pm_cursor.meaning E P gs (fst ?c)))"
    using pm_cursor.consume_overlap [OF ok assms(2) [unfolded pm_at_reached], of "length es"] assms(4)
    by simp
  then have "r1 = Inl (io_error_other (''subscribe stream error: '' @ status_to_string E st)) \<and>
      pm_at E P (es @ gs) ck"
    using pm_loop.process_eq [of E P ?c items] pm_process_stream_pair [OF ck(1)] assms(5)
    by (simp add: pm_at_def reactions_meaning)
  with pm_catch_up_all [OF assms(1) _ assms(7-10)] ck(2) show ?thesis by auto
qed

theorem pm_broken_catch_up_loses_witness:
  "\<exists>rn1 w2 rn2 w5 e. pm_catch_up env EchoSaga broken_rpc Plain
      \<lparr>pm_checkpoint = pm_checkpoint_default EchoSaga, pm_checkpoint_dir = path_of ''/p''\<rparr> sample_world =
      (Inl e, rn1, w2) \<and>
    pm_catch_up env EchoSaga broken_rpc Plain rn1 (sample_world\<lparr>mem_ids := 1\<rparr>) =
      (Inr (commands_after env EchoSaga (take 1 (mem_global sample_world)) (drop 1 (mem_global sample_world))), rn2, w5)"
proof -
  let ?rn = "\<lparr>pm_checkpoint = pm_checkpoint_default EchoSaga, pm_checkpoint_dir = path_of ''/p''\<rparr>"
  let ?log = "mem_global sample_world" and ?w = "sample_world\<lparr>mem_ids := 1\<rparr>"
  have same: "mem_global ?w = ?log" by (simp add: mem_global_def)
  have ok: "log_ok (([] @ take 1 ?log) @ drop 1 ?log)" using mem_global_ok [OF sample_world_small] by simp
  have at: "pm_at env EchoSaga [] (pm_checkpoint ?rn)" by (simp add: pm_at_default)
  obtain items w1 where sub: "es_subscribe_all_from env broken_rpc Plain (pm_position ?rn) sample_world = (Inr items, w1)"
    by (simp add: es_subscribe_all_from_def call_rpc_def broken_rpc_def)
  note del = broken_subscribe [OF sub sample_world_ids]
  obtain r1 rn1 w2 where c1: "pm_catch_up env EchoSaga broken_rpc Plain ?rn sample_world = (r1, rn1, w2)"
    by (metis prod_cases3)
  have small: "length (mem_log ?w) < 2 ^ 64 - 1" using sample_world_small by simp
  obtain items2 where sub2: "es_subscribe_all_from env broken_rpc Plain (pm_position rn1) ?w = (Inr items2, ?w)"
    "delivers (([] @ take 1 ?log) @ drop 1 ?log) (pm_position rn1) items2" "failure items2 = None"
    using mem_subscribe [OF small, of env "pm_position rn1"] same unbroken_subscribe [of ?w] by force
  obtain r2 rn2 w5 where c2: "pm_catch_up env EchoSaga broken_rpc Plain rn1 ?w = (r2, rn2, w5)"
    by (metis prod_cases3)
  from pm_broken_catch_up_loses [OF ok at sub _ _ c1 sub2 c2] del c1 c2 show ?thesis by auto
qed

subsection \<open>The example\<close>

text \<open>
  C40. The signed counter of the example never goes below zero and never overflows in fewer than
  \<open>2^63\<close> commands, whichever of them are rejected.
\<close>

theorem example_counter_bounds:
  assumes "length cs < 2 ^ 63"
  shows "0 \<le> sint (ex_value (run_commands (agg_default ExCounter) cs)) \<and>
    sint (ex_value (run_commands (agg_default ExCounter) cs)) \<le> int (length cs)"
proof -
  let ?v = "ex_value (run_commands (agg_default ExCounter) cs)"
  have b: "unat ?v \<le> length cs"
    using run_commands_bounds [of "agg_default ExCounter" cs] assms by (simp add: ExCounter_def)
  have "sint ?v = int (unat ?v)"
    using sint_small [of "unat ?v"] b assms by simp
  with b show ?thesis by linarith
qed

theorem example_counter_bounds_witness:
  "0 \<le> sint (ex_value (run_commands (agg_default ExCounter) [ExIncrement, ExDecrement, ExDecrement, ExReset]))"
  by (rule example_counter_bounds [THEN conjunct1]) simp

end
