(* ===== verification/Errors.thy ===== *)
theory Errors
  imports Actor
begin

text \<open>
  \<^verbatim>\<open>src/error.rs\<close>: what the error types print (\<open>ExecuteError\<close> and \<open>StateError\<close> are declared
  with the actor that makes them), and the error of dispatching, which the crate exports.
\<close>

definition execute_error_to_string :: "ext \<Rightarrow> ('err \<Rightarrow> string) \<Rightarrow> 'err execute_error \<Rightarrow> string" where
  "execute_error_to_string E show_err e =
     (case e of
        Domain d \<Rightarrow> show_err d
      | WrongExpectedVersion \<Rightarrow> ''wrong expected version: retries exhausted''
      | Io x \<Rightarrow> ''I/O error: '' @ message x
      | Transport st \<Rightarrow> ''gRPC transport error: '' @ status_to_string E st
      | ActorGone \<Rightarrow> ''aggregate actor is no longer running'')"

definition state_error_to_string :: "ext \<Rightarrow> state_error \<Rightarrow> string" where
  "state_error_to_string E e =
     (case e of
        StateIo x \<Rightarrow> ''I/O error: '' @ message x
      | StateTransport st \<Rightarrow> ''gRPC transport error: '' @ status_to_string E st
      | StateActorGone \<Rightarrow> ''aggregate actor is no longer running'')"

text \<open>A \<open>serde_json::Error\<close> and a boxed error are what they print.\<close>

datatype dispatch_error =
    UnknownAggregateType string
  | UnknownCommand
  | Deserialization string
  | Execution string
  | DispatchIo io_error

definition dispatch_error_to_string :: "dispatch_error \<Rightarrow> string" where
  "dispatch_error_to_string e =
     (case e of
        UnknownAggregateType t \<Rightarrow> ''unknown aggregate type: '' @ t
      | UnknownCommand \<Rightarrow> ''no route registered for command type''
      | Deserialization m \<Rightarrow> ''command deserialization failed: '' @ m
      | Execution m \<Rightarrow> ''command execution failed: '' @ m
      | DispatchIo x \<Rightarrow> ''I/O error: '' @ message x)"

end
