(* ===== verification/Store.thy ===== *)
theory Store
  imports Errors Projection Process_Manager
begin

text \<open>
  \<^verbatim>\<open>src/store.rs\<close>: the store that composes actors, projections and process managers. The
  type-erased maps of the source are lists and maps over one type of aggregates, of projections
  and of process managers each; a type's \<open>TypeId\<close> is a number, and \<open>types\<close> gives its
  implementation. A handle is its key in the cache. What the rest of the system decides is in
  the state: the world of the server, the clock, and for each coming message whether the idle
  timer of its actor fires first.
\<close>

subsection \<open>Configuration and state\<close>

text \<open>A registered dispatch target (\<open>TypedDispatcher<A>\<close>): its type, how its commands read, how
  its errors print.\<close>

record ('c, 'err) dispatcher =
  target_type :: nat
  command_from_value :: "json \<Rightarrow> string + 'c"
  error_to_string :: "'err \<Rightarrow> string"

record ('w, 'a, 'c, 'e, 'err) config =
  cfg_ext :: ext
  cfg_rpc :: "'w rpc"
  client :: es_client
  new_v4 :: "'w \<Rightarrow> uuid \<times> 'w"
  cfg_base_dir :: path
  types :: "nat \<Rightarrow> ('a, 'c, 'e, 'err) aggregate"
  dispatchers :: "string \<Rightarrow> ('c, 'err) dispatcher option"

text \<open>A cached handle: its actor is running, or has exited and the handle is stale.\<close>

datatype ('w, 'a) slot = Alive actor_context "('w, 'a) actor_state" | Stale

record 'p registered_projection =
  rp_type :: nat
  rp_projection :: "'p projection"
  rp_runner :: "'p projection_runner"

record 'q registered_pm =
  rpm_manager :: "'q process_manager"
  rpm_runner :: "'q pm_runner"

record ('w, 'a, 'p, 'q) app =
  world :: 'w
  app_fs :: fs
  cache :: "nat \<times> string \<Rightarrow> ('w, 'a) slot option"
  projections :: "(string \<times> 'p registered_projection) list"
  process_managers :: "'q registered_pm list"
  timeouts :: "bool list"
  clock :: "u64 option"

definition cfg_ops :: "('w, 'a, 'c, 'e, 'err) config \<Rightarrow> 'w event_store_ops" where
  "cfg_ops N = es_client_ops (cfg_ext N) (cfg_rpc N) (client N)"

subsection \<open>Handles\<close>

definition store_get ::
  "('w, 'a, 'c, 'e, 'err) config \<Rightarrow> nat \<Rightarrow> string \<Rightarrow> ('w, 'a, 'p, 'q) app
    \<Rightarrow> (status + unit) \<times> ('w, 'a, 'p, 'q) app" where
  "store_get N tid i ap =
     (case cache ap (tid, i) of
        Some (Alive K st) \<Rightarrow> (Inr (), ap)
      | _ \<Rightarrow>
          (let ap1 = ap\<lparr>cache := (cache ap)((tid, i) := None)\<rparr>
           in case spawn_state (cfg_ext N) (types N tid) (cfg_ops N) (cfg_base_dir N) i
                  (world ap1) (app_fs ap1) of
                (Inl status, w) \<Rightarrow> (Inl status, ap1\<lparr>world := w\<rparr>)
              | (Inr (K, st), w) \<Rightarrow>
                  (Inr (), ap1\<lparr>world := w, cache := (cache ap1)((tid, i) \<mapsto> Alive K st)\<rparr>)))"

text \<open>
  A message to an actor: the timer may fire first, then the actor exits and the message is
  dropped. The actor works on the current world and disk.
\<close>

definition call_actor ::
  "('w, 'a, 'c, 'e, 'err) config \<Rightarrow> nat \<Rightarrow> string \<Rightarrow> 'c actor_message \<Rightarrow> ('w, 'a, 'p, 'q) app
    \<Rightarrow> ('a, 'e, 'err) reply option \<times> ('w, 'a, 'p, 'q) app" where
  "call_actor N tid i msg ap =
     (case cache ap (tid, i) of
        Some (Alive K st) \<Rightarrow>
          (let fires = (case timeouts ap of [] \<Rightarrow> False | b # _ \<Rightarrow> b);
               (rep, status, st') = actor_step (cfg_ext N) (types N tid) (cfg_ops N) (new_v4 N) K
                 (if fires then Elapsed else Message msg)
                 (st\<lparr>store := world ap, disk := app_fs ap\<rparr>)
           in (rep, ap\<lparr>world := store st', app_fs := disk st', timeouts := tl (timeouts ap),
                 cache := (cache ap)((tid, i) \<mapsto>
                   (case status of Running \<Rightarrow> Alive K st' | _ \<Rightarrow> Stale))\<rparr>))
      | _ \<Rightarrow> (None, ap))"

text \<open>The idle timer of a cached actor fires while no message is waiting.\<close>

definition actor_elapses ::
  "('w, 'a, 'c, 'e, 'err) config \<Rightarrow> nat \<Rightarrow> string \<Rightarrow> ('w, 'a, 'p, 'q) app \<Rightarrow> ('w, 'a, 'p, 'q) app" where
  "actor_elapses N tid i ap =
     (case cache ap (tid, i) of
        Some (Alive K st) \<Rightarrow>
          (let (rep, status, st') = actor_step (cfg_ext N) (types N tid) (cfg_ops N) (new_v4 N) K Elapsed
                 (st\<lparr>store := world ap, disk := app_fs ap\<rparr>)
           in ap\<lparr>world := store st', app_fs := disk st', cache := (cache ap)((tid, i) \<mapsto> Stale)\<rparr>)
      | _ \<Rightarrow> ap)"

definition store_execute ::
  "('w, 'a, 'c, 'e, 'err) config \<Rightarrow> nat \<Rightarrow> string \<Rightarrow> 'c \<Rightarrow> command_context \<Rightarrow> ('w, 'a, 'p, 'q) app
    \<Rightarrow> ('err execute_error + 'e list) \<times> ('w, 'a, 'p, 'q) app" where
  "store_execute N tid i cmd ctx ap =
     (case call_actor N tid i (Execute cmd ctx) ap of
        (rep, ap') \<Rightarrow>
          (handle_execute True (case rep of Some (ExecuteReply r) \<Rightarrow> Some r | _ \<Rightarrow> None), ap'))"

definition store_state ::
  "('w, 'a, 'c, 'e, 'err) config \<Rightarrow> nat \<Rightarrow> string \<Rightarrow> ('w, 'a, 'p, 'q) app
    \<Rightarrow> (state_error + 'a) \<times> ('w, 'a, 'p, 'q) app" where
  "store_state N tid i ap =
     (case call_actor N tid i GetState ap of
        (rep, ap') \<Rightarrow>
          (handle_state True (case rep of Some (StateReply r) \<Rightarrow> Some r | _ \<Rightarrow> None), ap'))"

subsection \<open>Dispatch\<close>

definition dispatch ::
  "('w, 'a, 'c, 'e, 'err) config \<Rightarrow> ('c, 'err) dispatcher \<Rightarrow> command_envelope \<Rightarrow> ('w, 'a, 'p, 'q) app
    \<Rightarrow> (io_error + unit) \<times> ('w, 'a, 'p, 'q) app" where
  "dispatch N D envelope ap =
     (case command_from_value D (env_command envelope) of
        Inl e \<Rightarrow> (Inl (io_error_other (''command deserialization failed: '' @ e)), ap)
      | Inr cmd \<Rightarrow>
          (case store_get N (target_type D) (env_instance_id envelope) ap of
             (Inl st, ap1) \<Rightarrow>
               (Inl (io_error_other (''actor spawn failed: '' @ status_to_string (cfg_ext N) st)), ap1)
           | (Inr _, ap1) \<Rightarrow>
               (case store_execute N (target_type D) (env_instance_id envelope) cmd
                       (env_context envelope) ap1 of
                  (Inl e, ap2) \<Rightarrow>
                    (Inl (io_error_other (''command execution failed: '' @
                       execute_error_to_string (cfg_ext N) (error_to_string D) e)), ap2)
                | (Inr _, ap2) \<Rightarrow> (Inr (), ap2))))"

text \<open>The outcome of one envelope: dispatched, or a line of the dead-letter log.\<close>

definition dead_letter ::
  "('w, 'a, 'c, 'e, 'err) config \<Rightarrow> path \<Rightarrow> command_envelope \<Rightarrow> string \<Rightarrow> ('w, 'a, 'p, 'q) app
    \<Rightarrow> (io_error fault + unit) \<times> ('w, 'a, 'p, 'q) app" where
  "dead_letter N path envelope err ap =
     (case append_dead_letter (cfg_ext N) (clock ap) path envelope err (app_fs ap) of
        (r, F) \<Rightarrow> (r, ap\<lparr>app_fs := F\<rparr>))"

definition dispatch_or_error ::
  "('w, 'a, 'c, 'e, 'err) config \<Rightarrow> command_envelope \<Rightarrow> ('w, 'a, 'p, 'q) app
    \<Rightarrow> (string + unit) \<times> ('w, 'a, 'p, 'q) app" where
  "dispatch_or_error N envelope ap =
     (case dispatchers N (env_aggregate_type envelope) of
        Some D \<Rightarrow>
          (case dispatch N D envelope ap of
             (Inr _, ap1) \<Rightarrow> (Inr (), ap1)
           | (Inl e, ap1) \<Rightarrow> (Inl (message e), ap1))
      | None \<Rightarrow> (Inl (''unknown aggregate type: '' @ env_aggregate_type envelope), ap))"

definition dispatch_one ::
  "('w, 'a, 'c, 'e, 'err) config \<Rightarrow> path \<Rightarrow> command_envelope
    \<Rightarrow> process_manager_report \<times> ('w, 'a, 'p, 'q) app
    \<Rightarrow> (io_error fault + process_manager_report) \<times> ('w, 'a, 'p, 'q) app" where
  "dispatch_one N path envelope = (\<lambda>(report, ap).
     case dispatch_or_error N envelope ap of
       (Inr _, ap1) \<Rightarrow> (Inr (report\<lparr>dispatched := dispatched report + 1\<rparr>), ap1)
     | (Inl err, ap1) \<Rightarrow>
         (case dead_letter N path envelope err ap1 of
            (Inl e, ap2) \<Rightarrow> (Inl e, ap2)
          | (Inr _, ap2) \<Rightarrow> (Inr (report\<lparr>dead_lettered := dead_lettered report + 1\<rparr>), ap2)))"

fun dispatch_all ::
  "('w, 'a, 'c, 'e, 'err) config \<Rightarrow> (command_envelope \<times> path) list
    \<Rightarrow> process_manager_report \<times> ('w, 'a, 'p, 'q) app
    \<Rightarrow> (io_error fault + process_manager_report) \<times> ('w, 'a, 'p, 'q) app" where
  "dispatch_all N [] (report, ap) = (Inr report, ap)"
| "dispatch_all N ((envelope, path) # work) (report, ap) =
     (case dispatch_one N path envelope (report, ap) of
        (Inl e, ap1) \<Rightarrow> (Inl e, ap1)
      | (Inr report1, ap1) \<Rightarrow> dispatch_all N work (report1, ap1))"

subsection \<open>Running the process managers\<close>

text \<open>The first loop: each manager catches up in turn, the first error ends the run.\<close>

fun collect_work ::
  "('w, 'a, 'c, 'e, 'err) config \<Rightarrow> 'q registered_pm list \<Rightarrow> 'w
    \<Rightarrow> (io_error + (command_envelope list \<times> path) list) \<times> 'q registered_pm list \<times> 'w" where
  "collect_work N [] w = (Inr [], [], w)"
| "collect_work N (pm # pms) w =
     (case pm_catch_up (cfg_ext N) (rpm_manager pm) (cfg_rpc N) (client N) (rpm_runner pm) w of
        (Inl e, rn, w1) \<Rightarrow> (Inl e, pm\<lparr>rpm_runner := rn\<rparr> # pms, w1)
      | (Inr envelopes, rn, w1) \<Rightarrow>
          (case collect_work N pms w1 of
             (Inl e, pms', w2) \<Rightarrow> (Inl e, pm\<lparr>rpm_runner := rn\<rparr> # pms', w2)
           | (Inr work, pms', w2) \<Rightarrow>
               (Inr ((envelopes, dead_letter_path rn) # work), pm\<lparr>rpm_runner := rn\<rparr> # pms', w2)))"

definition flatten_work :: "(command_envelope list \<times> path) list \<Rightarrow> (command_envelope \<times> path) list" where
  "flatten_work work = concat (map (\<lambda>(envs, path). map (\<lambda>e. (e, path)) envs) work)"

fun save_pms ::
  "ext \<Rightarrow> 'q registered_pm list \<Rightarrow> fs \<Rightarrow> (io_error + unit) \<times> fs" where
  "save_pms E [] F = (Inr (), F)"
| "save_pms E (pm # pms) F =
     (case pm_save E (rpm_manager pm) (rpm_runner pm) F of
        (Inl e, F1) \<Rightarrow> (Inl e, F1)
      | (Inr _, F1) \<Rightarrow> save_pms E pms F1)"

definition run_process_managers ::
  "('w, 'a, 'c, 'e, 'err) config \<Rightarrow> ('w, 'a, 'p, 'q) app
    \<Rightarrow> (io_error fault + process_manager_report) \<times> ('w, 'a, 'p, 'q) app" where
  "run_process_managers N ap =
     (case collect_work N (process_managers ap) (world ap) of
        (Inl e, pms, w) \<Rightarrow> (Inl (Raised e), ap\<lparr>process_managers := pms, world := w\<rparr>)
      | (Inr work, pms, w) \<Rightarrow>
          (case dispatch_all N (flatten_work work)
                  (report_default, ap\<lparr>process_managers := pms, world := w\<rparr>) of
             (Inl e, ap1) \<Rightarrow> (Inl e, ap1)
           | (Inr report, ap1) \<Rightarrow>
               (case save_pms (cfg_ext N) (process_managers ap1) (app_fs ap1) of
                  (Inl e, F) \<Rightarrow> (Inl (Raised e), ap1\<lparr>app_fs := F\<rparr>)
                | (Inr _, F) \<Rightarrow> (Inr report, ap1\<lparr>app_fs := F\<rparr>))))"

subsection \<open>Injection and projections\<close>

definition inject_event ::
  "('w, 'a, 'c, 'e, 'err) config \<Rightarrow> nat \<Rightarrow> string \<Rightarrow> proposed_event_data \<Rightarrow> bool
    \<Rightarrow> ('w, 'a, 'p, 'q) app \<Rightarrow> (io_error fault + unit) \<times> ('w, 'a, 'p, 'q) app" where
  "inject_event N tid i proposed opt_run_process_managers ap =
     (let sid = stream_uuid (cfg_ext N) (AGGREGATE_TYPE (types N tid)) i
      in case es_append (cfg_ext N) (cfg_rpc N) (client N) sid Any [proposed] (world ap) of
           (Inl st, w) \<Rightarrow>
             (Inl (Raised (io_error_other (''gRPC append failed: '' @ status_to_string (cfg_ext N) st))),
              ap\<lparr>world := w\<rparr>)
         | (Inr _, w) \<Rightarrow>
             (if opt_run_process_managers then
                (case run_process_managers N (ap\<lparr>world := w\<rparr>) of
                   (Inl e, ap1) \<Rightarrow> (Inl e, ap1)
                 | (Inr _, ap1) \<Rightarrow> (Inr (), ap1))
              else (Inr (), ap\<lparr>world := w\<rparr>)))"

fun update_first :: "string \<Rightarrow> 'b \<Rightarrow> (string \<times> 'b) list \<Rightarrow> (string \<times> 'b) list" where
  "update_first k v [] = []"
| "update_first k v ((k', v') # m) = (if k = k' then (k, v) # m else (k', v') # update_first k v m)"

definition not_registered :: "string \<Rightarrow> io_error" where
  "not_registered name =
     io_error_new NotFound (''projection '' @ [CHR 0x27] @ name @ [CHR 0x27] @ '' not registered'')"

text \<open>\<open>P\<close> and \<open>tid\<close> are the projection type asked for: its name and its \<open>TypeId\<close>.\<close>

definition store_projection ::
  "('w, 'a, 'c, 'e, 'err) config \<Rightarrow> 'p projection \<Rightarrow> nat \<Rightarrow> ('w, 'a, 'p, 'q) app
    \<Rightarrow> (io_error + 'p) \<times> ('w, 'a, 'p, 'q) app" where
  "store_projection N P tid ap =
     (case map_of (projections ap) (NAME P) of
        None \<Rightarrow> (Inl (not_registered (NAME P)), ap)
      | Some rp \<Rightarrow>
          (case projection_catch_up (cfg_ext N) (rp_projection rp) (cfg_rpc N) (client N) (rp_runner rp)
                  (world ap) (app_fs ap) of
             (r, rn, w, F) \<Rightarrow>
               (let ap1 = ap\<lparr>world := w, app_fs := F,
                      projections := update_first (NAME P) (rp\<lparr>rp_runner := rn\<rparr>) (projections ap)\<rparr>
                in case r of
                     Inl e \<Rightarrow> (Inl e, ap1)
                   | Inr _ \<Rightarrow>
                       (if rp_type rp = tid then (Inr (projection_state_any rn), ap1)
                        else (Inl (io_error_other ''projection type mismatch''), ap1)))))"

text \<open>\<open>live\<close>: whether \<open>start_live\<close> has been called.\<close>

definition live_projection ::
  "('w, 'a, 'c, 'e, 'err) config \<Rightarrow> 'p projection \<Rightarrow> nat \<Rightarrow> bool \<Rightarrow> ('w, 'a, 'p, 'q) app
    \<Rightarrow> (io_error + 'p) \<times> ('w, 'a, 'p, 'q) app" where
  "live_projection N P tid live ap =
     (if live then
        (case map_of (projections ap) (NAME P) of
           None \<Rightarrow> (Inl (not_registered (NAME P)), ap)
         | Some rp \<Rightarrow>
             (if rp_type rp = tid then (Inr (projection_state_any (rp_runner rp)), ap)
              else (Inl (io_error_other ''projection type mismatch''), ap)))
      else store_projection N P tid ap)"

end
