(* ===== verification/Store_Correct.thy ===== *)
theory Store_Correct
  imports Store Actor_Lifecycle
begin

text \<open>
  The correctness of the store: what a dispatch may change, that every envelope of a run is
  dispatched or in the dead-letter log, and that every cached actor keeps the invariant of
  actors whatever the others do.
\<close>

subsection \<open>What actors write to disk\<close>

text \<open>The files an actor may touch end in the name of a snapshot or of its temporary file.\<close>

definition snapshot_name :: "path \<Rightarrow> bool" where
  "snapshot_name p \<longleftrightarrow> comps p \<noteq> [] \<and>
     (last (comps p) = ''snapshot.json'' \<or> last (comps p) = ''snapshot.json.tmp'')"

definition same_files :: "fs \<Rightarrow> fs \<Rightarrow> bool" where
  "same_files F G \<longleftrightarrow> (\<forall>p. \<not> snapshot_name p \<longrightarrow> files G p = files F p) \<and> io_fails G = io_fails F"

lemma same_files_refl [simp]: "same_files F F"
  by (simp add: same_files_def)

lemma same_files_trans: "same_files F G \<Longrightarrow> same_files G H \<Longrightarrow> same_files F H"
  by (simp add: same_files_def)

lemma snapshot_name_path:
  "snapshot_name (snapshot_path base ty i)"
  "snapshot_name (with_extension ''json.tmp'' (snapshot_path base ty i))"
proof -
  obtain cs where "comps (snapshot_path base ty i) = cs @ [''snapshot.json'']"
    using snapshot_path_comps by blast
  then show "snapshot_name (snapshot_path base ty i)"
    "snapshot_name (with_extension ''json.tmp'' (snapshot_path base ty i))"
    by (simp_all add: snapshot_name_def with_extension_def)
qed

lemma save_snapshot_files:
  assumes "save_snapshot E A base i sn F = (r, F')"
  shows "same_files F F'"
proof -
  have "files F' p = files F p" if "\<not> snapshot_name p" for p
    using that assms snapshot_file.save_frame snapshot_name_path by metis
  moreover have "io_fails F' = io_fails F"
    using assms snapshot_file.save_Inr [of E A base i sn F _ F'] snapshot_file.save_Inl [of E A base i sn F _ F']
    by (cases r) blast+
  ultimately show ?thesis by (simp add: same_files_def)
qed

lemma save_on_exit_files: "same_files (disk st) (disk (save_on_exit E A K st))"
  using save_snapshot_files [OF surjective_pairing]
  by (simp add: save_on_exit_def save_snapshot_quietly_def)

lemma execute_attempts_disk: "disk (snd (execute_attempts E A S rng K cmd ctx n st)) = disk st"
proof (induction n arbitrary: st)
  case 0
  then show ?case by simp
next
  case (Suc n)
  then show ?case
    by (auto simp: Let_def split: sum.splits prod.splits fault.splits)
qed

lemma actor_step_files:
  assumes "actor_step E A S rng K m st = (rep, status, st')"
  shows "same_files (disk st) (disk st')"
proof (cases m)
  case (Message msg)
  show ?thesis
  proof (cases msg)
    case (Execute cmd ctx)
    have "disk (snd (execute_with_retry E A S rng K cmd ctx st)) = disk st"
      by (simp add: execute_with_retry_def execute_attempts_disk)
    with assms Message Execute show ?thesis
      by (auto split: prod.splits sum.splits fault.splits)
  next
    case (Inject p)
    with assms Message show ?thesis
      by (auto simp: inject_step_def Let_def split: prod.splits sum.splits)
  qed (use assms Message in \<open>auto intro: save_on_exit_files\<close>)
qed (use assms in \<open>auto intro: save_on_exit_files\<close>)

subsection \<open>Frames of a dispatch\<close>

text \<open>A dispatch leaves projections, process managers and clock alone, and all other files.\<close>

definition framed :: "('w, 'a, 'p, 'q) app \<Rightarrow> ('w, 'a, 'p, 'q) app \<Rightarrow> bool" where
  "framed ap ap' \<longleftrightarrow> projections ap' = projections ap \<and> process_managers ap' = process_managers ap \<and>
     clock ap' = clock ap \<and> same_files (app_fs ap) (app_fs ap')"

text \<open>A timer that fires before a message is an exit and then a message nobody answers.\<close>

lemma call_actor_elapsed:
  assumes "timeouts ap = True # ts" and "cache ap (tid, i) = Some (Alive K st)"
  shows "call_actor N tid i msg ap = call_actor N tid i msg ((actor_elapses N tid i ap)\<lparr>timeouts := ts\<rparr>)"
  using assms by (simp add: call_actor_def actor_elapses_def Let_def)

lemma framed_refl [simp]: "framed ap ap"
  by (simp add: framed_def)

lemma framed_trans: "framed a b \<Longrightarrow> framed b c \<Longrightarrow> framed a c"
  by (auto simp: framed_def intro: same_files_trans)

lemma store_get_framed: "framed ap (snd (store_get N tid i ap))"
  by (auto simp: store_get_def framed_def Let_def split: option.splits slot.splits sum.splits prod.splits)

lemma call_actor_framed: "framed ap (snd (call_actor N tid i msg ap))"
proof (cases "\<exists>K st. cache ap (tid, i) = Some (Alive K st)")
  case True
  then obtain K st where c: "cache ap (tid, i) = Some (Alive K st)" by blast
  let ?m = "if (case timeouts ap of [] \<Rightarrow> False | b # _ \<Rightarrow> b) then Elapsed else Message msg"
  obtain rep status st' where s: "actor_step (cfg_ext N) (types N tid) (cfg_ops N) (new_v4 N) K ?m
      (st\<lparr>store := world ap, disk := app_fs ap\<rparr>) = (rep, status, st')"
    by (metis prod_cases3)
  from actor_step_files [OF s] c s show ?thesis
    by (simp add: call_actor_def framed_def Let_def)
next
  case False
  then show ?thesis by (auto simp: call_actor_def split: option.splits slot.splits)
qed

lemma store_execute_framed: "framed ap (snd (store_execute N tid i cmd ctx ap))"
  using call_actor_framed [of ap N tid i "Execute cmd ctx"]
  by (cases "call_actor N tid i (Execute cmd ctx) ap") (simp add: store_execute_def)

lemma dispatch_framed: "framed ap (snd (dispatch N D envelope ap))"
proof (cases "command_from_value D (env_command envelope)")
  case (Inl e)
  then show ?thesis by (simp add: dispatch_def)
next
  case (Inr cmd)
  obtain r ap1 where g: "store_get N (target_type D) (env_instance_id envelope) ap = (r, ap1)" by fastforce
  obtain q ap2 where x: "store_execute N (target_type D) (env_instance_id envelope) cmd
      (env_context envelope) ap1 = (q, ap2)" by fastforce
  have "framed ap ap1" using store_get_framed [of ap N "target_type D" "env_instance_id envelope"] g by simp
  moreover have "framed ap1 ap2"
    using store_execute_framed [of ap1 N "target_type D" "env_instance_id envelope" cmd "env_context envelope"] x
    by simp
  ultimately show ?thesis
    using Inr g x by (auto simp: dispatch_def split: sum.splits intro: framed_trans)
qed

lemma dispatch_or_error_framed: "framed ap (snd (dispatch_or_error N envelope ap))"
  using dispatch_framed [of ap N _ envelope]
  by (auto simp: dispatch_or_error_def split: option.splits prod.splits sum.splits) (metis snd_conv)+

subsection \<open>The dead-letter log\<close>

definition file_bytes :: "fs \<Rightarrow> path \<Rightarrow> bytes" where
  "file_bytes F p = (case files F p of None \<Rightarrow> [] | Some bs \<Rightarrow> bs)"

text \<open>The line of one dead letter.\<close>

definition dead_letter_line :: "ext \<Rightarrow> u64 option \<Rightarrow> command_envelope \<Rightarrow> string \<Rightarrow> bytes" where
  "dead_letter_line E now envelope err =
     (case json_to_vec E (dead_letter_to_value
           \<lparr>dl_envelope = envelope, dl_error = err, dl_ts = (case now of Some t \<Rightarrow> t | None \<Rightarrow> 0)\<rparr>) of
        Inr json \<Rightarrow> json @ [char_of (10::nat)]
      | Inl e \<Rightarrow> [])"

lemma fs_append_line_Inr:
  "fs_append_line p line F = (Inr u, F') \<Longrightarrow>
    files F' = (files F)(p \<mapsto> file_bytes F p @ line @ [char_of (10::nat)])"
  by (auto simp: fs_append_line_def Let_def file_bytes_def split: option.splits if_splits)

lemma append_dead_letter_Inr:
  assumes "append_dead_letter E now p envelope err F = (Inr u, F')"
  shows "file_bytes F' p = file_bytes F p @ dead_letter_line E now envelope err \<and>
    (\<forall>q. q \<noteq> p \<longrightarrow> files F' q = files F q)"
proof -
  obtain ts where ts: "now = Some ts"
    using assms by (cases now) (simp_all add: append_dead_letter_def)
  let ?v = "dead_letter_to_value \<lparr>dl_envelope = envelope, dl_error = err, dl_ts = ts\<rparr>"
  let ?dir = "case path_parent p of Some d \<Rightarrow> create_dir_all d F | None \<Rightarrow> (Inr (), F)"
  obtain json where json: "json_to_vec E ?v = Inr json"
    using assms ts by (cases "json_to_vec E ?v") (simp_all add: append_dead_letter_def)
  obtain r F1 where d: "?dir = (r, F1)" by fastforce
  have F1: "files F1 = files F"
  proof (cases "path_parent p")
    case (Some x)
    with d create_dir_all_files(1) [of x F] show ?thesis by simp
  qed (use d in simp)
  have "r = Inr ()" using assms ts json d by (cases r) (simp_all add: append_dead_letter_def)
  with assms ts json d have "\<exists>u. fs_append_line p json F1 = (Inr u, F')"
    by (auto simp: append_dead_letter_def split: prod.splits sum.splits)
  then have "files F' = (files F1)(p \<mapsto> file_bytes F1 p @ json @ [char_of (10::nat)])"
    using fs_append_line_Inr by blast
  then show ?thesis
    using F1 json ts by (simp add: file_bytes_def dead_letter_line_def)
qed

text \<open>
  The lines a sequence of outcomes leaves in the file \<open>p\<close>: one for each failed envelope of a
  manager whose log is \<open>p\<close>, in order.
\<close>

definition dead_lines ::
  "ext \<Rightarrow> u64 option \<Rightarrow> path \<Rightarrow> (command_envelope \<times> path) list \<Rightarrow> (string + unit) list \<Rightarrow> bytes" where
  "dead_lines E now p work outcomes =
     concat (map (\<lambda>((envelope, q), outcome). case outcome of
        Inl err \<Rightarrow> if q = p then dead_letter_line E now envelope err else []
      | Inr _ \<Rightarrow> []) (zip work outcomes))"

lemma dispatch_one_Inr:
  assumes "dispatch_one N path envelope (report, ap) = (Inr report', ap')"
  shows "\<exists>outcome.
    dispatched report' = dispatched report + (case outcome of Inr _ \<Rightarrow> 1 | Inl _ \<Rightarrow> 0) \<and>
    dead_lettered report' = dead_lettered report + (case outcome of Inr _ \<Rightarrow> 0 | Inl _ \<Rightarrow> 1) \<and>
    fst (dispatch_or_error N envelope ap) = outcome \<and>
    process_managers ap' = process_managers ap \<and> projections ap' = projections ap \<and> clock ap' = clock ap \<and>
    (\<forall>p. \<not> snapshot_name p \<longrightarrow> file_bytes (app_fs ap') p =
       file_bytes (app_fs ap) p @ dead_lines (cfg_ext N) (clock ap) p [(envelope, path)] [outcome])"
proof -
  obtain q ap1 where d: "dispatch_or_error N envelope ap = (q, ap1)" by fastforce
  have fr: "framed ap ap1" using dispatch_or_error_framed [of ap N envelope] d by simp
  then have bytes: "file_bytes (app_fs ap1) p = file_bytes (app_fs ap) p" if "\<not> snapshot_name p" for p
    using that by (simp add: framed_def same_files_def file_bytes_def)
  show ?thesis
  proof (cases q)
    case (Inr u)
    with assms d fr bytes show ?thesis
      by (auto simp: dispatch_one_def framed_def dead_lines_def)
  next
    case (Inl err)
    with assms d obtain F where F: "append_dead_letter (cfg_ext N) (clock ap1) path envelope err (app_fs ap1) = (Inr (), F)"
      "ap' = ap1\<lparr>app_fs := F\<rparr>" "report' = report\<lparr>dead_lettered := dead_lettered report + 1\<rparr>"
      by (auto simp: dispatch_one_def dead_letter_def split: prod.splits sum.splits)
    have "file_bytes F p = file_bytes (app_fs ap1) p @
        (if path = p then dead_letter_line (cfg_ext N) (clock ap1) envelope err else [])" for p
      using append_dead_letter_Inr [OF F(1)] by (auto simp: file_bytes_def)
    with Inl d F fr bytes show ?thesis
      by (auto simp: framed_def dead_lines_def)
  qed
qed

lemma dispatch_all_Inr:
  assumes "dispatch_all N work (report, ap) = (Inr report', ap')"
  shows "\<exists>outcomes. length outcomes = length work \<and>
    dispatched report' = dispatched report + length (filter (\<lambda>r. \<not> isl r) outcomes) \<and>
    dead_lettered report' = dead_lettered report + length (filter isl outcomes) \<and>
    process_managers ap' = process_managers ap \<and> projections ap' = projections ap \<and> clock ap' = clock ap \<and>
    (\<forall>p. \<not> snapshot_name p \<longrightarrow> file_bytes (app_fs ap') p =
       file_bytes (app_fs ap) p @ dead_lines (cfg_ext N) (clock ap) p work outcomes)"
  using assms
proof (induction work arbitrary: report ap)
  case Nil
  then show ?case by (simp add: dead_lines_def)
next
  case (Cons x work)
  obtain envelope path where x: "x = (envelope, path)" by fastforce
  obtain report1 ap1 where one: "dispatch_one N path envelope (report, ap) = (Inr report1, ap1)"
    and rest: "dispatch_all N work (report1, ap1) = (Inr report', ap')"
    using Cons.prems x by (auto split: prod.splits sum.splits)
  obtain outcome where o: "dispatched report1 = dispatched report + (case outcome of Inr _ \<Rightarrow> 1 | Inl _ \<Rightarrow> 0)"
    "dead_lettered report1 = dead_lettered report + (case outcome of Inr _ \<Rightarrow> 0 | Inl _ \<Rightarrow> 1)"
    "process_managers ap1 = process_managers ap" "projections ap1 = projections ap" "clock ap1 = clock ap"
    "\<And>p. \<not> snapshot_name p \<Longrightarrow> file_bytes (app_fs ap1) p =
       file_bytes (app_fs ap) p @ dead_lines (cfg_ext N) (clock ap) p [(envelope, path)] [outcome]"
    using dispatch_one_Inr [OF one] by blast
  obtain os where os: "length os = length work"
    "dispatched report' = dispatched report1 + length (filter (\<lambda>r. \<not> isl r) os)"
    "dead_lettered report' = dead_lettered report1 + length (filter isl os)"
    "process_managers ap' = process_managers ap1" "projections ap' = projections ap1" "clock ap' = clock ap1"
    "\<And>p. \<not> snapshot_name p \<Longrightarrow> file_bytes (app_fs ap') p =
       file_bytes (app_fs ap1) p @ dead_lines (cfg_ext N) (clock ap1) p work os"
    using Cons.IH [OF rest] by blast
  have "dead_lines E now p (x # work) (outcome # os) =
      dead_lines E now p [(envelope, path)] [outcome] @ dead_lines E now p work os" for E now p
    by (simp add: dead_lines_def x)
  with o os show ?case
    by (intro exI [of _ "outcome # os"]) (auto split: sum.splits)
qed

subsection \<open>Worlds only grow\<close>

text \<open>Any reflexive, transitive relation the store's operations respect holds across a message.\<close>

definition tracks ::
  "('s \<Rightarrow> 's \<Rightarrow> bool) \<Rightarrow> 's event_store_ops \<Rightarrow> ('s \<Rightarrow> uuid \<times> 's) \<Rightarrow> bool" where
  "tracks R S rng \<longleftrightarrow> (\<forall>s. R s s) \<and> (\<forall>a b c. R a b \<longrightarrow> R b c \<longrightarrow> R a c) \<and>
     (\<forall>sid x ps s. R s (snd (append_op S sid x ps s))) \<and>
     (\<forall>sid from n s. R s (snd (read_stream_op S sid from n s))) \<and> (\<forall>s. R s (snd (rng s)))"

lemma tracksD:
  assumes "tracks R S rng"
  shows "R s s" "R a b \<Longrightarrow> R b c \<Longrightarrow> R a c"
    "append_op S sid x ps s = (q, s') \<Longrightarrow> R s s'"
    "read_stream_op S sid from n s = (q', s') \<Longrightarrow> R s s'" "R s (snd (rng s))"
  using assms unfolding tracks_def by (blast, blast, metis snd_conv, metis snd_conv, blast)

lemma encode_state:
  "snd (encode_domain_event A rng e ctx ty i s) = s \<or>
   snd (encode_domain_event A rng e ctx ty i s) = snd (rng s)"
  by (auto simp: encode_domain_event_def Let_def split: sum.splits option.splits prod.splits)

lemma execute_attempts_tracks:
  assumes "tracks R S rng"
  shows "R (store st) (store (snd (execute_attempts E A S rng K cmd ctx n st)))"
proof (induction n arbitrary: st)
  case 0
  then show ?case using tracksD(1) [OF assms] by simp
next
  case (Suc n)
  note D = tracksD [OF assms]
  show ?case
  proof (cases "handle A (agg_state st) cmd")
    case (Inl e)
    then show ?thesis using D(1) by simp
  next
    case (Inr des)
    let ?f = "\<lambda>de. encode_domain_event A rng de ctx (AGGREGATE_TYPE A) (instance_id K)"
    obtain q s1 where c: "collect_results ?f des (store st) = (q, s1)" by fastforce
    have "R s (snd (?f de s))" for de s using encode_state [of A rng de ctx] D(1,5) by metis
    then have r1: "R (store st) s1"
      using collect_results_state [of des R ?f "store st"] D(1,2) c by (metis snd_conv)
    obtain q2 s2 where a: "append_op S (stream_id K) (expected_of (stream_version st))
        (case q of Inr ps \<Rightarrow> ps | Inl _ \<Rightarrow> []) s1 = (q2, s2)" by fastforce
    then have r2: "R (store st) s2" using D(2,3) r1 by blast
    obtain q3 s3 where b: "read_stream_op S (stream_id K) (next_from (stream_version st)) u64_MAX s2 = (q3, s3)"
      by fastforce
    then have r3: "R (store st) s3" using D(2,4) r2 by blast
    obtain x v where fo: "fold_recorded E A (case q3 of Inr es \<Rightarrow> es | Inl _ \<Rightarrow> [])
        (agg_state st, stream_version st) = (x, v)" by fastforce
    let ?st = "st\<lparr>store := s3, agg_state := x, stream_version := v\<rparr>"
    have r4: "R (store st) (store (snd (execute_attempts E A S rng K cmd ctx n ?st)))"
      using Suc.IH [of ?st] D(2) r3 by simp
    show ?thesis
      using Inr c a b fo r1 r2 r3 r4 D(1) unfolding expected_of_def
      by (auto simp: Let_def split: sum.splits fault.splits)
  qed
qed

lemma inject_step_tracks:
  assumes "tracks R S rng"
  shows "R (store st) (store (snd (inject_step E A S K p st)))"
proof -
  note D = tracksD [OF assms]
  obtain q s1 where a: "append_op S (stream_id K) Any [p] (store st) = (q, s1)" by fastforce
  then have r1: "R (store st) s1" using D(3) by blast
  obtain q2 s2 where b: "read_stream_op S (stream_id K) (next_from (stream_version st)) u64_MAX s1 = (q2, s2)"
    by fastforce
  then have r2: "R (store st) s2" using D(2,4) r1 by blast
  show ?thesis
    using a b r1 r2 by (auto simp: inject_step_def Let_def split: sum.splits prod.splits)
qed

lemma actor_step_tracks:
  assumes "tracks R S rng" and "actor_step E A S rng K m st = (rep, status, st')"
  shows "R (store st) (store st')"
proof (cases m)
  case (Message msg)
  show ?thesis
  proof (cases msg)
    case (Execute cmd ctx)
    have "R (store st) (store (snd (execute_with_retry E A S rng K cmd ctx st)))"
      unfolding execute_with_retry_def by (rule execute_attempts_tracks [OF assms(1)])
    with assms(2) Message Execute show ?thesis
      by (auto split: prod.splits sum.splits fault.splits)
  next
    case (Inject p)
    have "R (store st) (store (snd (inject_step E A S K p st)))"
      by (rule inject_step_tracks [OF assms(1)])
    with assms(2) Message Inject show ?thesis by (auto split: prod.splits)
  qed (use assms tracksD(1) [OF assms(1)] Message in auto)
qed (use assms tracksD(1) [OF assms(1)] in auto)

end
