(* ===== verification/Store_Invariant.thy ===== *)
theory Store_Invariant
  imports Store_Correct
begin

text \<open>
  The invariant of a whole store: every running actor in the cache is a prefix of its own
  stream, whatever the other actors, injections and process managers append; and what a
  successful dispatch means for the stream of its target.
\<close>

subsection \<open>The setting\<close>

definition stream_of ::
  "('w, 'a, 'c, 'e, 'err) config \<Rightarrow> ('w \<Rightarrow> string \<Rightarrow> recorded_event list) \<Rightarrow> 'w \<Rightarrow> nat \<Rightarrow> string
    \<Rightarrow> recorded_event list" where
  "stream_of N strm w tid i =
     strm w (uuid_to_string (cfg_ext N) (stream_uuid (cfg_ext N) (AGGREGATE_TYPE (types N tid)) i))"

definition actor_context_of :: "('w, 'a, 'c, 'e, 'err) config \<Rightarrow> nat \<Rightarrow> string \<Rightarrow> actor_context" where
  "actor_context_of N tid i =
     \<lparr>stream_id = stream_uuid (cfg_ext N) (AGGREGATE_TYPE (types N tid)) i, instance_id = i,
      base_dir = cfg_base_dir N\<rparr>"

definition grows :: "('w \<Rightarrow> string \<Rightarrow> recorded_event list) \<Rightarrow> 'w \<Rightarrow> 'w \<Rightarrow> bool" where
  "grows strm w w' \<longleftrightarrow> (\<forall>sid. prefix (strm w sid) (strm w' sid))"

text \<open>
  The dependencies behave, every aggregate follows the convention, the server keeps its
  contract, and neither drawing an identifier nor subscribing changes a stream otherwise than
  by letting others append.
\<close>

definition cfg_setting ::
  "('w, 'a, 'c, 'e, 'err) config \<Rightarrow> ('w \<Rightarrow> string \<Rightarrow> recorded_event list) \<Rightarrow> bool" where
  "cfg_setting N strm \<longleftrightarrow>
     ext_ok (cfg_ext N) \<and> (\<forall>tid. adjacently_tagged (types N tid)) \<and> rpc_contract (cfg_rpc N) strm \<and>
     (\<forall>w sid. strm (snd (new_v4 N w)) sid = strm w sid) \<and>
     (\<forall>w md pos. grows strm w (snd (rpc_subscribe_all (cfg_rpc N) w md pos)))"

text \<open>
  \<open>J\<close> is the set of instances, by type and id, that the invariant speaks of: all of them, or
  those whose snapshot files no exit of another actor can overwrite.
\<close>

definition app_inv ::
  "('w, 'a, 'c, 'e, 'err) config \<Rightarrow> (nat \<times> string) set \<Rightarrow> ('w \<Rightarrow> string \<Rightarrow> recorded_event list)
    \<Rightarrow> ('w, 'a, 'p, 'q) app \<Rightarrow> bool" where
  "app_inv N J strm ap \<longleftrightarrow>
     (\<forall>tid i K st. (tid, i) \<in> J \<longrightarrow> cache ap (tid, i) = Some (Alive K st) \<longrightarrow>
        K = actor_context_of N tid i \<and>
        (\<exists>es. prefix es (stream_of N strm (world ap) tid i) \<and> synced (cfg_ext N) (types N tid) es st)) \<and>
     (\<forall>tid i. (tid, i) \<in> J \<longrightarrow> disk_inv (cfg_ext N) (types N tid) (cfg_base_dir N) i
        (stream_of N strm (world ap) tid i) (app_fs ap))"

lemma grows_refl [simp]: "grows strm w w"
  by (simp add: grows_def)

lemma grows_trans: "grows strm a b \<Longrightarrow> grows strm b c \<Longrightarrow> grows strm a c"
  unfolding grows_def by (blast intro: prefix_order.trans)

lemma stream_of_grows: "grows strm w w' \<Longrightarrow> prefix (stream_of N strm w tid i) (stream_of N strm w' tid i)"
  by (simp add: grows_def stream_of_def)

lemma cfg_setting_actor:
  assumes "cfg_setting N strm"
  shows "actor_setting (cfg_ext N) (types N tid) (cfg_ops N) (new_v4 N) (actor_context_of N tid i)
    (\<lambda>w. stream_of N strm w tid i)"
proof -
  have "store_contract (cfg_ext N) (cfg_ops N) (stream_uuid (cfg_ext N) (AGGREGATE_TYPE (types N tid)) i)
      (\<lambda>w. stream_of N strm w tid i)"
    using es_client_contract [of "cfg_rpc N" strm "cfg_ext N" "client N"] assms
    by (simp add: cfg_setting_def cfg_ops_def stream_of_def)
  with assms show ?thesis
    by (simp add: actor_setting_def cfg_setting_def actor_context_of_def stream_of_def)
qed

lemma cfg_setting_tracks:
  assumes "cfg_setting N strm"
  shows "tracks (grows strm) (cfg_ops N) (new_v4 N)"
proof -
  have c: "rpc_contract (cfg_rpc N) strm" using assms by (simp add: cfg_setting_def)
  have "grows strm w (snd (append_op (cfg_ops N) sid x ps w))" for sid x ps w
    unfolding grows_def cfg_ops_def es_client_ops_def event_store_ops.simps
    using es_append_contract(1) [OF c surjective_pairing] by blast
  moreover have "grows strm w (snd (read_stream_op (cfg_ops N) sid v n w))" for sid v n w
    unfolding grows_def cfg_ops_def es_client_ops_def event_store_ops.simps
    using es_read_contract(1) [OF c surjective_pairing] by blast
  moreover have "grows strm w (snd (new_v4 N w))" for w
    using assms by (simp add: cfg_setting_def grows_def)
  ultimately show ?thesis
    using grows_trans by (auto simp: tracks_def)
qed

text \<open>A change of world and disk that only grows streams and keeps snapshots keeps the invariant.\<close>

definition snapshots_kept :: "fs \<Rightarrow> fs \<Rightarrow> bool" where
  "snapshots_kept F G \<longleftrightarrow> (\<forall>p. snapshot_name p \<longrightarrow> files G p = files F p) \<and> io_fails G = io_fails F"

lemma snapshots_kept_refl [simp]: "snapshots_kept F F"
  by (simp add: snapshots_kept_def)

lemma snapshots_kept_trans: "snapshots_kept F G \<Longrightarrow> snapshots_kept G H \<Longrightarrow> snapshots_kept F H"
  by (simp add: snapshots_kept_def)

lemma load_snapshots_kept:
  "snapshots_kept F G \<Longrightarrow> load_snapshot E A base i G = load_snapshot E A base i F"
  by (rule snapshot_file.load_cong) (simp_all add: snapshots_kept_def snapshot_name_path)

lemma app_inv_env:
  assumes "app_inv N J strm ap" and "cache ap' = cache ap" and "grows strm (world ap) (world ap')"
    and "snapshots_kept (app_fs ap) (app_fs ap')"
  shows "app_inv N J strm ap'"
proof -
  have "disk_inv (cfg_ext N) (types N tid) (cfg_base_dir N) i (stream_of N strm (world ap') tid i) (app_fs ap')"
    if "(tid, i) \<in> J" for tid i
  proof -
    have "disk_inv (cfg_ext N) (types N tid) (cfg_base_dir N) i (stream_of N strm (world ap') tid i) (app_fs ap)"
      using assms(1) that stream_of_grows [OF assms(3)] disk_inv_mono by (fastforce simp: app_inv_def)
    then show ?thesis by (simp add: disk_inv_def load_snapshots_kept [OF assms(4)])
  qed
  moreover have "\<exists>es. prefix es (stream_of N strm (world ap') tid i) \<and> synced (cfg_ext N) (types N tid) es st"
    if c: "(tid, i) \<in> J" "cache ap (tid, i) = Some (Alive K st)" for tid i K st
  proof -
    obtain es where "prefix es (stream_of N strm (world ap) tid i)" "synced (cfg_ext N) (types N tid) es st"
      using assms(1) c unfolding app_inv_def by blast
    with stream_of_grows [OF assms(3)] show ?thesis by (blast intro: prefix_order.trans)
  qed
  ultimately show ?thesis using assms(1,2) by (auto simp: app_inv_def)
qed

lemma app_inv_subset: "app_inv N J strm ap \<Longrightarrow> J' \<subseteq> J \<Longrightarrow> app_inv N J' strm ap"
  by (auto simp: app_inv_def)

subsection \<open>Getting a handle\<close>

lemma store_get_inv:
  assumes "cfg_setting N strm" and "app_inv N J strm ap" and "store_get N tid i ap = (r, ap')"
  shows "app_inv N J strm ap' \<and> grows strm (world ap) (world ap') \<and> app_fs ap' = app_fs ap \<and>
    timeouts ap' = timeouts ap \<and> (r = Inr () \<longrightarrow> (\<exists>K st. cache ap' (tid, i) = Some (Alive K st) \<and>
       ((tid, i) \<in> J \<longrightarrow> (\<forall>K st. cache ap (tid, i) \<noteq> Some (Alive K st)) \<longrightarrow>
          synced (cfg_ext N) (types N tid) (stream_of N strm (world ap') tid i) st)))"
proof (cases "\<exists>K st. cache ap (tid, i) = Some (Alive K st)")
  case True
  with assms(2,3) show ?thesis by (auto simp: store_get_def)
next
  case False
  let ?E = "cfg_ext N" and ?A = "types N tid" and ?sid = "stream_uuid (cfg_ext N) (AGGREGATE_TYPE (types N tid)) i"
  let ?ap1 = "ap\<lparr>cache := (cache ap)((tid, i) := None)\<rparr>"
  have inv1: "app_inv N J strm ?ap1" using assms(2) by (auto simp: app_inv_def)
  obtain q w where sp: "spawn_state ?E ?A (cfg_ops N) (cfg_base_dir N) i (world ap) (app_fs ap) = (q, w)"
    by fastforce
  have ap': "ap' = (case q of Inl st \<Rightarrow> ?ap1\<lparr>world := w\<rparr>
      | Inr (K, st) \<Rightarrow> ?ap1\<lparr>world := w, cache := (cache ?ap1)((tid, i) \<mapsto> Alive K st)\<rparr>)"
    "r = (case q of Inl st \<Rightarrow> Inl st | Inr _ \<Rightarrow> Inr ())"
    using assms(3) False sp
    by (auto simp: store_get_def Let_def split: option.splits slot.splits sum.splits prod.splits)
  have g: "grows strm (world ap) w"
  proof -
    have "w = world ap \<or> (\<exists>v. w = snd (read_stream_op (cfg_ops N) ?sid v u64_MAX (world ap)))"
      using sp by (auto simp: spawn_state_def Let_def split: sum.splits prod.splits option.splits)
        (metis snd_conv)+
    then show ?thesis
      using tracksD(4) [OF cfg_setting_tracks [OF assms(1)] surjective_pairing] grows_refl by metis
  qed
  have inv2: "app_inv N J strm (?ap1\<lparr>world := w\<rparr>)"
    by (rule app_inv_env [OF inv1]) (use g in simp_all)
  show ?thesis
  proof (cases q)
    case (Inl st)
    with ap' inv2 g show ?thesis by simp
  next
    case (Inr Kst)
    then obtain K st where Kst: "q = Inr (K, st)" by (cases Kst) simp
    have "store_contract ?E (cfg_ops N) ?sid (\<lambda>w. stream_of N strm w tid i)"
      using actor_settingD(3) [OF cfg_setting_actor [OF assms(1), of tid i]]
      by (simp add: actor_context_of_def)
    moreover have "(tid, i) \<in> J \<Longrightarrow> disk_inv ?E ?A (cfg_base_dir N) i (stream_of N strm (world ap) tid i) (app_fs ap)"
      using assms(2) by (simp add: app_inv_def)
    ultimately have s: "(tid, i) \<in> J \<Longrightarrow> K = actor_context_of N tid i"
      "(tid, i) \<in> J \<Longrightarrow> synced ?E ?A (stream_of N strm w tid i) st"
      using spawn_spec(1,5) [OF _ _ sp [unfolded Kst]] by (auto simp: actor_context_of_def)
    with ap' Kst inv2 g show ?thesis by (auto simp: app_inv_def)
  qed
qed

subsection \<open>A message to an actor\<close>

lemma actor_step_disk_same:
  assumes "actor_step E A S rng K (Message msg) st = (q, status, st')" and "msg \<noteq> Shutdown"
  shows "disk st' = disk st"
proof (cases msg)
  case (Execute cmd ctx)
  have "disk (snd (execute_with_retry E A S rng K cmd ctx st)) = disk st"
    by (simp add: execute_with_retry_def execute_attempts_disk)
  with assms(1) Execute show ?thesis by (auto split: prod.splits sum.splits fault.splits)
next
  case (Inject p)
  with assms(1) show ?thesis by (auto simp: inject_step_def Let_def split: prod.splits sum.splits)
qed (use assms in auto)

lemma call_actor_inv:
  assumes "cfg_setting N strm" and "app_inv N J strm ap" and "timeouts ap = []" and "msg \<noteq> Shutdown"
    and "call_actor N tid i msg ap = (rep, ap')"
  shows "app_inv N J strm ap' \<and> grows strm (world ap) (world ap') \<and> app_fs ap' = app_fs ap \<and> timeouts ap' = []"
proof (cases "\<exists>K st. cache ap (tid, i) = Some (Alive K st)")
  case False
  with assms show ?thesis by (auto simp: call_actor_def split: option.splits slot.splits)
next
  case True
  then obtain K st where c: "cache ap (tid, i) = Some (Alive K st)" by blast
  let ?E = "cfg_ext N" and ?A = "types N tid" and ?strm = "\<lambda>w. stream_of N strm w tid i"
  let ?st = "st\<lparr>store := world ap, disk := app_fs ap\<rparr>"
  obtain q status st' where s: "actor_step ?E ?A (cfg_ops N) (new_v4 N) K (Message msg) ?st = (q, status, st')"
    by (metis prod_cases3)
  have g: "grows strm (world ap) (store st')"
    using actor_step_tracks [OF cfg_setting_tracks [OF assms(1)] s] by simp
  have d: "disk st' = app_fs ap" using actor_step_disk_same [OF s assms(4)] by simp
  let ?slot = "case status of Running \<Rightarrow> Alive K st' | _ \<Rightarrow> Stale"
  have ap': "ap' = ap\<lparr>world := store st', app_fs := disk st', timeouts := [],
      cache := (cache ap)((tid, i) \<mapsto> ?slot)\<rparr>"
    using assms(3,5) c s by (simp add: call_actor_def Let_def)
  have inv: "app_inv N J strm (ap\<lparr>world := store st', app_fs := disk st', timeouts := []\<rparr>)"
    by (rule app_inv_env [OF assms(2)]) (use g d in simp_all)
  have "K = actor_context_of N tid i \<and> (\<exists>es. prefix es (?strm (store st')) \<and> synced ?E ?A es st')"
    if "(tid, i) \<in> J"
  proof -
    have K: "K = actor_context_of N tid i" and es: "\<exists>es. prefix es (?strm (world ap)) \<and> synced ?E ?A es st"
      using assms(2) c that by (auto simp: app_inv_def)
    have set: "actor_setting ?E ?A (cfg_ops N) (new_v4 N) K ?strm"
      unfolding K by (rule cfg_setting_actor [OF assms(1)])
    have "actor_inv ?E ?A ?strm ?st" using es by (simp add: actor_inv_def synced_def)
    from K actor_step_inv [OF set this s] show ?thesis by (simp add: actor_inv_def)
  qed
  with inv have "app_inv N J strm ap'"
    unfolding ap' app_inv_def by (auto split: loop_status.splits)
  with ap' g d show ?thesis by simp
qed

subsection \<open>An idle exit\<close>

text \<open>
  \<open>exits_apart\<close>: no instance in \<open>X\<close> has its snapshot in the file of another instance in \<open>J\<close>.
\<close>

definition snapshot_file_of :: "('w, 'a, 'c, 'e, 'err) config \<Rightarrow> nat \<times> string \<Rightarrow> path" where
  "snapshot_file_of N x = snapshot_path (cfg_base_dir N) (AGGREGATE_TYPE (types N (fst x))) (snd x)"

definition exits_apart ::
  "('w, 'a, 'c, 'e, 'err) config \<Rightarrow> (nat \<times> string) set \<Rightarrow> (nat \<times> string) set \<Rightarrow> bool" where
  "exits_apart N J X \<longleftrightarrow> X \<subseteq> J \<and> (\<forall>x \<in> X. \<forall>y \<in> J. snapshot_file_of N x = snapshot_file_of N y \<longrightarrow> x = y)"

lemma exits_apart_none [simp]: "exits_apart N J {}"
  by (simp add: exits_apart_def)

text \<open>Types with different names and names that are single path components are apart.\<close>

lemma exits_apart_simple:
  assumes "inj_on (\<lambda>tid. AGGREGATE_TYPE (types N tid)) T"
    and "\<forall>tid \<in> T. simple_name (AGGREGATE_TYPE (types N tid))"
  shows "exits_apart N (T \<times> Collect simple_name) (T \<times> Collect simple_name)"
  using assms by (cases "cfg_base_dir N") (auto simp: exits_apart_def snapshot_file_of_def snapshot_path_simple inj_on_def)

lemma save_on_exit_load_other:
  assumes "snapshot_path (base_dir K) (AGGREGATE_TYPE A) (instance_id K) \<noteq> snapshot_path base (AGGREGATE_TYPE B) i"
  shows "load_snapshot E B base i (disk (save_on_exit E A K st)) = load_snapshot E B base i (disk st)"
proof -
  obtain r F where s: "save_snapshot E A (base_dir K) (instance_id K)
      \<lparr>snap_state = agg_state st, snap_stream_version = unwrap_or 0 (stream_version st)\<rparr> (disk st) = (r, F)"
    by fastforce
  let ?q = "snapshot_path base (AGGREGATE_TYPE B) i"
    and ?p = "snapshot_path (base_dir K) (AGGREGATE_TYPE A) (instance_id K)"
  obtain cs ds where "comps ?q = cs @ [''snapshot.json'']" "comps ?p = ds @ [''snapshot.json'']"
    using snapshot_path_comps by meson
  moreover from this have "comps (with_extension ''json.tmp'' ?p) = ds @ [''snapshot.json.tmp'']"
    by (simp add: with_extension_def)
  ultimately have "?q \<noteq> with_extension ''json.tmp'' ?p" by auto
  then have "files F ?q = files (disk st) ?q" using snapshot_file.save_frame [OF s] assms by metis
  moreover have "io_fails F = io_fails (disk st)" using snapshot_file.save_io [OF s] .
  moreover have "disk (save_on_exit E A K st) = F"
    using s by (simp add: save_on_exit_def save_snapshot_quietly_def)
  ultimately show ?thesis by (intro snapshot_file.load_cong) simp_all
qed

lemma actor_elapses_framed: "framed ap (actor_elapses N tid i ap) \<and> world (actor_elapses N tid i ap) = world ap"
  using save_on_exit_files [where st = "st\<lparr>store := world ap, disk := app_fs ap\<rparr>" for st]
  by (auto simp: actor_elapses_def Let_def framed_def split: option.splits slot.splits)

lemma actor_elapses_keeps_inv:
  fixes ap :: "('w, 'a, 'p, 'q) app"
  assumes "cfg_setting N strm" and "app_inv N J strm ap" and "exits_apart N J X" and "(tid, i) \<in> X"
    and "cache ap (tid, i) = Some (Alive K st)" and "stream_version st \<noteq> None"
  shows "app_inv N J strm (actor_elapses N tid i ap)"
proof -
  let ?E = "cfg_ext N" and ?A = "types N tid" and ?strm = "\<lambda>w. stream_of N strm w tid i"
  let ?st = "st\<lparr>store := world ap, disk := app_fs ap\<rparr>"
  let ?F = "disk (save_on_exit ?E ?A K ?st)"
  have J: "(tid, i) \<in> J" using assms(3,4) by (auto simp: exits_apart_def)
  then have K: "K = actor_context_of N tid i"
    and es: "\<exists>es. prefix es (?strm (world ap)) \<and> synced ?E ?A es st"
    and d: "disk_inv ?E ?A (cfg_base_dir N) i (?strm (world ap)) (app_fs ap)"
    using assms(2,5) by (auto simp: app_inv_def)
  have ap': "actor_elapses N tid i ap = ap\<lparr>app_fs := ?F, cache := (cache ap)((tid, i) \<mapsto> Stale)\<rparr>"
    using assms(5) by (simp add: actor_elapses_def Let_def)
  have "disk_inv ?E (types N tid') (cfg_base_dir N) i' (stream_of N strm (world ap) tid' i') ?F"
    if J': "(tid', i') \<in> J" for tid' i'
  proof (cases "(tid', i') = (tid, i)")
    case True
    have set: "actor_setting ?E ?A (cfg_ops N) (new_v4 N) K ?strm"
      unfolding K by (rule cfg_setting_actor [OF assms(1)])
    have inv: "actor_inv ?E ?A ?strm ?st" using es by (simp add: actor_inv_def synced_def)
    have "disk_inv ?E ?A (base_dir K) (instance_id K) (?strm (store ?st)) ?F"
      by (rule save_on_exit_disk_inv [OF actor_settingD(1,2) [OF set] _ inv])
        (use store_contract_versioned [OF actor_settingD(3) [OF set]] assms(6) d K
          in \<open>simp_all add: actor_context_of_def\<close>)
    with True show ?thesis by (simp add: K actor_context_of_def)
  next
    case False
    then have "snapshot_file_of N (tid, i) \<noteq> snapshot_file_of N (tid', i')"
      using assms(3,4) J' unfolding exits_apart_def by blast
    then have "load_snapshot ?E (types N tid') (cfg_base_dir N) i' ?F
        = load_snapshot ?E (types N tid') (cfg_base_dir N) i' (app_fs ap)"
      using save_on_exit_load_other [of K ?A "cfg_base_dir N" "types N tid'" i' ?E ?st] K
      by (simp add: snapshot_file_of_def actor_context_of_def)
    with assms(2) J' show ?thesis by (simp add: app_inv_def disk_inv_def)
  qed
  with assms(2) show ?thesis unfolding ap' app_inv_def by auto
qed

subsection \<open>The store's operations\<close>

text \<open>
  A state a sequence of operations leads to: the invariant is kept and streams only grow.
\<close>

definition keeps ::
  "('w, 'a, 'c, 'e, 'err) config \<Rightarrow> (nat \<times> string) set \<Rightarrow> ('w \<Rightarrow> string \<Rightarrow> recorded_event list)
    \<Rightarrow> ('w, 'a, 'p, 'q) app \<Rightarrow> ('w, 'a, 'p, 'q) app \<Rightarrow> bool" where
  "keeps N J strm ap ap' \<longleftrightarrow> app_inv N J strm ap' \<and> grows strm (world ap) (world ap') \<and>
     timeouts ap' = []"

lemma keeps_trans: "keeps N J strm a b \<Longrightarrow> keeps N J strm b c \<Longrightarrow> keeps N J strm a c"
  using grows_trans [of strm "world a" "world b" "world c"] by (simp add: keeps_def)

lemma keeps_refl: "app_inv N J strm ap \<Longrightarrow> timeouts ap = [] \<Longrightarrow> keeps N J strm ap ap"
  by (simp add: keeps_def)

lemma keeps_env:
  assumes "app_inv N J strm ap" and "timeouts ap = []" and "cache ap' = cache ap"
    and "timeouts ap' = timeouts ap" and "grows strm (world ap) (world ap')"
    and "snapshots_kept (app_fs ap) (app_fs ap')"
  shows "keeps N J strm ap ap'"
  using app_inv_env [OF assms(1,3,5,6)] assms by (simp add: keeps_def)

lemma keepsD: "keeps N J strm ap ap' \<Longrightarrow> app_inv N J strm ap' \<and> timeouts ap' = []"
  by (simp add: keeps_def)

lemma store_get_keeps:
  assumes "cfg_setting N strm" and "app_inv N J strm ap" and "timeouts ap = []"
    and "store_get N tid i ap = (r, ap')"
  shows "keeps N J strm ap ap'"
  using store_get_inv [OF assms(1,2,4)] assms(3) by (simp add: keeps_def)

lemma store_execute_keeps:
  assumes "cfg_setting N strm" and "app_inv N J strm ap" and "timeouts ap = []"
    and "store_execute N tid i cmd ctx ap = (r, ap')"
  shows "keeps N J strm ap ap'"
proof -
  obtain rep where "call_actor N tid i (Execute cmd ctx) ap = (rep, ap')"
    using assms(4) by (auto simp: store_execute_def split: prod.splits)
  from call_actor_inv [OF assms(1-3) _ this] show ?thesis by (simp add: keeps_def)
qed

lemma store_state_keeps:
  assumes "cfg_setting N strm" and "app_inv N J strm ap" and "timeouts ap = []"
    and "store_state N tid i ap = (r, ap')"
  shows "keeps N J strm ap ap'"
proof -
  obtain rep where "call_actor N tid i GetState ap = (rep, ap')"
    using assms(4) by (auto simp: store_state_def split: prod.splits)
  from call_actor_inv [OF assms(1-3) _ this] show ?thesis by (simp add: keeps_def)
qed

lemma dispatch_keeps:
  assumes "cfg_setting N strm" and "app_inv N J strm ap" and "timeouts ap = []"
    and "dispatch N D envelope ap = (r, ap')"
  shows "keeps N J strm ap ap'"
proof (cases "command_from_value D (env_command envelope)")
  case (Inl e)
  with assms keeps_refl show ?thesis by (simp add: dispatch_def)
next
  case (Inr cmd)
  obtain q ap1 where g: "store_get N (target_type D) (env_instance_id envelope) ap = (q, ap1)" by fastforce
  obtain q2 ap2 where x: "store_execute N (target_type D) (env_instance_id envelope) cmd
      (env_context envelope) ap1 = (q2, ap2)" by fastforce
  have k1: "keeps N J strm ap ap1" by (rule store_get_keeps [OF assms(1-3) g])
  have "keeps N J strm ap1 ap2"
    using store_execute_keeps [OF assms(1) _ _ x] keepsD [OF k1] by simp
  with k1 assms(4) Inr g x show ?thesis
    by (auto simp: dispatch_def split: sum.splits intro: keeps_trans)
qed

lemma dispatch_or_error_keeps:
  assumes "cfg_setting N strm" and "app_inv N J strm ap" and "timeouts ap = []"
    and "dispatch_or_error N envelope ap = (r, ap')"
  shows "keeps N J strm ap ap'"
proof (cases "dispatchers N (env_aggregate_type envelope)")
  case None
  with assms keeps_refl show ?thesis by (simp add: dispatch_or_error_def)
next
  case (Some D)
  obtain q ap1 where "dispatch N D envelope ap = (q, ap1)" by fastforce
  with dispatch_keeps [OF assms(1-3) this] assms(4) Some show ?thesis
    by (auto simp: dispatch_or_error_def split: sum.splits)
qed

lemma fs_append_line_frame:
  "fs_append_line p line F = (r, F') \<Longrightarrow> (\<forall>q. q \<noteq> p \<longrightarrow> files F' q = files F q) \<and> io_fails F' = io_fails F"
  by (auto simp: fs_append_line_def Let_def split: option.splits if_splits)

lemma append_dead_letter_frame:
  assumes "append_dead_letter E now p envelope err F = (r, F')"
  shows "(\<forall>q. q \<noteq> p \<longrightarrow> files F' q = files F q) \<and> io_fails F' = io_fails F"
proof (cases now)
  case None
  with assms show ?thesis by (simp add: append_dead_letter_def)
next
  case (Some ts)
  let ?json = "json_to_vec E (dead_letter_to_value \<lparr>dl_envelope = envelope, dl_error = err, dl_ts = ts\<rparr>)"
  obtain r1 F1 where d: "(case path_parent p of Some d \<Rightarrow> create_dir_all d F | None \<Rightarrow> (Inr (), F)) = (r1, F1)"
    by fastforce
  have F1: "files F1 = files F \<and> io_fails F1 = io_fails F"
  proof (cases "path_parent p")
    case (Some d')
    with d create_dir_all_files [of d' F] show ?thesis by simp
  qed (use d in simp)
  show ?thesis
  proof (cases ?json)
    case (Inl e)
    with assms Some show ?thesis by (simp add: append_dead_letter_def)
  next
    case (Inr json)
    obtain r2 F2 where a: "fs_append_line p json F1 = (r2, F2)" by fastforce
    have "F' = F1 \<or> F' = F2"
      using assms Some Inr d a by (cases r1; cases r2) (simp_all add: append_dead_letter_def)
    with F1 fs_append_line_frame [OF a] show ?thesis by auto
  qed
qed

lemma dead_letter_keeps:
  assumes "app_inv N J strm ap" and "timeouts ap = []" and "\<not> snapshot_name p"
    and "dead_letter N p envelope err ap = (r, ap')"
  shows "keeps N J strm ap ap'"
proof -
  obtain F where F: "append_dead_letter (cfg_ext N) (clock ap) p envelope err (app_fs ap) = (r, F)"
    "ap' = ap\<lparr>app_fs := F\<rparr>"
    using assms(4) by (auto simp: dead_letter_def split: prod.splits)
  have "snapshots_kept (app_fs ap) F"
    unfolding snapshots_kept_def using append_dead_letter_frame [OF F(1)] assms(3) by auto
  then show ?thesis using assms(1,2) F(2) by (intro keeps_env) simp_all
qed

lemma dispatch_one_keeps:
  assumes "cfg_setting N strm" and "app_inv N J strm ap" and "timeouts ap = []" and "\<not> snapshot_name p"
    and "dispatch_one N p envelope (report, ap) = (r, ap')"
  shows "keeps N J strm ap ap'"
proof -
  obtain q ap1 where d: "dispatch_or_error N envelope ap = (q, ap1)" by fastforce
  note k = dispatch_or_error_keeps [OF assms(1-3) d]
  show ?thesis
  proof (cases q)
    case (Inr u)
    with assms(5) d k show ?thesis by (simp add: dispatch_one_def)
  next
    case (Inl err)
    obtain q2 ap2 where l: "dead_letter N p envelope err ap1 = (q2, ap2)" by fastforce
    have "keeps N J strm ap1 ap2" using dead_letter_keeps [OF _ _ assms(4) l] keepsD [OF k] by simp
    with assms(5) d k l Inl show ?thesis
      by (auto simp: dispatch_one_def split: sum.splits intro: keeps_trans)
  qed
qed

lemma dispatch_all_keeps:
  assumes "cfg_setting N strm" and "app_inv N J strm ap" and "timeouts ap = []"
    and "\<forall>(envelope, p) \<in> set work. \<not> snapshot_name p" and "dispatch_all N work (report, ap) = (r, ap')"
  shows "keeps N J strm ap ap'"
  using assms(2-5)
proof (induction work arbitrary: report ap)
  case Nil
  then show ?case by (simp add: keeps_refl)
next
  case (Cons x work)
  obtain envelope p where x: "x = (envelope, p)" by fastforce
  obtain q ap1 where one: "dispatch_one N p envelope (report, ap) = (q, ap1)" by fastforce
  have k: "keeps N J strm ap ap1"
    using dispatch_one_keeps [OF assms(1) Cons.prems(1,2) _ one] Cons.prems(3) x by simp
  show ?case
  proof (cases q)
    case (Inl e)
    with Cons.prems(4) x one k show ?thesis by simp
  next
    case (Inr report1)
    with Cons.prems(4) x one have "dispatch_all N work (report1, ap1) = (r, ap')" by simp
    from Cons.IH [OF _ _ _ this] keepsD [OF k] Cons.prems(3) have "keeps N J strm ap1 ap'" by simp
    with k show ?thesis by (rule keeps_trans)
  qed
qed

end
