(* ===== verification/Live.thy ===== *)
theory Live
  imports Store
begin

text \<open>
  \<^verbatim>\<open>src/live.rs\<close>: the live subscription loop, as a machine that is driven by what its
  \<open>select!\<close>s observe: the task makes progress (\<open>Poll\<close>, up to its next \<open>await\<close>), the checkpoint
  timer ticks, the shutdown signal is seen; and by what the holder of the \<open>LiveHandle\<close> does:
  signal the shutdown, subscribe to positions, drop a subscription. Durations are natural
  numbers.
\<close>

record live_config =
  checkpoint_interval :: nat
  reconnect_base_delay :: nat
  reconnect_max_delay :: nat

text \<open>Milliseconds.\<close>

definition live_config_default :: live_config where
  "live_config_default =
     \<lparr>checkpoint_interval = 5000, reconnect_base_delay = 1000, reconnect_max_delay = 30000\<rparr>"

subsection \<open>Checkpoints and positions\<close>

fun save_projections_quietly :: "ext \<Rightarrow> (string \<times> 'p registered_projection) list \<Rightarrow> fs \<Rightarrow> fs" where
  "save_projections_quietly E [] F = F"
| "save_projections_quietly E ((name, rp) # rps) F =
     save_projections_quietly E rps (snd (projection_save E (rp_projection rp) (rp_runner rp) F))"

fun save_pms_quietly :: "ext \<Rightarrow> 'q registered_pm list \<Rightarrow> fs \<Rightarrow> fs" where
  "save_pms_quietly E [] F = F"
| "save_pms_quietly E (pm # pms) F =
     save_pms_quietly E pms (snd (pm_save E (rpm_manager pm) (rpm_runner pm) F))"

definition save_all_checkpoints ::
  "('w, 'a, 'c, 'e, 'err) config \<Rightarrow> ('w, 'a, 'p, 'q) app \<Rightarrow> ('w, 'a, 'p, 'q) app" where
  "save_all_checkpoints N ap =
     ap\<lparr>app_fs := save_pms_quietly (cfg_ext N) (process_managers ap)
          (save_projections_quietly (cfg_ext N) (projections ap) (app_fs ap))\<rparr>"

definition positions :: "('w, 'a, 'p, 'q) app \<Rightarrow> u64 list" where
  "positions ap =
     map (\<lambda>x. projection_position (rp_runner (snd x))) (projections ap) @
     map (\<lambda>pm. pm_position (rpm_runner pm)) (process_managers ap)"

definition min_global_position :: "('w, 'a, 'p, 'q) app \<Rightarrow> u64" where
  "min_global_position ap =
     (let min_pos = foldl min u64_MAX (positions ap)
      in if min_pos = u64_MAX then 0 else min_pos)"

subsection \<open>Fanning out an event\<close>

definition fan_out_projections ::
  "('w, 'a, 'c, 'e, 'err) config \<Rightarrow> recorded_event \<Rightarrow> ('w, 'a, 'p, 'q) app \<Rightarrow> ('w, 'a, 'p, 'q) app" where
  "fan_out_projections N recorded ap =
     ap\<lparr>projections := map (\<lambda>(name, rp). (name,
          rp\<lparr>rp_runner := projection_apply_event (cfg_ext N) (rp_projection rp) recorded (rp_runner rp)\<rparr>))
        (projections ap)\<rparr>"

fun react_all ::
  "ext \<Rightarrow> recorded_event \<Rightarrow> 'q registered_pm list
    \<Rightarrow> 'q registered_pm list \<times> (command_envelope list \<times> path) list" where
  "react_all E recorded [] = ([], [])"
| "react_all E recorded (pm # pms) =
     (let (rn, envelopes) = pm_react_event E (rpm_manager pm) recorded (rpm_runner pm);
          (pms', work) = react_all E recorded pms
      in (pm\<lparr>rpm_runner := rn\<rparr> # pms',
          if envelopes \<noteq> [] then (envelopes, dead_letter_path rn) # work else work))"

definition fan_out_pms ::
  "('w, 'a, 'c, 'e, 'err) config \<Rightarrow> recorded_event \<Rightarrow> ('w, 'a, 'p, 'q) app
    \<Rightarrow> ('w, 'a, 'p, 'q) app \<times> (command_envelope \<times> path) list" where
  "fan_out_pms N recorded ap =
     (case react_all (cfg_ext N) recorded (process_managers ap) of
        (pms, work) \<Rightarrow> (ap\<lparr>process_managers := pms\<rparr>, flatten_work work))"

text \<open>One envelope: a failed dead letter is logged and forgotten; a panic ends the task.\<close>

definition live_dispatch_one ::
  "('w, 'a, 'c, 'e, 'err) config \<Rightarrow> path \<Rightarrow> command_envelope \<Rightarrow> ('w, 'a, 'p, 'q) app
    \<Rightarrow> (string + unit) \<times> ('w, 'a, 'p, 'q) app" where
  "live_dispatch_one N path envelope ap =
     (case dispatch_or_error N envelope ap of
        (Inr _, ap1) \<Rightarrow> (Inr (), ap1)
      | (Inl err, ap1) \<Rightarrow>
          (case dead_letter N path envelope err ap1 of
             (Inl (Panicked m), ap2) \<Rightarrow> (Inl m, ap2)
           | (Inl (Raised e), ap2) \<Rightarrow> (Inr (), ap2)
           | (Inr _, ap2) \<Rightarrow> (Inr (), ap2)))"

subsection \<open>The state of the loop\<close>

text \<open>
  Within a stream the task waits for the next item, or has envelopes of the current event, at
  the given position, still to dispatch.
\<close>

datatype stream_point = AtNext | Dispatching u64 "(command_envelope \<times> path) list"

text \<open>
  \<open>Sleeping saved\<close> is the backoff: after a refused subscription (\<open>saved\<close> is false) or after a
  broken stream, where the checkpoints were saved before.
\<close>

datatype live_phase =
    Connecting
  | Sleeping bool
  | Streaming sub_stream stream_point
  | Returned "io_error + unit"
  | Died string

record ('w, 'a, 'p, 'q) live =
  live_app :: "('w, 'a, 'p, 'q) app"
  phase :: live_phase
  backoff_delay :: nat
  caught_up :: bool
  position :: u64
  receivers :: nat
  shutdown_seen :: bool

text \<open>
  What \<open>watch::Sender::send\<close> leaves in the channel, given the number of receivers, the old and
  the new value: a parameter.
\<close>

type_synonym watch_send = "nat \<Rightarrow> u64 \<Rightarrow> u64 \<Rightarrow> u64"

text \<open>The timer of \<open>tokio\<close> refuses a zero period with a panic, which ends the task.\<close>

definition live_start :: "live_config \<Rightarrow> ('w, 'a, 'p, 'q) app \<Rightarrow> ('w, 'a, 'p, 'q) live" where
  "live_start cfg ap =
     \<lparr>live_app = ap,
      phase = (if checkpoint_interval cfg = 0 then Died ''`period` must be non-zero.'' else Connecting),
      backoff_delay = reconnect_base_delay cfg,
      caught_up = False, position = 0, receivers = 0, shutdown_seen = False\<rparr>"

subsection \<open>Progress of the task\<close>

definition double_backoff :: "live_config \<Rightarrow> nat \<Rightarrow> nat" where
  "double_backoff cfg d = min (d * 2) (reconnect_max_delay cfg)"

text \<open>The top of the outer loop.\<close>

definition connect_step ::
  "('w, 'a, 'c, 'e, 'err) config \<Rightarrow> ('w, 'a, 'p, 'q) live \<Rightarrow> ('w, 'a, 'p, 'q) live" where
  "connect_step N lv =
     (if shutdown_seen lv then
        lv\<lparr>live_app := save_all_checkpoints N (live_app lv), phase := Returned (Inr ())\<rparr>
      else
        (let from_position = min_global_position (live_app lv)
         in case es_subscribe_all_from (cfg_ext N) (cfg_rpc N) (client N) from_position
                (world (live_app lv)) of
              (Inr stream, w) \<Rightarrow>
                lv\<lparr>live_app := (live_app lv)\<lparr>world := w\<rparr>, phase := Streaming stream AtNext\<rparr>
            | (Inl e, w) \<Rightarrow>
                lv\<lparr>live_app := (live_app lv)\<lparr>world := w\<rparr>, phase := Sleeping False\<rparr>))"

text \<open>The stream ended, or broke: what the outer loop makes of the outcome.\<close>

definition ended_step ::
  "('w, 'a, 'c, 'e, 'err) config \<Rightarrow> live_config \<Rightarrow> ('w, 'a, 'p, 'q) live \<Rightarrow> ('w, 'a, 'p, 'q) live" where
  "ended_step N cfg lv =
     lv\<lparr>live_app := save_all_checkpoints N (live_app lv), phase := Connecting,
        backoff_delay := (if caught_up lv then reconnect_base_delay cfg else backoff_delay lv)\<rparr>"

definition broken_step ::
  "('w, 'a, 'c, 'e, 'err) config \<Rightarrow> ('w, 'a, 'p, 'q) live \<Rightarrow> ('w, 'a, 'p, 'q) live" where
  "broken_step N lv =
     lv\<lparr>live_app := save_all_checkpoints N (live_app lv), phase := Sleeping True\<rparr>"

text \<open>\<open>process_stream_with_dispatch\<close>, up to its next \<open>await\<close>.\<close>

fun stream_step ::
  "('w, 'a, 'c, 'e, 'err) config \<Rightarrow> live_config \<Rightarrow> watch_send \<Rightarrow> sub_stream \<Rightarrow> stream_point
    \<Rightarrow> ('w, 'a, 'p, 'q) live \<Rightarrow> ('w, 'a, 'p, 'q) live" where
  "stream_step N cfg send [] AtNext lv = ended_step N cfg lv"
| "stream_step N cfg send (Inl e # items) AtNext lv = broken_step N lv"
| "stream_step N cfg send (Inr resp # items) AtNext lv =
     (case content resp of
        Some (Event recorded) \<Rightarrow>
          (let (ap, work) = fan_out_pms N recorded (fan_out_projections N recorded (live_app lv))
           in lv\<lparr>live_app := ap,
                 phase := Streaming items (Dispatching (re_global_position recorded) work)\<rparr>)
      | Some CaughtUp \<Rightarrow> lv\<lparr>caught_up := True, phase := Streaming items AtNext\<rparr>
      | None \<Rightarrow> lv\<lparr>phase := Streaming items AtNext\<rparr>)"
| "stream_step N cfg send items (Dispatching gp []) lv =
     lv\<lparr>position := send (receivers lv) (position lv) gp, phase := Streaming items AtNext\<rparr>"
| "stream_step N cfg send items (Dispatching gp ((envelope, path) # work)) lv =
     (case live_dispatch_one N path envelope (live_app lv) of
        (Inr _, ap) \<Rightarrow> lv\<lparr>live_app := ap, phase := Streaming items (Dispatching gp work)\<rparr>
      | (Inl m, ap) \<Rightarrow> lv\<lparr>live_app := ap, phase := Died m\<rparr>)"

definition poll_step ::
  "('w, 'a, 'c, 'e, 'err) config \<Rightarrow> live_config \<Rightarrow> watch_send \<Rightarrow> ('w, 'a, 'p, 'q) live
    \<Rightarrow> ('w, 'a, 'p, 'q) live" where
  "poll_step N cfg send lv =
     (case phase lv of
        Connecting \<Rightarrow> connect_step N lv
      | Sleeping saved \<Rightarrow>
          lv\<lparr>phase := Connecting, backoff_delay := double_backoff cfg (backoff_delay lv)\<rparr>
      | Streaming items pt \<Rightarrow> stream_step N cfg send items pt lv
      | Returned r \<Rightarrow> lv
      | Died m \<Rightarrow> lv)"

text \<open>\<open>shutdown_rx.changed()\<close> fires: not while the loop is at its top, where it looks itself.\<close>

definition shutdown_step ::
  "('w, 'a, 'c, 'e, 'err) config \<Rightarrow> ('w, 'a, 'p, 'q) live \<Rightarrow> ('w, 'a, 'p, 'q) live" where
  "shutdown_step N lv =
     (case phase lv of
        Sleeping True \<Rightarrow> lv\<lparr>phase := Returned (Inr ())\<rparr>
      | Sleeping False \<Rightarrow>
          lv\<lparr>live_app := save_all_checkpoints N (live_app lv), phase := Returned (Inr ())\<rparr>
      | Streaming items pt \<Rightarrow>
          lv\<lparr>live_app := save_all_checkpoints N (live_app lv), phase := Returned (Inr ())\<rparr>
      | _ \<Rightarrow> lv)"

definition tick_step ::
  "('w, 'a, 'c, 'e, 'err) config \<Rightarrow> ('w, 'a, 'p, 'q) live \<Rightarrow> ('w, 'a, 'p, 'q) live" where
  "tick_step N lv =
     (case phase lv of
        Streaming items pt \<Rightarrow> lv\<lparr>live_app := save_all_checkpoints N (live_app lv)\<rparr>
      | _ \<Rightarrow> lv)"

text \<open>\<open>LiveHandle::subscribe\<close>: what the new receiver reads first, and the channel with one more.\<close>

definition live_subscribe :: "('w, 'a, 'p, 'q) live \<Rightarrow> u64 \<times> ('w, 'a, 'p, 'q) live" where
  "live_subscribe lv = (position lv, lv\<lparr>receivers := receivers lv + 1\<rparr>)"

declare live_subscribe_def [simp]

subsection \<open>Schedules\<close>

datatype live_event = Poll | Tick | Stop | Signal | SubscribePosition | DropReceiver

fun live_step ::
  "('w, 'a, 'c, 'e, 'err) config \<Rightarrow> live_config \<Rightarrow> watch_send \<Rightarrow> live_event \<Rightarrow> ('w, 'a, 'p, 'q) live
    \<Rightarrow> ('w, 'a, 'p, 'q) live" where
  "live_step N cfg send Poll lv = poll_step N cfg send lv"
| "live_step N cfg send Tick lv = tick_step N lv"
| "live_step N cfg send Stop lv = (if shutdown_seen lv then shutdown_step N lv else lv)"
| "live_step N cfg send Signal lv = lv\<lparr>shutdown_seen := True\<rparr>"
| "live_step N cfg send SubscribePosition lv = snd (live_subscribe lv)"
| "live_step N cfg send DropReceiver lv = lv\<lparr>receivers := receivers lv - 1\<rparr>"

definition run_live_loop ::
  "('w, 'a, 'c, 'e, 'err) config \<Rightarrow> live_config \<Rightarrow> watch_send \<Rightarrow> live_event list
    \<Rightarrow> ('w, 'a, 'p, 'q) live \<Rightarrow> ('w, 'a, 'p, 'q) live" where
  "run_live_loop N cfg send evs lv = foldl (\<lambda>s e. live_step N cfg send e s) lv evs"

subsection \<open>The handle\<close>

text \<open>
  The task slot of the handle: the running task, or taken by an earlier \<open>shutdown\<close>. Joining a
  finished task gives what it returned, joining a dead one its panic, whose message stands for
  the text of the \<open>JoinError\<close>; \<open>None\<close> is a task that is still running, where the call waits.
\<close>

definition join_task :: "live_phase \<Rightarrow> (io_error + unit) option" where
  "join_task p =
     (case p of
        Returned r \<Rightarrow> Some r
      | Died m \<Rightarrow> Some (Inl (io_error_other (''live loop task panicked: '' @ m)))
      | _ \<Rightarrow> None)"

text \<open>
  \<open>shutdown\<close>: it signals, takes the task and waits for it. The result for a task in state \<open>lv\<close>
  after the signal, and whether the task is taken afterwards.
\<close>

definition live_shutdown ::
  "bool \<Rightarrow> ('w, 'a, 'p, 'q) live \<Rightarrow> (io_error + unit) option \<times> bool" where
  "live_shutdown task_taken lv =
     (if task_taken then Some (Inr ()) else join_task (phase lv), True)"

definition is_caught_up :: "('w, 'a, 'p, 'q) live \<Rightarrow> bool" where
  "is_caught_up lv \<longleftrightarrow> caught_up lv"

text \<open>\<open>AggregateStore::start_live\<close>: once per store.\<close>

definition start_live ::
  "live_config \<Rightarrow> ('w, 'a, 'p, 'q) live option \<Rightarrow> ('w, 'a, 'p, 'q) app
    \<Rightarrow> (io_error + ('w, 'a, 'p, 'q) live)" where
  "start_live cfg started ap =
     (case started of
        Some _ \<Rightarrow> Inl (io_error_new AlreadyExists ''live subscription already started'')
      | None \<Rightarrow> Inr (live_start cfg ap))"

end
