(* ===== verification/Save_All.thy ===== *)
theory Save_All
  imports Live
begin

text \<open>
  Saving the checkpoints of many consumers: \<open>run_process_managers\<close> stops at the first failure,
  the live loop goes on. The locale \<open>checkpoint_list\<close> is what both rely on of one consumer;
  projections and process managers of a store are its instances.
\<close>

locale checkpoint_list =
  fixes dir :: "'x \<Rightarrow> path"
    and save :: "'x \<Rightarrow> fs \<Rightarrow> (io_error + unit) \<times> fs"
    and load :: "'x \<Rightarrow> fs \<Rightarrow> io_error + 'c option"
    and content :: "'x \<Rightarrow> 'c"
    and good :: "'x \<Rightarrow> bool"
  assumes save_frame: "save x F = (r, F') \<Longrightarrow> p \<noteq> checkpoint_path (dir x) \<Longrightarrow>
      p \<noteq> checkpoint_tmp_path (dir x) \<Longrightarrow> files F' p = files F p"
    and save_io: "save x F = (r, F') \<Longrightarrow> io_fails F' = io_fails F"
    and save_load: "save x F = (Inr u, F') \<Longrightarrow> good x \<Longrightarrow>
      io_fails F OpRead (checkpoint_path (dir x)) = None \<Longrightarrow> load x F' = Inr (Some (content x))"
    and load_cong: "files F (checkpoint_path (dir x)) = files G (checkpoint_path (dir x)) \<Longrightarrow>
      io_fails F = io_fails G \<Longrightarrow> load x F = load x G"
    and save_succeeds: "good x \<Longrightarrow> (\<And>op p. io_fails F op p = None) \<Longrightarrow> fst (save x F) = Inr ()"
begin

fun save_all :: "'x list \<Rightarrow> fs \<Rightarrow> (io_error + unit) \<times> fs" where
  "save_all [] F = (Inr (), F)"
| "save_all (x # xs) F =
     (case save x F of (Inl e, F1) \<Rightarrow> (Inl e, F1) | (Inr _, F1) \<Rightarrow> save_all xs F1)"

fun save_all_quietly :: "'x list \<Rightarrow> fs \<Rightarrow> fs" where
  "save_all_quietly [] F = F"
| "save_all_quietly (x # xs) F = save_all_quietly xs (snd (save x F))"

text \<open>Only checkpoint files of the consumers are touched.\<close>

lemma save_all_frame:
  assumes "save_all xs F = (r, F')"
  shows "io_fails F' = io_fails F \<and>
    (\<forall>p. (\<forall>x \<in> set xs. p \<noteq> checkpoint_path (dir x) \<and> p \<noteq> checkpoint_tmp_path (dir x)) \<longrightarrow>
       files F' p = files F p)"
  using assms
proof (induction xs arbitrary: F)
  case Nil
  then show ?case by simp
next
  case (Cons x xs)
  obtain q F1 where s: "save x F = (q, F1)" by fastforce
  show ?case
  proof (cases q)
    case (Inl e)
    with Cons.prems s save_io [OF s] save_frame [OF s] show ?thesis by simp
  next
    case (Inr u)
    with Cons.prems s have "save_all xs F1 = (r, F')" by simp
    from Cons.IH [OF this] save_io [OF s] save_frame [OF s] show ?thesis by simp
  qed
qed

lemma save_all_quietly_frame:
  "io_fails (save_all_quietly xs F) = io_fails F \<and>
    (\<forall>p. (\<forall>x \<in> set xs. p \<noteq> checkpoint_path (dir x) \<and> p \<noteq> checkpoint_tmp_path (dir x)) \<longrightarrow>
       files (save_all_quietly xs F) p = files F p)"
proof (induction xs arbitrary: F)
  case Nil
  then show ?case by simp
next
  case (Cons x xs)
  obtain q F1 where s: "save x F = (q, F1)" by fastforce
  from Cons.IH [of F1] save_io [OF s] save_frame [OF s] s show ?case by simp
qed

text \<open>What is saved later leaves the checkpoints of other directories alone.\<close>

lemma apart:
  "dir x \<notin> dir ` set xs \<Longrightarrow> y \<in> set xs \<Longrightarrow>
    checkpoint_path (dir x) \<noteq> checkpoint_path (dir y) \<and>
    checkpoint_path (dir x) \<noteq> checkpoint_tmp_path (dir y)"
  using checkpoint_path_inj checkpoint_tmp_path_other by (metis image_eqI)

lemma save_all_load:
  assumes "save_all xs F = (Inr u, F')" and "distinct (map dir xs)" and "\<forall>x \<in> set xs. good x"
    and "\<And>p. io_fails F OpRead p = None"
  shows "\<forall>x \<in> set xs. load x F' = Inr (Some (content x))"
  using assms
proof (induction xs arbitrary: F)
  case Nil
  then show ?case by simp
next
  case (Cons x xs)
  obtain F1 where s: "save x F = (Inr (), F1)" and rest: "save_all xs F1 = (Inr u, F')"
    using Cons.prems(1) by (auto split: prod.splits sum.splits)
  have io: "io_fails F1 = io_fails F" using save_io [OF s] .
  have "load x F1 = Inr (Some (content x))" using save_load [OF s] Cons.prems(3,4) by simp
  moreover have "load x F' = load x F1"
    using save_all_frame [OF rest] apart [of x xs] Cons.prems(2) by (intro load_cong) auto
  ultimately show ?case
    using Cons.IH [OF rest] Cons.prems(2-4) io by simp
qed

lemma save_all_quietly_load:
  assumes "distinct (map dir xs)" and "\<forall>x \<in> set xs. good x" and "\<And>op p. io_fails F op p = None"
  shows "\<forall>x \<in> set xs. load x (save_all_quietly xs F) = Inr (Some (content x))"
  using assms
proof (induction xs arbitrary: F)
  case Nil
  then show ?case by simp
next
  case (Cons x xs)
  obtain F1 where s: "save x F = (Inr (), F1)"
    using save_succeeds [of x F] Cons.prems(2,3) by (cases "save x F") auto
  have io: "io_fails F1 = io_fails F" using save_io [OF s] .
  have "load x F1 = Inr (Some (content x))" using save_load [OF s] Cons.prems(2,3) by simp
  moreover have "load x (save_all_quietly xs F1) = load x F1"
    using save_all_quietly_frame [of xs F1] apart [of x xs] Cons.prems(1) by (intro load_cong) auto
  ultimately show ?case
    using Cons.IH [of F1] Cons.prems io s by simp
qed

end

interpretation projection_list: checkpoint_list
  "\<lambda>x. checkpoint_dir (rp_runner (snd x))"
  "\<lambda>x. projection_save E (rp_projection (snd x)) (rp_runner (snd x))"
  "\<lambda>x. load_checkpoint E (rp_projection (snd x)) (checkpoint_dir (rp_runner (snd x)))"
  "\<lambda>x. checkpoint (rp_runner (snd x))"
  "\<lambda>x. projection_good E (rp_projection (snd x)) (checkpoint (rp_runner (snd x)))"
  for E :: ext
proof (unfold_locales, goal_cases)
  case (1 x F r F' p)
  then show ?case unfolding projection_save_def by (rule projection_file.save_frame)
next
  case (2 x F r F')
  then show ?case unfolding projection_save_def by (rule projection_file.save_io)
next
  case (3 x F u F')
  then show ?case unfolding projection_save_def by (rule projection_file.save_load)
next
  case (4 F x G)
  then show ?case by (intro projection_file.load_cong) simp_all
next
  case (5 x F)
  then obtain bs where "checkpoint_bytes E (rp_projection (snd x)) (checkpoint (rp_runner (snd x))) = Inr bs"
    unfolding checkpoint_bytes_def projection_good_def using pretty_bytes_good by blast
  with 5(2) show ?case
    by (simp add: projection_save_def save_checkpoint_def write_and_rename_succeeds checkpoint_tmp_parent)
qed

interpretation pm_list: checkpoint_list
  "\<lambda>pm. pm_checkpoint_dir (rpm_runner pm)"
  "\<lambda>pm. pm_save E (rpm_manager pm) (rpm_runner pm)"
  "\<lambda>pm. load_pm_checkpoint E (rpm_manager pm) (pm_checkpoint_dir (rpm_runner pm))"
  "\<lambda>pm. pm_checkpoint (rpm_runner pm)"
  "\<lambda>pm. pm_good E (rpm_manager pm) (pm_checkpoint (rpm_runner pm))"
  for E :: ext
proof (unfold_locales, goal_cases)
  case (1 x F r F' p)
  then show ?case unfolding pm_save_def by (rule pm_file.save_frame)
next
  case (2 x F r F')
  then show ?case unfolding pm_save_def by (rule pm_file.save_io)
next
  case (3 x F u F')
  then show ?case unfolding pm_save_def by (rule pm_file.save_load)
next
  case (4 F x G)
  then show ?case by (intro pm_file.load_cong) simp_all
next
  case (5 x F)
  then obtain bs where "pm_checkpoint_bytes E (rpm_manager x) (pm_checkpoint (rpm_runner x)) = Inr bs"
    unfolding pm_checkpoint_bytes_def pm_good_def using pretty_bytes_good by blast
  with 5(2) show ?case
    by (simp add: pm_save_def save_pm_checkpoint_def write_and_rename_succeeds checkpoint_tmp_parent)
qed

text \<open>The loops of the store and of the live module are these.\<close>

lemma save_pms_all: "save_pms E pms F = pm_list.save_all E pms F"
  by (induction pms arbitrary: F) (simp_all split: prod.split sum.split)

lemma save_pms_quietly_all: "save_pms_quietly E pms F = pm_list.save_all_quietly E pms F"
  by (induction pms arbitrary: F) simp_all

lemma save_projections_quietly_all:
  "save_projections_quietly E rps F = projection_list.save_all_quietly E rps F"
  by (induction rps arbitrary: F) auto

end
