(* ===== verification/Store_Runs.thy ===== *)
theory Store_Runs
  imports Store_Invariant Save_All Consumer_Properties
begin

text \<open>
  Sequences of operations of a store: the world every operation leaves, the checkpoints of the
  process managers, the invariant of the consumers of the global log, and the step relation of
  a store that its clients and other processes share.
\<close>

subsection \<open>What an operation does to the world\<close>

lemma store_get_tracks:
  assumes T: "tracks R (cfg_ops N) (new_v4 N)"
  shows "R (world ap) (world (snd (store_get N tid i ap)))"
proof -
  obtain q w where sp: "spawn_state (cfg_ext N) (types N tid) (cfg_ops N) (cfg_base_dir N) i
      (world ap) (app_fs ap) = (q, w)" by fastforce
  have "w = world ap \<or> (\<exists>sid v. w = snd (read_stream_op (cfg_ops N) sid v u64_MAX (world ap)))"
    using sp by (auto simp: spawn_state_def Let_def split: sum.splits prod.splits option.splits)
      (metis snd_conv)+
  then have "R (world ap) w"
    using tracksD(1) [OF T] tracksD(4) [OF T surjective_pairing] by blast
  then show ?thesis
    using sp tracksD(1) [OF T]
    by (auto simp: store_get_def Let_def split: option.splits slot.splits sum.splits prod.splits)
qed

lemma call_actor_tracks:
  assumes T: "tracks R (cfg_ops N) (new_v4 N)"
  shows "R (world ap) (world (snd (call_actor N tid i msg ap)))"
proof (cases "\<exists>K st. cache ap (tid, i) = Some (Alive K st)")
  case True
  then obtain K st where c: "cache ap (tid, i) = Some (Alive K st)" by blast
  let ?m = "if (case timeouts ap of [] \<Rightarrow> False | b # _ \<Rightarrow> b) then Elapsed else Message msg"
  obtain rep status st' where s: "actor_step (cfg_ext N) (types N tid) (cfg_ops N) (new_v4 N) K ?m
      (st\<lparr>store := world ap, disk := app_fs ap\<rparr>) = (rep, status, st')"
    by (metis prod_cases3)
  from actor_step_tracks [OF T s] c s show ?thesis
    by (simp add: call_actor_def Let_def)
next
  case False
  then show ?thesis
    using tracksD(1) [OF T] by (auto simp: call_actor_def split: option.splits slot.splits)
qed

lemma store_execute_tracks:
  assumes T: "tracks R (cfg_ops N) (new_v4 N)"
  shows "R (world ap) (world (snd (store_execute N tid i cmd ctx ap)))"
  using call_actor_tracks [OF T, of ap tid i "Execute cmd ctx"]
  by (cases "call_actor N tid i (Execute cmd ctx) ap") (simp add: store_execute_def)

lemma store_state_tracks:
  assumes T: "tracks R (cfg_ops N) (new_v4 N)"
  shows "R (world ap) (world (snd (store_state N tid i ap)))"
  using call_actor_tracks [OF T, of ap tid i GetState]
  by (cases "call_actor N tid i GetState ap") (simp add: store_state_def)

lemma dispatch_or_error_tracks:
  assumes T: "tracks R (cfg_ops N) (new_v4 N)"
  shows "R (world ap) (world (snd (dispatch_or_error N envelope ap)))"
proof (cases "dispatchers N (env_aggregate_type envelope)")
  case None
  then show ?thesis using tracksD(1) [OF T] by (simp add: dispatch_or_error_def)
next
  case (Some D)
  let ?i = "env_instance_id envelope"
  have "R (world ap) (world (snd (dispatch N D envelope ap)))"
  proof (cases "command_from_value D (env_command envelope)")
    case (Inl e)
    then show ?thesis using tracksD(1) [OF T] by (simp add: dispatch_def)
  next
    case (Inr cmd)
    obtain q ap1 where g: "store_get N (target_type D) ?i ap = (q, ap1)" by fastforce
    obtain q2 ap2 where x: "store_execute N (target_type D) ?i cmd (env_context envelope) ap1 = (q2, ap2)"
      by fastforce
    have "R (world ap) (world ap1)" "R (world ap1) (world ap2)"
      using store_get_tracks [OF T, of ap "target_type D" ?i] g
        store_execute_tracks [OF T, of ap1 "target_type D" ?i cmd "env_context envelope"] x by simp_all
    with Inr g x show ?thesis
      using tracksD(2) [OF T] by (auto simp: dispatch_def split: sum.splits)
  qed
  with Some show ?thesis by (auto simp: dispatch_or_error_def split: prod.splits sum.splits)
qed

lemma dispatch_one_tracks:
  assumes T: "tracks R (cfg_ops N) (new_v4 N)"
  shows "R (world ap) (world (snd (dispatch_one N p envelope (report, ap))))"
  using dispatch_or_error_tracks [OF T, of ap envelope]
  by (auto simp: dispatch_one_def dead_letter_def split: prod.splits sum.splits)

lemma dispatch_all_tracks:
  assumes T: "tracks R (cfg_ops N) (new_v4 N)"
  shows "R (world ap) (world (snd (dispatch_all N work (report, ap))))"
proof (induction work arbitrary: report ap)
  case Nil
  then show ?case using tracksD(1) [OF T] by simp
next
  case (Cons x work)
  obtain envelope p where x: "x = (envelope, p)" by fastforce
  obtain q ap1 where one: "dispatch_one N p envelope (report, ap) = (q, ap1)" by fastforce
  have r1: "R (world ap) (world ap1)" using dispatch_one_tracks [OF T, of ap p envelope report] one by simp
  show ?case
  proof (cases q)
    case (Inl e)
    with x one r1 show ?thesis by simp
  next
    case (Inr report1)
    with x one r1 Cons.IH [of ap1 report1] show ?thesis using tracksD(2) [OF T] by auto
  qed
qed

subsection \<open>Consumers of the global log\<close>

text \<open>
  \<open>glog\<close> is the global log of a world. Every call leaves it longer or alone, and a subscription
  yields a part of it without a gap.
\<close>

definition log_setting ::
  "('w, 'a, 'c, 'e, 'err) config \<Rightarrow> ('w \<Rightarrow> recorded_event list) \<Rightarrow> bool" where
  "log_setting N glog \<longleftrightarrow>
     tracks (\<lambda>w w'. prefix (glog w) (glog w')) (cfg_ops N) (new_v4 N) \<and>
     (\<forall>pos w r w'. es_subscribe_all_from (cfg_ext N) (cfg_rpc N) (client N) pos w = (r, w') \<longrightarrow>
        prefix (glog w) (glog w') \<and> (\<forall>items. r = Inr items \<longrightarrow> delivers_part (glog w') pos items))"

lemma log_setting_tracks: "log_setting N glog \<Longrightarrow> tracks (\<lambda>w w'. prefix (glog w) (glog w')) (cfg_ops N) (new_v4 N)"
  by (simp add: log_setting_def)

lemma log_setting_subscribe:
  assumes "log_setting N glog"
    and "es_subscribe_all_from (cfg_ext N) (cfg_rpc N) (client N) pos w = (r, w')"
  shows "prefix (glog w) (glog w')" "r = Inr items \<Longrightarrow> delivers_part (glog w') pos items"
  using assms unfolding log_setting_def by blast+

definition projection_ok ::
  "ext \<Rightarrow> recorded_event list \<Rightarrow> 'p projection \<Rightarrow> 'p projection_runner \<Rightarrow> bool" where
  "projection_ok E log P rn \<longleftrightarrow> (\<exists>es. prefix es log \<and> projection_at E P es (checkpoint rn))"

definition pm_ok :: "ext \<Rightarrow> recorded_event list \<Rightarrow> 'q process_manager \<Rightarrow> 'q pm_runner \<Rightarrow> bool" where
  "pm_ok E log P rn \<longleftrightarrow> (\<exists>es. prefix es log \<and> pm_at E P es (pm_checkpoint rn))"

text \<open>Every consumer is the fold of a prefix of the log.\<close>

definition consumers_inv ::
  "('w, 'a, 'c, 'e, 'err) config \<Rightarrow> ('w \<Rightarrow> recorded_event list) \<Rightarrow> ('w, 'a, 'p, 'q) app \<Rightarrow> bool" where
  "consumers_inv N glog ap \<longleftrightarrow>
     (\<forall>x \<in> set (projections ap).
        projection_ok (cfg_ext N) (glog (world ap)) (rp_projection (snd x)) (rp_runner (snd x))) \<and>
     (\<forall>pm \<in> set (process_managers ap).
        pm_ok (cfg_ext N) (glog (world ap)) (rpm_manager pm) (rpm_runner pm))"

lemma projection_ok_mono: "projection_ok E log P rn \<Longrightarrow> prefix log log' \<Longrightarrow> projection_ok E log' P rn"
  unfolding projection_ok_def by (blast intro: prefix_order.trans)

lemma pm_ok_mono: "pm_ok E log P rn \<Longrightarrow> prefix log log' \<Longrightarrow> pm_ok E log' P rn"
  unfolding pm_ok_def by (blast intro: prefix_order.trans)

lemma consumers_inv_mono:
  assumes "consumers_inv N glog ap" and "projections ap' = projections ap"
    and "process_managers ap' = process_managers ap" and "prefix (glog (world ap)) (glog (world ap'))"
  shows "consumers_inv N glog ap'"
  using assms(1-3)
  by (auto simp: consumers_inv_def dest: projection_ok_mono [OF _ assms(4)] pm_ok_mono [OF _ assms(4)])

lemma pm_catch_up_ok:
  assumes "log_setting N glog" and "log_ok (glog w')" and "pm_ok (cfg_ext N) (glog w) P rn"
    and "pm_catch_up (cfg_ext N) P (cfg_rpc N) (client N) rn w = (r, rn', w')"
  shows "prefix (glog w) (glog w') \<and> pm_ok (cfg_ext N) (glog w') P rn' \<and>
    pm_checkpoint_dir rn' = pm_checkpoint_dir rn"
proof -
  let ?pos = "pmc_last_global_position (pm_checkpoint rn)"
  obtain q w1 where sub: "es_subscribe_all_from (cfg_ext N) (cfg_rpc N) (client N) ?pos w = (q, w1)"
    by fastforce
  have w1: "w' = w1" using assms(4) sub by (auto simp: pm_catch_up_def split: sum.splits prod.splits)
  note log = log_setting_subscribe [OF assms(1) sub]
  show ?thesis
  proof (cases q)
    case (Inl st)
    then have "rn' = rn" using assms(4) sub by (simp add: pm_catch_up_def)
    then show ?thesis using log(1) w1 pm_ok_mono [OF assms(3)] by simp
  next
    case (Inr items)
    obtain ck where ck: "pm_process_stream (cfg_ext N) P items [] (pm_checkpoint rn) = (r, ck)"
      "rn' = rn\<lparr>pm_checkpoint := ck\<rparr>"
      using assms(4) sub Inr by (auto simp: pm_catch_up_def split: prod.splits)
    obtain es where es: "prefix es (glog w)" "pm_at (cfg_ext N) P es (pm_checkpoint rn)"
      using assms(3) by (auto simp: pm_ok_def)
    then obtain fs where fs: "glog w1 = es @ fs" using log(1) by (auto simp: prefix_def)
    have "log_ok (es @ fs)" using assms(2) fs w1 by simp
    moreover have "delivers_part (es @ fs) ?pos items" using log(2) [OF Inr] fs by simp
    ultimately obtain gs hs where "fs = gs @ hs" "pm_at (cfg_ext N) P (es @ gs) ck"
      using pm_process_stream_part [OF _ es(2) _ ck(1)] by blast
    then have "prefix (es @ gs) (glog w1) \<and> pm_at (cfg_ext N) P (es @ gs) (pm_checkpoint rn')"
      using fs ck(2) by simp
    then show ?thesis using log(1) w1 ck(2) unfolding pm_ok_def by auto
  qed
qed

lemma projection_catch_up_ok:
  assumes "log_setting N glog" and "log_ok (glog w')" and "projection_ok (cfg_ext N) (glog w) P rn"
    and "projection_catch_up (cfg_ext N) P (cfg_rpc N) (client N) rn w F = (r, rn', w', F')"
  shows "prefix (glog w) (glog w') \<and> projection_ok (cfg_ext N) (glog w') P rn' \<and>
    checkpoint_dir rn' = checkpoint_dir rn"
proof -
  let ?pos = "pc_last_global_position (checkpoint rn)"
  obtain q w1 where sub: "es_subscribe_all_from (cfg_ext N) (cfg_rpc N) (client N) ?pos w = (q, w1)"
    by fastforce
  have w1: "w' = w1"
    using assms(4) sub by (auto simp: projection_catch_up_def split: sum.splits prod.splits)
  note log = log_setting_subscribe [OF assms(1) sub]
  show ?thesis
  proof (cases q)
    case (Inl st)
    then have "rn' = rn" using assms(4) sub by (simp add: projection_catch_up_def)
    then show ?thesis using log(1) w1 projection_ok_mono [OF assms(3)] by simp
  next
    case (Inr items)
    obtain r1 ck where ck: "process_stream (cfg_ext N) P items (checkpoint rn) = (r1, ck)" by fastforce
    have rn': "rn' = rn\<lparr>checkpoint := ck\<rparr>"
      using assms(4) sub Inr ck by (auto simp: projection_catch_up_def split: sum.splits prod.splits)
    obtain es where es: "prefix es (glog w)" "projection_at (cfg_ext N) P es (checkpoint rn)"
      using assms(3) by (auto simp: projection_ok_def)
    then obtain fs where fs: "glog w1 = es @ fs" using log(1) by (auto simp: prefix_def)
    have "log_ok (es @ fs)" using assms(2) fs w1 by simp
    moreover have "delivers_part (es @ fs) ?pos items" using log(2) [OF Inr] fs by simp
    ultimately obtain gs hs where "fs = gs @ hs" "projection_at (cfg_ext N) P (es @ gs) ck"
      using process_stream_part [OF _ es(2) _ ck] by blast
    then have "prefix (es @ gs) (glog w1) \<and> projection_at (cfg_ext N) P (es @ gs) (checkpoint rn')"
      using fs rn' by simp
    then show ?thesis using log(1) w1 rn' unfolding projection_ok_def by auto
  qed
qed

subsection \<open>A round of the process managers\<close>

text \<open>The logs of dead letters and the checkpoints are told apart by their names.\<close>

definition log_name :: "path \<Rightarrow> bool" where
  "log_name p \<longleftrightarrow> comps p \<noteq> [] \<and> last (comps p) = ''dead_letters.jsonl''"

definition checkpoint_name :: "path \<Rightarrow> bool" where
  "checkpoint_name p \<longleftrightarrow> comps p \<noteq> [] \<and>
     (last (comps p) = ''checkpoint.json'' \<or> last (comps p) = ''checkpoint.json.tmp'')"

lemma names_differ:
  "log_name p \<Longrightarrow> \<not> snapshot_name p \<and> \<not> checkpoint_name p"
  "checkpoint_name p \<Longrightarrow> \<not> snapshot_name p \<and> \<not> log_name p"
  by (auto simp: log_name_def checkpoint_name_def snapshot_name_def)

lemma dead_letter_path_name: "log_name (dead_letter_path rn)"
  by (simp add: log_name_def dead_letter_path_def path_join_simple path_of_simple simple_name_def)

lemma checkpoint_path_name: "checkpoint_name (checkpoint_path d)" "checkpoint_name (checkpoint_tmp_path d)"
  by (simp_all add: checkpoint_name_def checkpoint_path_def checkpoint_tmp_path_def path_join_simple)

text \<open>The world after a round: any order the subscriptions respect holds across it.\<close>

lemma collect_work_world:
  assumes "\<And>w. R w w" and "\<And>a b c. R a b \<Longrightarrow> R b c \<Longrightarrow> R a c"
    and "\<And>pos w r w'. es_subscribe_all_from (cfg_ext N) (cfg_rpc N) (client N) pos w = (r, w') \<Longrightarrow> R w w'"
    and "collect_work N pms w = (r, pms', w')"
  shows "R w w'"
  using assms(4)
proof (induction pms arbitrary: w r pms' w')
  case Nil
  then show ?case using assms(1) by simp
next
  case (Cons pm pms)
  obtain q rn w1 where c: "pm_catch_up (cfg_ext N) (rpm_manager pm) (cfg_rpc N) (client N) (rpm_runner pm) w = (q, rn, w1)"
    by (metis prod_cases3)
  then obtain x where "es_subscribe_all_from (cfg_ext N) (cfg_rpc N) (client N)
      (pmc_last_global_position (pm_checkpoint (rpm_runner pm))) w = (x, w1)"
    by (auto simp: pm_catch_up_def split: sum.splits prod.splits)
  then have r1: "R w w1" by (rule assms(3))
  obtain q2 pms2 w2 where rest: "collect_work N pms w1 = (q2, pms2, w2)" by (metis prod_cases3)
  show ?case
    using Cons.prems Cons.IH [OF rest] c rest r1 assms(2) by (auto split: sum.splits)
qed

lemma collect_work_grows:
  assumes "log_setting N glog" and "collect_work N pms w = (r, pms', w')"
  shows "prefix (glog w) (glog w')"
  by (rule collect_work_world [OF _ _ log_setting_subscribe(1) [OF assms(1)] assms(2)])
    (auto intro: prefix_order.trans)

lemma collect_work_ok:
  assumes "log_setting N glog" and "log_ok (glog w')"
    and "\<forall>pm \<in> set pms. pm_ok (cfg_ext N) (glog w) (rpm_manager pm) (rpm_runner pm)"
    and "collect_work N pms w = (r, pms', w')"
  shows "prefix (glog w) (glog w') \<and>
    (\<forall>pm \<in> set pms'. pm_ok (cfg_ext N) (glog w') (rpm_manager pm) (rpm_runner pm))"
  using assms(2-4)
proof (induction pms arbitrary: w r pms' w')
  case Nil
  then show ?case by simp
next
  case (Cons pm pms)
  obtain q rn w1 where c: "pm_catch_up (cfg_ext N) (rpm_manager pm) (cfg_rpc N) (client N) (rpm_runner pm) w = (q, rn, w1)"
    by (metis prod_cases3)
  have one: "pm_ok (cfg_ext N) (glog w) (rpm_manager pm) (rpm_runner pm)" using Cons.prems(2) by simp
  show ?case
  proof (cases q)
    case (Inl e)
    with Cons.prems(3) c have r: "pms' = pm\<lparr>rpm_runner := rn\<rparr> # pms" "w' = w1" by simp_all
    with Cons.prems(1) pm_catch_up_ok [OF assms(1) _ one c] have
      "prefix (glog w) (glog w') \<and> pm_ok (cfg_ext N) (glog w') (rpm_manager pm) rn" by simp
    with r Cons.prems(2) pm_ok_mono show ?thesis by fastforce
  next
    case (Inr envelopes)
    obtain q2 pms2 w2 where rest: "collect_work N pms w1 = (q2, pms2, w2)" by (metis prod_cases3)
    have r: "pms' = pm\<lparr>rpm_runner := rn\<rparr> # pms2" "w' = w2"
      using Cons.prems(3) c rest Inr by (auto split: sum.splits)
    have g12: "prefix (glog w1) (glog w2)" by (rule collect_work_grows [OF assms(1) rest])
    have ok1: "log_ok (glog w1)" using log_ok_prefix [OF Cons.prems(1)] r(2) g12 by simp
    note head = pm_catch_up_ok [OF assms(1) ok1 one c]
    have "\<forall>pm \<in> set pms. pm_ok (cfg_ext N) (glog w1) (rpm_manager pm) (rpm_runner pm)"
      using Cons.prems(2) head pm_ok_mono by fastforce
    from Cons.IH [OF _ this rest] Cons.prems(1) r(2)
    have "\<forall>pm \<in> set pms2. pm_ok (cfg_ext N) (glog w2) (rpm_manager pm) (rpm_runner pm)" by simp
    moreover have "pm_ok (cfg_ext N) (glog w2) (rpm_manager pm) rn" using head g12 pm_ok_mono by blast
    ultimately show ?thesis using r head g12 by (auto intro: prefix_order.trans)
  qed
qed

lemma subscribe_grows:
  assumes "cfg_setting N strm"
    and "es_subscribe_all_from (cfg_ext N) (cfg_rpc N) (client N) pos w = (r, w')"
  shows "grows strm w w'"
  using assms(2) [unfolded es_subscribe_all_from_def]
proof (cases rule: call_rpc_cases)
  case (sent md)
  with assms(1) show ?thesis unfolding cfg_setting_def by (metis snd_conv)
qed simp

lemma collect_work_streams:
  assumes "cfg_setting N strm" and "collect_work N pms w = (r, pms', w')"
  shows "grows strm w w'"
  by (rule collect_work_world [OF _ _ subscribe_grows [OF assms(1)] assms(2)]) (auto intro: grows_trans)

lemma flatten_work_simps [simp]:
  "flatten_work [] = []"
  "flatten_work ((envs, p) # work) = map (\<lambda>e. (e, p)) envs @ flatten_work work"
  by (simp_all add: flatten_work_def)

lemma collect_work_paths:
  fixes pms :: "'e registered_pm list"
  assumes "collect_work N pms w = (Inr work, pms', w')"
  shows "\<forall>(envelope, p) \<in> set (flatten_work work). log_name p"
  using assms
proof (induction pms arbitrary: w work pms')
  case Nil
  then show ?case by simp
next
  case (Cons pm pms)
  obtain envs rn w1 work2 pms2 where "collect_work N pms w1 = (Inr work2, pms2, w')"
    "work = (envs, dead_letter_path (rn :: 'e pm_runner)) # work2"
    using Cons.prems by (auto split: sum.splits prod.splits)
  with Cons.IH [of w1 work2 pms2] show ?case
    by (auto simp: dead_letter_path_name)
qed

lemma collect_work_dirs:
  assumes "collect_work N pms w = (r, pms', w')"
  shows "map (\<lambda>pm. (rpm_manager pm, pm_checkpoint_dir (rpm_runner pm))) pms' =
    map (\<lambda>pm. (rpm_manager pm, pm_checkpoint_dir (rpm_runner pm))) pms"
  using assms
proof (induction pms arbitrary: w r pms')
  case Nil
  then show ?case by simp
next
  case (Cons pm pms)
  obtain q rn w1 where c: "pm_catch_up (cfg_ext N) (rpm_manager pm) (cfg_rpc N) (client N) (rpm_runner pm) w = (q, rn, w1)"
    by (metis prod_cases3)
  then have "pm_checkpoint_dir rn = pm_checkpoint_dir (rpm_runner pm)"
    by (auto simp: pm_catch_up_def split: sum.splits prod.splits)
  moreover obtain q2 pms2 w2 where "collect_work N pms w1 = (q2, pms2, w2)" by (metis prod_cases3)
  ultimately show ?case using Cons.prems Cons.IH [of w1 q2 pms2] c by (auto split: sum.splits)
qed

lemma save_pms_frame:
  assumes "save_pms E pms F = (r, F')"
  shows "io_fails F' = io_fails F" "\<not> checkpoint_name p \<Longrightarrow> files F' p = files F p"
proof -
  note fr = pm_list.save_all_frame [OF assms [unfolded save_pms_all]]
  show "io_fails F' = io_fails F" using fr by simp
  assume "\<not> checkpoint_name p"
  then have "p \<noteq> checkpoint_path d \<and> p \<noteq> checkpoint_tmp_path d" for d
    using checkpoint_path_name by blast
  with fr show "files F' p = files F p" by simp
qed

lemma save_pms_kept: "save_pms E pms F = (r, F') \<Longrightarrow> snapshots_kept F F'"
  using save_pms_frame names_differ(2) unfolding snapshots_kept_def by blast

lemma dispatch_all_framed:
  "process_managers (snd (dispatch_all N work (report, ap))) = process_managers ap \<and>
   projections (snd (dispatch_all N work (report, ap))) = projections ap"
proof (induction work arbitrary: report ap)
  case Nil
  then show ?case by simp
next
  case (Cons x work)
  obtain envelope p where x: "x = (envelope, p)" by fastforce
  obtain q ap1 where d: "dispatch_or_error N envelope ap = (q, ap1)" by fastforce
  then have fr: "framed ap ap1" using dispatch_or_error_framed [of ap N envelope] by simp
  obtain q2 ap2 where one: "dispatch_one N p envelope (report, ap) = (q2, ap2)" by fastforce
  then have "process_managers ap2 = process_managers ap1" "projections ap2 = projections ap1"
    using d by (auto simp: dispatch_one_def dead_letter_def split: sum.splits prod.splits)
  with fr x one Cons.IH [of _ ap2] show ?case by (cases q2) (simp_all add: framed_def)
qed

text \<open>A round keeps the invariants of the actors and of the consumers.\<close>

lemma run_process_managers_keeps:
  assumes "cfg_setting N strm" and "app_inv N J strm ap" and "timeouts ap = []"
    and "run_process_managers N ap = (r, ap')"
  shows "keeps N J strm ap ap'"
proof -
  obtain q pms w where c: "collect_work N (process_managers ap) (world ap) = (q, pms, w)"
    by (metis prod_cases3)
  let ?ap0 = "ap\<lparr>process_managers := pms, world := w\<rparr>"
  have k0: "keeps N J strm ap ?ap0"
    by (rule keeps_env [OF assms(2,3)]) (simp_all add: collect_work_streams [OF assms(1) c])
  show ?thesis
  proof (cases q)
    case (Inl e)
    with assms(4) c k0 show ?thesis by (simp add: run_process_managers_def)
  next
    case (Inr work)
    obtain q2 ap1 where d: "dispatch_all N (flatten_work work) (report_default, ?ap0) = (q2, ap1)" by fastforce
    have paths: "\<forall>(envelope, p) \<in> set (flatten_work work). \<not> snapshot_name p"
      using collect_work_paths [OF c [unfolded Inr]] names_differ(1) by auto
    have "keeps N J strm ?ap0 ap1"
      using dispatch_all_keeps [OF assms(1) _ _ paths d] keepsD [OF k0] by blast
    then have k1: "keeps N J strm ap ap1" by (rule keeps_trans [OF k0])
    show ?thesis
    proof (cases q2)
      case (Inl e)
      with assms(4) c d k1 \<open>q = Inr work\<close> show ?thesis by (simp add: run_process_managers_def)
    next
      case (Inr report)
      obtain q3 F where s: "save_pms (cfg_ext N) (process_managers ap1) (app_fs ap1) = (q3, F)" by fastforce
      have "keeps N J strm ap1 (ap1\<lparr>app_fs := F\<rparr>)"
        using keepsD [OF k1] save_pms_kept [OF s] by (intro keeps_env) simp_all
      with k1 have "keeps N J strm ap (ap1\<lparr>app_fs := F\<rparr>)" by (rule keeps_trans)
      with assms(4) c d s Inr \<open>q = Inr work\<close> show ?thesis
        by (auto simp: run_process_managers_def split: sum.splits)
    qed
  qed
qed

lemma run_process_managers_consumers:
  fixes ap ap' :: "('w, 'a, 'p, 'q) app"
  assumes "log_setting N glog" and "log_ok (glog (world ap'))" and "consumers_inv N glog ap"
    and "run_process_managers N ap = (r, ap')"
  shows "consumers_inv N glog ap' \<and> prefix (glog (world ap)) (glog (world ap'))"
proof -
  obtain q pms w where c: "collect_work N (process_managers ap) (world ap) = (q, pms, w)"
    by (metis prod_cases3)
  let ?ap0 = "ap\<lparr>process_managers := pms, world := w\<rparr>"
  obtain ap1 :: "('w, 'a, 'p, 'q) app" where ap1: "projections ap1 = projections ap" "process_managers ap1 = pms"
    "prefix (glog w) (glog (world ap1))" "world ap' = world ap1" "projections ap' = projections ap1"
    "process_managers ap' = process_managers ap1"
  proof (cases q)
    case (Inl e)
    with assms(4) c have "ap' = ?ap0" by (simp add: run_process_managers_def)
    then show ?thesis using that [of ?ap0] by simp
  next
    case (Inr work)
    obtain q2 ap1 where d: "dispatch_all N (flatten_work work) (report_default, ?ap0) = (q2, ap1)" by fastforce
    have "\<exists>F. ap' = ap1\<lparr>app_fs := F\<rparr>"
      using assms(4) c d Inr
      by (cases q2) (auto simp: run_process_managers_def split: sum.splits prod.splits intro: exI [of _ "app_fs ap1"])
    moreover have "prefix (glog w) (glog (world ap1))"
      using dispatch_all_tracks [OF log_setting_tracks [OF assms(1)], of ?ap0 "flatten_work work" report_default] d
      by simp
    moreover have "projections ap1 = projections ap" "process_managers ap1 = pms"
      using dispatch_all_framed [of N "flatten_work work" report_default ?ap0] d by simp_all
    ultimately show ?thesis using that [of ap1] by auto
  qed
  have "log_ok (glog w)" using log_ok_prefix [OF assms(2)] ap1(3,4) by simp
  then have "prefix (glog (world ap)) (glog w) \<and>
      (\<forall>pm \<in> set pms. pm_ok (cfg_ext N) (glog w) (rpm_manager pm) (rpm_runner pm))"
    using collect_work_ok [OF assms(1) _ _ c] assms(3) by (simp add: consumers_inv_def)
  moreover from this have "\<forall>x \<in> set (projections ap).
      projection_ok (cfg_ext N) (glog w) (rp_projection (snd x)) (rp_runner (snd x))"
    using assms(3) by (auto simp: consumers_inv_def dest: projection_ok_mono)
  ultimately have "consumers_inv N glog ?ap0" "prefix (glog (world ap)) (glog w)"
    by (simp_all add: consumers_inv_def)
  with ap1 show ?thesis
    using consumers_inv_mono [of N glog ?ap0 ap'] by (auto intro: prefix_order.trans)
qed

subsection \<open>Injection and projections\<close>

lemma inject_event_keeps:
  assumes "cfg_setting N strm" and "app_inv N J strm ap" and "timeouts ap = []"
    and "inject_event N tid i proposed b ap = (r, ap')"
  shows "keeps N J strm ap ap'"
proof -
  let ?sid = "stream_uuid (cfg_ext N) (AGGREGATE_TYPE (types N tid)) i"
  obtain q w where a: "es_append (cfg_ext N) (cfg_rpc N) (client N) ?sid Any [proposed] (world ap) = (q, w)"
    by fastforce
  have c: "rpc_contract (cfg_rpc N) strm" using assms(1) by (simp add: cfg_setting_def)
  have g: "grows strm (world ap) w"
    unfolding grows_def using es_append_contract(1) [OF c a] by blast
  have k: "keeps N J strm ap (ap\<lparr>world := w\<rparr>)"
    by (rule keeps_env [OF assms(2,3)]) (simp_all add: g)
  show ?thesis
  proof (cases "\<exists>u. q = Inr u \<and> b")
    case False
    with assms(4) a k show ?thesis
      by (auto simp: inject_event_def Let_def split: sum.splits)
  next
    case True
    obtain q2 ap2 where p: "run_process_managers N (ap\<lparr>world := w\<rparr>) = (q2, ap2)" by fastforce
    have "keeps N J strm (ap\<lparr>world := w\<rparr>) ap2"
      using run_process_managers_keeps [OF assms(1) _ _ p] keepsD [OF k] by simp
    with k have "keeps N J strm ap ap2" by (rule keeps_trans)
    with True assms(4) a p show ?thesis
      by (auto simp: inject_event_def Let_def split: sum.splits)
  qed
qed

lemma inject_event_consumers:
  fixes ap ap' :: "('w, 'a, 'p, 'q) app"
  assumes "log_setting N glog" and "log_ok (glog (world ap'))" and "consumers_inv N glog ap"
    and "inject_event N tid i proposed b ap = (r, ap')"
  shows "consumers_inv N glog ap' \<and> prefix (glog (world ap)) (glog (world ap'))"
proof -
  let ?sid = "stream_uuid (cfg_ext N) (AGGREGATE_TYPE (types N tid)) i"
  obtain q w where a: "es_append (cfg_ext N) (cfg_rpc N) (client N) ?sid Any [proposed] (world ap) = (q, w)"
    by fastforce
  then have "append_op (cfg_ops N) ?sid Any [proposed] (world ap) = (q, w)"
    by (simp add: cfg_ops_def es_client_ops_def)
  then have g: "prefix (glog (world ap)) (glog w)"
    by (rule tracksD(3) [OF log_setting_tracks [OF assms(1)]])
  have c0: "consumers_inv N glog (ap\<lparr>world := w\<rparr>)"
    by (rule consumers_inv_mono [OF assms(3)]) (simp_all add: g)
  show ?thesis
  proof (cases "\<exists>u. q = Inr u \<and> b")
    case False
    then have "ap' = ap\<lparr>world := w\<rparr>"
      using assms(4) a by (auto simp: inject_event_def Let_def split: sum.splits)
    with c0 g show ?thesis by simp
  next
    case True
    obtain q2 ap2 where p: "run_process_managers N (ap\<lparr>world := w\<rparr>) = (q2, ap2)" by fastforce
    have "ap' = ap2"
      using True assms(4) a p by (auto simp: inject_event_def Let_def split: sum.splits)
    with run_process_managers_consumers [OF assms(1) _ c0 p] assms(2) g show ?thesis
      by (auto intro: prefix_order.trans)
  qed
qed

lemma update_first_set: "x \<in> set (update_first k v m) \<Longrightarrow> x = (k, v) \<or> x \<in> set m"
  by (induction m rule: update_first.induct) (auto split: if_splits)

lemma store_projection_cases:
  assumes "store_projection N P tid ap = (r, ap')"
  obtains (same) "ap' = ap" "map_of (projections ap) (NAME P) = None"
  | (caught) rp q rn w F where "map_of (projections ap) (NAME P) = Some rp"
      "projection_catch_up (cfg_ext N) (rp_projection rp) (cfg_rpc N) (client N) (rp_runner rp)
         (world ap) (app_fs ap) = (q, rn, w, F)"
      "ap' = ap\<lparr>world := w, app_fs := F,
         projections := update_first (NAME P) (rp\<lparr>rp_runner := rn\<rparr>) (projections ap)\<rparr>"
proof (cases "map_of (projections ap) (NAME P)")
  case None
  with assms same show ?thesis by (simp add: store_projection_def)
next
  case (Some rp)
  obtain q rn w F where c: "projection_catch_up (cfg_ext N) (rp_projection rp) (cfg_rpc N) (client N)
      (rp_runner rp) (world ap) (app_fs ap) = (q, rn, w, F)" by (metis prod_cases4)
  with assms Some have "ap' = ap\<lparr>world := w, app_fs := F,
         projections := update_first (NAME P) (rp\<lparr>rp_runner := rn\<rparr>) (projections ap)\<rparr>"
    by (cases q) (auto simp: store_projection_def Let_def split: if_splits)
  with Some c caught show ?thesis by blast
qed

lemma projection_catch_up_frame:
  assumes "projection_catch_up E P R c rn w F = (r, rn', w', F')"
  shows "(\<exists>q. es_subscribe_all_from E R c (pc_last_global_position (checkpoint rn)) w = (q, w')) \<and>
    io_fails F' = io_fails F \<and> (\<forall>p. \<not> checkpoint_name p \<longrightarrow> files F' p = files F p)"
proof -
  obtain q w1 where sub: "es_subscribe_all_from E R c (pc_last_global_position (checkpoint rn)) w = (q, w1)"
    by fastforce
  have "w' = w1" "F' = F \<or> (\<exists>d ck x. save_checkpoint E P d ck F = (x, F'))"
    using assms sub by (auto simp: projection_catch_up_def split: sum.splits prod.splits)
  moreover have "io_fails G = io_fails F \<and> (\<forall>p. \<not> checkpoint_name p \<longrightarrow> files G p = files F p)"
    if "save_checkpoint E P d ck F = (x, G)" for d ck x G
    using projection_file.save_io [OF that] projection_file.save_frame [OF that]
    by (metis checkpoint_path_name)
  ultimately show ?thesis using sub by auto
qed

lemma store_projection_keeps:
  assumes "cfg_setting N strm" and "app_inv N J strm ap" and "timeouts ap = []"
    and "store_projection N P tid ap = (r, ap')"
  shows "keeps N J strm ap ap'"
  using assms(4)
proof (cases rule: store_projection_cases)
  case same
  with assms(2,3) show ?thesis by (simp add: keeps_refl)
next
  case (caught rp q rn w F)
  note fr = projection_catch_up_frame [OF caught(2)]
  have "grows strm (world ap) w" using fr subscribe_grows [OF assms(1)] by blast
  moreover have "snapshots_kept (app_fs ap) F"
    using fr names_differ(2) unfolding snapshots_kept_def by blast
  ultimately show ?thesis using caught(3) assms(2,3) by (intro keeps_env) simp_all
qed

lemma store_projection_consumers:
  fixes ap ap' :: "('w, 'a, 'p, 'q) app"
  assumes "log_setting N glog" and "log_ok (glog (world ap'))" and "consumers_inv N glog ap"
    and "store_projection N P tid ap = (r, ap')"
  shows "consumers_inv N glog ap' \<and> prefix (glog (world ap)) (glog (world ap'))"
  using assms(4)
proof (cases rule: store_projection_cases)
  case same
  with assms(3) show ?thesis by simp
next
  case (caught rp q rn w F)
  have "(NAME P, rp) \<in> set (projections ap)" using caught(1) by (rule map_of_SomeD)
  then have "projection_ok (cfg_ext N) (glog (world ap)) (rp_projection rp) (rp_runner rp)"
    using assms(3) by (auto simp: consumers_inv_def)
  from projection_catch_up_ok [OF assms(1) _ this caught(2)] assms(2) caught(3)
  have ok: "prefix (glog (world ap)) (glog w)" "projection_ok (cfg_ext N) (glog w) (rp_projection rp) rn"
    by simp_all
  have "consumers_inv N glog (ap\<lparr>world := w\<rparr>)"
    by (rule consumers_inv_mono [OF assms(3)]) (simp_all add: ok(1))
  then have "consumers_inv N glog ap'"
    using ok(2) caught(3) update_first_set by (fastforce simp: consumers_inv_def)
  with ok(1) caught(3) show ?thesis by simp
qed

subsection \<open>Runs of a store\<close>

text \<open>
  What may happen to a store: a client uses it, the clock moves, an actor of \<open>X\<close> that has seen
  an event exits idle, and other processes change the world as \<open>G\<close> lets them.
\<close>

inductive store_step ::
  "('w, 'a, 'c, 'e, 'err) config \<Rightarrow> ('w \<Rightarrow> 'w \<Rightarrow> bool) \<Rightarrow> (nat \<times> string) set
    \<Rightarrow> ('w, 'a, 'p, 'q) app
    \<Rightarrow> ('w, 'a, 'p, 'q) app \<Rightarrow> bool" for N G X where
  get: "store_get N tid i ap = (r, ap') \<Longrightarrow> store_step N G X ap ap'"
| execute: "store_execute N tid i cmd ctx ap = (r, ap') \<Longrightarrow> store_step N G X ap ap'"
| state: "store_state N tid i ap = (r, ap') \<Longrightarrow> store_step N G X ap ap'"
| inject_via: "call_actor N tid i (Inject p) ap = (r, ap') \<Longrightarrow> store_step N G X ap ap'"
| inject: "inject_event N tid i p b ap = (r, ap') \<Longrightarrow> store_step N G X ap ap'"
| managers: "run_process_managers N ap = (r, ap') \<Longrightarrow> store_step N G X ap ap'"
| projection: "store_projection N P tid ap = (r, ap') \<Longrightarrow> store_step N G X ap ap'"
| clock: "store_step N G X ap (ap\<lparr>clock := now\<rparr>)"
| elapses: "(tid, i) \<in> X \<Longrightarrow> cache ap (tid, i) = Some (Alive K st) \<Longrightarrow> stream_version st \<noteq> None
    \<Longrightarrow> store_step N G X ap (actor_elapses N tid i ap)"
| others: "G (world ap) w \<Longrightarrow> store_step N G X ap (ap\<lparr>world := w\<rparr>)"

lemma store_step_keeps:
  assumes "cfg_setting N strm" and "\<And>w w'. G w w' \<Longrightarrow> grows strm w w'" and "exits_apart N J X"
    and "store_step N G X ap ap'" and "app_inv N J strm ap" and "timeouts ap = []"
  shows "keeps N J strm ap ap'"
  using assms(4-6)
proof (cases rule: store_step.cases)
  case (inject_via tid i p r)
  from call_actor_inv [OF assms(1,5,6) _ this] show ?thesis by (simp add: keeps_def)
next
  case (elapses tid i K st)
  have "app_inv N J strm ap'"
    unfolding elapses(1) by (rule actor_elapses_keeps_inv [OF assms(1,5,3) elapses(2-4)])
  with elapses assms(6) show ?thesis by (simp add: keeps_def actor_elapses_def Let_def)
next
  case (clock now)
  with assms(5,6) show ?thesis by (intro keeps_env) simp_all
next
  case (others w)
  with assms(2,5,6) show ?thesis by (intro keeps_env) simp_all
qed (blast intro: store_get_keeps store_execute_keeps store_state_keeps inject_event_keeps
    run_process_managers_keeps store_projection_keeps assms)+

lemma store_step_consumers:
  fixes ap ap' :: "('w, 'a, 'p, 'q) app"
  assumes "log_setting N glog" and "\<And>w w'. G w w' \<Longrightarrow> prefix (glog w) (glog w')"
    and "store_step N G X ap ap'" and "consumers_inv N glog ap" and "log_ok (glog (world ap'))"
  shows "consumers_inv N glog ap' \<and> prefix (glog (world ap)) (glog (world ap'))"
proof -
  note T = log_setting_tracks [OF assms(1)]
  have same: "consumers_inv N glog ap'" if "projections ap' = projections ap"
    "process_managers ap' = process_managers ap" "prefix (glog (world ap)) (glog (world ap'))"
    using consumers_inv_mono [OF assms(4) that] .
  show ?thesis
    using assms(3)
  proof (cases rule: store_step.cases)
    case (get tid i r)
    with same store_get_tracks [OF T, of ap tid i] store_get_framed [of ap N tid i] show ?thesis
      by (simp add: framed_def)
  next
    case (execute tid i cmd ctx r)
    with same store_execute_tracks [OF T, of ap tid i cmd ctx] store_execute_framed [of ap N tid i cmd ctx]
    show ?thesis by (simp add: framed_def)
  next
    case (state tid i r)
    have "framed ap ap'"
      using call_actor_framed [of ap N tid i GetState] state
      by (auto simp: store_state_def split: prod.splits)
    with state same store_state_tracks [OF T, of ap tid i] show ?thesis by (simp add: framed_def)
  next
    case (inject_via tid i p r)
    with same call_actor_tracks [OF T, of ap tid i "Inject p"] call_actor_framed [of ap N tid i "Inject p"]
    show ?thesis by (simp add: framed_def)
  next
    case (inject tid i p b r)
    then show ?thesis by (rule inject_event_consumers [OF assms(1,5,4)])
  next
    case (managers r)
    then show ?thesis by (rule run_process_managers_consumers [OF assms(1,5,4)])
  next
    case (projection P tid r)
    then show ?thesis by (rule store_projection_consumers [OF assms(1,5,4)])
  next
    case (elapses tid i K st)
    with same show ?thesis by (simp add: actor_elapses_def Let_def)
  next
    case (clock now)
    with same show ?thesis by simp
  next
    case (others w)
    with same assms(2) show ?thesis by simp
  qed
qed

text \<open>The log only grows, whatever the consumers' state.\<close>

lemma run_process_managers_log:
  fixes ap ap' :: "('w, 'a, 'p, 'q) app"
  assumes "log_setting N glog" and "run_process_managers N ap = (r, ap')"
  shows "prefix (glog (world ap)) (glog (world ap'))"
proof -
  obtain q pms w where c: "collect_work N (process_managers ap) (world ap) = (q, pms, w)"
    by (metis prod_cases3)
  let ?ap0 = "ap\<lparr>process_managers := pms, world := w\<rparr>"
  note g = collect_work_grows [OF assms(1) c]
  show ?thesis
  proof (cases q)
    case (Inl e)
    with assms(2) c have "world ap' = w" by (auto simp: run_process_managers_def)
    with g show ?thesis by simp
  next
    case (Inr work)
    obtain q2 ap1 where d: "dispatch_all N (flatten_work work) (report_default, ?ap0) = (q2, ap1)" by fastforce
    have "world ap' = world ap1"
      using assms(2) c d Inr by (cases q2) (auto simp: run_process_managers_def split: sum.splits prod.splits)
    moreover have "prefix (glog w) (glog (world ap1))"
      using dispatch_all_tracks [OF log_setting_tracks [OF assms(1)], of ?ap0 "flatten_work work" report_default] d
      by simp
    ultimately show ?thesis using g by auto
  qed
qed

lemma store_step_log:
  fixes ap ap' :: "('w, 'a, 'p, 'q) app"
  assumes "log_setting N glog" and "\<And>w w'. G w w' \<Longrightarrow> prefix (glog w) (glog w')"
    and "store_step N G X ap ap'"
  shows "prefix (glog (world ap)) (glog (world ap'))"
  using assms(3)
proof (cases rule: store_step.cases)
  case (inject tid i p b r)
  let ?sid = "stream_uuid (cfg_ext N) (AGGREGATE_TYPE (types N tid)) i"
  obtain q w where a: "es_append (cfg_ext N) (cfg_rpc N) (client N) ?sid Any [p] (world ap) = (q, w)"
    by fastforce
  then have g: "prefix (glog (world ap)) (glog w)"
    using tracksD(3) [OF log_setting_tracks [OF assms(1)], of ?sid Any "[p]" "world ap" q w]
    by (simp add: cfg_ops_def es_client_ops_def)
  have "prefix (glog w) (glog (world ap'))"
    using inject a run_process_managers_log [OF assms(1), of "ap\<lparr>world := w\<rparr>"]
    by (auto simp: inject_event_def Let_def split: sum.splits if_splits prod.splits)
  with g show ?thesis by (rule prefix_order.trans)
next
  case (projection P tid r)
  then show ?thesis
  proof (cases rule: store_projection_cases)
    case (caught rp q rn w F)
    from projection_catch_up_frame [OF caught(2)] log_setting_subscribe(1) [OF assms(1)] caught(3)
    show ?thesis by auto
  qed simp
next
  case (others w)
  with assms(2) show ?thesis by simp
next
  case (get tid i r)
  with store_get_tracks [OF log_setting_tracks [OF assms(1)], of ap tid i] show ?thesis by simp
next
  case (execute tid i cmd ctx r)
  with store_execute_tracks [OF log_setting_tracks [OF assms(1)], of ap tid i cmd ctx] show ?thesis by simp
next
  case (state tid i r)
  with store_state_tracks [OF log_setting_tracks [OF assms(1)], of ap tid i] show ?thesis by simp
next
  case (inject_via tid i p r)
  with call_actor_tracks [OF log_setting_tracks [OF assms(1)], of ap tid i "Inject p"] show ?thesis by simp
next
  case (managers r)
  then show ?thesis by (rule run_process_managers_log [OF assms(1)])
next
  case (elapses tid i K st)
  then show ?thesis by (simp add: actor_elapses_def Let_def)
qed simp

lemma store_runs_log:
  fixes ap ap' :: "('w, 'a, 'p, 'q) app"
  assumes "log_setting N glog" and "\<And>w w'. G w w' \<Longrightarrow> prefix (glog w) (glog w')"
    and "(store_step N G X)\<^sup>*\<^sup>* ap ap'"
  shows "prefix (glog (world ap)) (glog (world ap'))"
  using assms(3)
proof (induction rule: rtranclp_induct)
  case (step y z)
  with store_step_log [OF assms(1,2)] show ?case by (blast intro: prefix_order.trans)
qed simp

lemma store_runs_keep:
  assumes "cfg_setting N strm" and "\<And>w w'. G w w' \<Longrightarrow> grows strm w w'" and "exits_apart N J X"
    and "(store_step N G X)\<^sup>*\<^sup>* ap ap'" and "app_inv N J strm ap" and "timeouts ap = []"
  shows "keeps N J strm ap ap'"
  using assms(4)
proof (induction rule: rtranclp_induct)
  case base
  show ?case by (rule keeps_refl [OF assms(5,6)])
next
  case (step y z)
  with store_step_keeps [OF assms(1,2,3) step(2)] keepsD [OF step(3)] show ?case
    by (blast intro: keeps_trans)
qed

lemma store_runs_consumers:
  fixes ap ap' :: "('w, 'a, 'p, 'q) app"
  assumes "log_setting N glog" and "\<And>w w'. G w w' \<Longrightarrow> prefix (glog w) (glog w')"
    and "(store_step N G X)\<^sup>*\<^sup>* ap ap'" and "consumers_inv N glog ap" and "log_ok (glog (world ap'))"
  shows "consumers_inv N glog ap'"
  using assms(3,5)
proof (induction rule: rtranclp_induct)
  case base
  show ?case by (rule assms(4))
next
  case (step y z)
  have "log_ok (glog (world y))"
    using step.prems store_step_log [OF assms(1,2) step.hyps(2)] by (rule log_ok_prefix)
  with step.IH store_step_consumers [OF assms(1,2) step.hyps(2)] step.prems show ?case by blast
qed

lemma dispatch_all_io:
  "dispatch_all N work (report, ap) = (r, ap') \<Longrightarrow> io_fails (app_fs ap') = io_fails (app_fs ap)"
proof (induction work arbitrary: report ap)
  case Nil
  then show ?case by simp
next
  case (Cons x work)
  obtain envelope p where x: "x = (envelope, p)" by fastforce
  obtain q ap1 where d: "dispatch_or_error N envelope ap = (q, ap1)" by fastforce
  have io1: "io_fails (app_fs ap1) = io_fails (app_fs ap)"
    using dispatch_or_error_framed [of ap N envelope] d by (simp add: framed_def same_files_def)
  obtain q2 ap2 where one: "dispatch_one N p envelope (report, ap) = (q2, ap2)" by fastforce
  have "io_fails (app_fs ap2) = io_fails (app_fs ap1)"
  proof (cases q)
    case (Inl err)
    obtain q3 F where l: "append_dead_letter (cfg_ext N) (clock ap1) p envelope err (app_fs ap1) = (q3, F)"
      by fastforce
    from append_dead_letter_frame [OF l] one d l Inl show ?thesis
      by (auto simp: dispatch_one_def dead_letter_def split: sum.splits)
  qed (use one d in \<open>simp add: dispatch_one_def\<close>)
  with io1 x one Cons show ?case by (cases q2) auto
qed

text \<open>A round on a server that delivers everything.\<close>

lemma collect_work_all:
  assumes "log_ok log"
    and "\<forall>pm \<in> set pms. pm_ok (cfg_ext N) log (rpm_manager pm) (rpm_runner pm)"
    and "\<And>pos. \<exists>items. es_subscribe_all_from (cfg_ext N) (cfg_rpc N) (client N) pos w = (Inr items, w) \<and>
      delivers log pos items \<and> failure items = None"
  shows "\<exists>work pms'. collect_work N pms w = (Inr work, pms', w) \<and>
    list_all2 (\<lambda>pm (envelopes, p). p = dead_letter_path (rpm_runner pm) \<and>
      (\<exists>es fs. log = es @ fs \<and> pm_at (cfg_ext N) (rpm_manager pm) es (pm_checkpoint (rpm_runner pm)) \<and>
         envelopes = commands_after (cfg_ext N) (rpm_manager pm) es fs)) pms work \<and>
    (\<forall>pm \<in> set pms'. pm_at (cfg_ext N) (rpm_manager pm) log (pm_checkpoint (rpm_runner pm)))"
  using assms(2)
proof (induction pms)
  case Nil
  then show ?case by simp
next
  case (Cons pm pms)
  let ?E = "cfg_ext N" and ?P = "rpm_manager pm" and ?rn = "rpm_runner pm"
  obtain es fs where log: "log = es @ fs" and at: "pm_at ?E ?P es (pm_checkpoint ?rn)"
    using Cons.prems by (auto simp: pm_ok_def prefix_def)
  obtain items where sub: "es_subscribe_all_from ?E (cfg_rpc N) (client N) (pm_position ?rn) w = (Inr items, w)"
    "delivers log (pm_position ?rn) items" "failure items = None"
    using assms(3) by blast
  obtain r rn w' where c: "pm_catch_up ?E ?P (cfg_rpc N) (client N) ?rn w = (r, rn, w')"
    by (metis prod_cases3)
  have all: "r = Inr (commands_after ?E ?P es fs) \<and> pm_at ?E ?P (es @ fs) (pm_checkpoint rn)"
    using pm_catch_up_all [OF _ at sub(1) _ sub(3) c] assms(1) sub(2) log by simp
  have eq: "w' = w" "dead_letter_path rn = dead_letter_path ?rn"
    using c sub(1) by (auto simp: pm_catch_up_def pm_position_def dead_letter_path_def split: prod.splits)
  obtain work pms' where IH: "collect_work N pms w = (Inr work, pms', w)"
    "list_all2 (\<lambda>pm (envelopes, p). p = dead_letter_path (rpm_runner pm) \<and>
      (\<exists>es fs. log = es @ fs \<and> pm_at ?E (rpm_manager pm) es (pm_checkpoint (rpm_runner pm)) \<and>
         envelopes = commands_after ?E (rpm_manager pm) es fs)) pms work"
    "\<forall>pm \<in> set pms'. pm_at ?E (rpm_manager pm) log (pm_checkpoint (rpm_runner pm))"
    using Cons by auto
  with c all eq log at show ?case by auto
qed

text \<open>A round keeps the managers and their directories.\<close>

lemma run_process_managers_managers:
  assumes "run_process_managers N ap = (r, ap')"
  shows "map (\<lambda>pm. (rpm_manager pm, pm_checkpoint_dir (rpm_runner pm))) (process_managers ap') =
    map (\<lambda>pm. (rpm_manager pm, pm_checkpoint_dir (rpm_runner pm))) (process_managers ap)"
proof -
  obtain q pms w where c: "collect_work N (process_managers ap) (world ap) = (q, pms, w)"
    by (metis prod_cases3)
  have "process_managers ap' = pms"
  proof (cases q)
    case (Inl e)
    with assms c show ?thesis by (auto simp: run_process_managers_def)
  next
    case (Inr work)
    let ?ap0 = "ap\<lparr>process_managers := pms, world := w\<rparr>"
    obtain q2 ap1 where d: "dispatch_all N (flatten_work work) (report_default, ?ap0) = (q2, ap1)" by fastforce
    have "process_managers ap' = process_managers ap1"
      using assms c d Inr by (cases q2) (auto simp: run_process_managers_def split: sum.splits prod.splits)
    with dispatch_all_framed [of N "flatten_work work" report_default ?ap0] d show ?thesis by simp
  qed
  with collect_work_dirs [OF c] show ?thesis by simp
qed

end
