(* ===== verification/Store_Samples.thy ===== *)
theory Store_Samples
  imports Store_Runs Actor_Properties
begin

text \<open>
  A sample store for the closed instances: the counter of the test fixtures behind the name
  \<open>counter\<close>, the saga and the projection of the fixtures, on the in-memory server.
\<close>

subsection \<open>The in-memory server\<close>

lemma mem_global_append:
  "mem_log w' = mem_log w @ extra \<Longrightarrow> prefix (mem_global w) (mem_global w')"
  by (simp add: mem_global_def enumerate_append_eq prefix_def)

lemma mem_interfere_log: "\<exists>extra. mem_log (mem_interfere w) = mem_log w @ extra"
  by (auto simp: mem_interfere_def split: list.split)

lemma mem_append_log: "mem_append w md rq = (r, w') \<Longrightarrow> \<exists>extra. mem_log w' = mem_log w @ extra"
  using mem_interfere_log [of w] by (auto simp: mem_append_def Let_def split: if_splits)

lemma mem_read_log: "mem_read w md rq = (r, w') \<Longrightarrow> \<exists>extra. mem_log w' = mem_log w @ extra"
  using mem_interfere_log [of w] by (auto simp: mem_read_def Let_def split: if_splits)

lemma mem_tracks:
  "tracks (\<lambda>w w'. prefix (mem_global w) (mem_global w')) (es_client_ops env mem_rpc Plain) mem_rng"
proof -
  let ?S = "es_client_ops env mem_rpc Plain"
  have "prefix (mem_global w) (mem_global (snd (append_op ?S sid x ps w)))" for sid x ps w
  proof -
    obtain md rq where "append_op ?S sid x ps w = mem_append w md rq"
      by (simp add: es_client_ops_def es_append_def Let_def call_rpc_def mem_rpc_def)
    moreover obtain r w' where "mem_append w md rq = (r, w')" by fastforce
    ultimately show ?thesis using mem_append_log mem_global_append by fastforce
  qed
  moreover have "prefix (mem_global w) (mem_global (snd (read_stream_op ?S sid v n w)))" for sid v n w
  proof -
    let ?rq = "\<lparr>rr_stream_id = uuid_to_string env sid, rr_from_version = v, rr_max_count = n\<rparr>"
    obtain r w' where m: "mem_read w [] ?rq = (r, w')" by fastforce
    then have "snd (read_stream_op ?S sid v n w) = w'"
      by (simp add: es_client_ops_def es_read_stream_def Let_def call_rpc_def mem_rpc_def split: sum.split)
    with mem_read_log [OF m] show ?thesis using mem_global_append by fastforce
  qed
  moreover have "prefix (mem_global w) (mem_global (snd (mem_rng w)))" for w
    by (simp add: mem_rng_def mem_global_def)
  moreover have "prefix (mem_global a) (mem_global c)"
    if "prefix (mem_global a) (mem_global b)" "prefix (mem_global b) (mem_global c)" for a b c
    using that by (rule prefix_order.trans)
  moreover have "prefix (mem_global w) (mem_global w)" for w by simp
  ultimately show ?thesis unfolding tracks_def by blast
qed

lemma mem_subscribe_part:
  assumes "es_subscribe_all_from E mem_rpc Plain pos w = (r, w')"
  shows "w' = w" "r = Inr items \<Longrightarrow> delivers_part (mem_global w) pos items"
proof -
  let ?es = "drop (unat pos) (mem_global w)"
  let ?items = "map (\<lambda>r. Inr \<lparr>content = Some (Event r)\<rparr>) ?es @ [Inr \<lparr>content = Some CaughtUp\<rparr>]"
  have eq: "es_subscribe_all_from E mem_rpc Plain pos w = (Inr ?items, w)"
    by (simp add: es_subscribe_all_from_def call_rpc_def mem_rpc_def mem_subscribe_all_def mem_global_def
        drop_map split_beta comp_def)
  with assms show "w' = w" by simp
  assume "r = Inr items"
  with assms eq have items: "items = ?items" by (metis Pair_inject sum.inject(2))
  have "re_global_position x < pos" if x: "x \<in> set (take (unat pos) (mem_global w))" for x
  proof -
    obtain i where i: "i < unat pos" "i < length (mem_log w)" "x = mem_global w ! i"
      using x by (auto simp: in_set_conv_nth mem_global_def)
    have "unat (of_nat i :: u64) = i" using i(1) unsigned_less [of pos, where ?'a = nat] by (simp add: unat_of_nat_u64)
    with i show ?thesis by (simp add: mem_global_nth word_less_nat_alt)
  qed
  then show "delivers_part (mem_global w) pos items"
    unfolding delivers_part_def items delivered_map_events
    by (intro exI [of _ "unat pos"] exI [of _ "length (mem_global w)"]) simp
qed

subsection \<open>The store\<close>

definition counter_dispatcher :: "(counter_command, counter_error) dispatcher" where
  "counter_dispatcher =
     \<lparr>target_type = 0,
      command_from_value = (\<lambda>v. case v of
        JString s \<Rightarrow> if s = ''Increment'' then Inr Increment
          else if s = ''Decrement'' then Inr Decrement else Inl ''unknown variant''
      | _ \<Rightarrow> Inl ''invalid type''),
      error_to_string = (\<lambda>_. ''already zero'')\<rparr>"

definition sample_config :: "(mem_server, counter, counter_command, counter_event, counter_error) config" where
  "sample_config =
     \<lparr>cfg_ext = env, cfg_rpc = mem_rpc, client = Plain, new_v4 = mem_rng,
      cfg_base_dir = base_dir sample_context, types = (\<lambda>_. Counter),
      dispatchers = [''counter'' \<mapsto> counter_dispatcher]\<rparr>"

definition sample_pm :: "echo_saga registered_pm" where
  "sample_pm = \<lparr>rpm_manager = EchoSaga,
     rpm_runner = \<lparr>pm_checkpoint = pm_checkpoint_default EchoSaga, pm_checkpoint_dir = path_of ''/p''\<rparr>\<rparr>"

definition sample_projection :: "string \<times> total_counter registered_projection" where
  "sample_projection = (''total-counter'', \<lparr>rp_type = 0, rp_projection = TotalCounter,
     rp_runner = \<lparr>checkpoint = checkpoint_default TotalCounter, checkpoint_dir = path_of ''/q''\<rparr>\<rparr>)"

definition sample_app :: "(mem_server, counter, total_counter, echo_saga) app" where
  "sample_app =
     \<lparr>world = sample_world, app_fs = empty_disk, cache = Map.empty,
      projections = [sample_projection], process_managers = [sample_pm], timeouts = [],
      clock = Some 0\<rparr>"

lemma sample_config_simps [simp]:
  "cfg_ext sample_config = env" "cfg_rpc sample_config = mem_rpc" "client sample_config = Plain"
  "new_v4 sample_config = mem_rng" "types sample_config tid = Counter"
  "dispatchers sample_config = [''counter'' \<mapsto> counter_dispatcher]"
  "cfg_ops sample_config = es_client_ops env mem_rpc Plain"
  by (simp_all add: sample_config_def cfg_ops_def)

lemma sample_app_simps [simp]:
  "world sample_app = sample_world" "app_fs sample_app = empty_disk" "cache sample_app = Map.empty"
  "projections sample_app = [sample_projection]" "process_managers sample_app = [sample_pm]"
  "timeouts sample_app = []" "clock sample_app = Some 0"
  by (simp_all add: sample_app_def)

lemma sample_cfg_setting: "cfg_setting sample_config mem_stream"
proof -
  have "mem_stream (snd (mem_rng w)) sid = mem_stream w sid" for w sid
    by (simp add: mem_stream_def mem_rng_def)
  moreover have "snd (rpc_subscribe_all mem_rpc w md pos) = w" for w md pos
    by (simp add: mem_rpc_def mem_subscribe_all_def)
  ultimately show ?thesis
    using env_ok counter_agg.adjacently_tagged_axioms mem_rpc_contract by (simp add: cfg_setting_def)
qed

lemma sample_log_setting: "log_setting sample_config mem_global"
  unfolding log_setting_def sample_config_simps
proof (intro conjI allI impI)
  fix pos w r w' assume s: "es_subscribe_all_from env mem_rpc Plain pos w = (r, w')"
  show "prefix (mem_global w) (mem_global w')" using mem_subscribe_part(1) [OF s] by simp
  show "delivers_part (mem_global w') pos items" if "r = Inr items" for items
    using mem_subscribe_part(1) [OF s] mem_subscribe_part(2) [OF s that] by simp
qed (rule mem_tracks)

lemma sample_app_inv: "app_inv sample_config UNIV mem_stream sample_app"
  by (simp add: app_inv_def disk_inv_empty)

lemma sample_consumers: "consumers_inv sample_config mem_global sample_app"
  by (auto simp: consumers_inv_def sample_projection_def sample_pm_def projection_ok_def pm_ok_def
      projection_at_default pm_at_default intro: exI [of _ "[]"])

lemma sample_log_ok: "log_ok (mem_global sample_world)"
  using mem_global_ok [OF sample_world_small] .

lemma quiet_read:
  assumes "mem_others w = []"
    and "read_stream_op (es_client_ops env mem_rpc Plain) sid v n w = (q, w')"
  shows "w' = w"
proof -
  have "mem_interfere w = w" using assms(1) by (simp add: mem_interfere_def)
  then have "snd (mem_read w md rq) = w" for md rq by (simp add: mem_read_def Let_def)
  moreover obtain md rq where "w' = snd (mem_read w md rq)"
    using assms(2)
    by (auto simp: es_client_ops_def es_read_stream_def Let_def call_rpc_def mem_rpc_def
        split: prod.splits sum.splits if_splits) (metis snd_conv)+
  ultimately show ?thesis by simp
qed

lemma sample_get:
  assumes "mem_others (world ap) = []" and "\<And>op p. io_fails (app_fs ap) op p = None"
    and "store_get sample_config tid i ap = (r, ap')"
  shows "r = Inr () \<and> world ap' = world ap"
proof (cases "\<exists>K st. cache ap (tid, i) = Some (Alive K st)")
  case True
  with assms(3) show ?thesis by (auto simp: store_get_def)
next
  case False
  obtain K st w where sp: "spawn_state env Counter sample_ops (cfg_base_dir sample_config) i (world ap) (app_fs ap)
      = (Inr (K, st), w)"
    using sample_spawn assms(2) by fastforce
  have "w = world ap"
    using sp quiet_read [OF assms(1)]
    by (auto simp: spawn_state_def sample_ops_def Let_def split: sum.splits prod.splits option.splits)
  with sp assms(3) False show ?thesis
    by (auto simp: store_get_def sample_ops_def Let_def split: option.splits slot.splits)
qed

text \<open>A store on an empty server.\<close>

definition fresh_app :: "(mem_server, counter, total_counter, echo_saga) app" where
  "fresh_app = sample_app\<lparr>world := mem_new []\<rparr>"

definition increment :: command_envelope where
  "increment =
     \<lparr>env_aggregate_type = ''counter'', env_instance_id = ''c1'', env_command = JString ''Increment'',
      env_context = command_context_default\<rparr>"

lemma fresh_app_inv: "app_inv sample_config UNIV mem_stream fresh_app"
  by (simp add: app_inv_def fresh_app_def disk_inv_empty)

lemma sample_stream_of:
  "stream_of sample_config mem_stream w 0 ''c1'' = sample_stream w"
  by (simp add: stream_of_def sample_stream_def sample_context_def)

lemma sample_actor_context: "actor_context_of sample_config 0 ''c1'' = sample_context"
  by (simp add: actor_context_of_def sample_context_def sample_config_def)

text \<open>A store on a server where \<open>c1\<close> has an event.\<close>

definition seen_app :: "(mem_server, counter, total_counter, echo_saga) app" where
  "seen_app = sample_app\<lparr>world := (mem_new [])
     \<lparr>mem_log := [(uuid_to_string env (stream_id sample_context), sample_event)]\<rparr>\<rparr>"

definition sample_instances :: "(nat \<times> string) set" where
  "sample_instances = {0} \<times> Collect simple_name"

lemma sample_exits_apart: "exits_apart sample_config sample_instances sample_instances"
  unfolding sample_instances_def by (rule exits_apart_simple) (simp_all add: simple_name_def Counter_def)

lemma seen_app_inv: "app_inv sample_config J mem_stream seen_app"
  by (simp add: app_inv_def seen_app_def disk_inv_empty)

lemma seen_consumers: "consumers_inv sample_config mem_global seen_app"
  using sample_consumers by (auto simp: consumers_inv_def projection_ok_def pm_ok_def seen_app_def
      sample_projection_def sample_pm_def projection_at_default pm_at_default intro: exI [of _ "[]"])

lemma seen_log_ok: "log_ok (mem_global (world seen_app))"
  by (rule mem_global_ok) (simp add: seen_app_def)

lemma seen_get:
  assumes "store_get sample_config 0 ''c1'' seen_app = (r, ap)"
  shows "\<exists>K st. cache ap (0, ''c1'') = Some (Alive K st) \<and> stream_version st \<noteq> None"
    and "world ap = world seen_app"
proof -
  show w: "world ap = world seen_app"
    using sample_get [OF _ _ assms] by (simp add: seen_app_def mem_new_def)
  have "r = Inr ()" using sample_get [OF _ _ assms] by (simp add: seen_app_def mem_new_def)
  then obtain K st where "cache ap (0, ''c1'') = Some (Alive K st)"
    "synced env Counter (sample_stream (world ap)) st"
    using store_get_inv [OF sample_cfg_setting seen_app_inv [of UNIV] assms] sample_stream_of
    by (auto simp: seen_app_def)
  moreover have "sample_stream (world seen_app) \<noteq> []"
    by (simp add: seen_app_def sample_stream_def mem_stream_def capacity_def number_def)
  ultimately show "\<exists>K st. cache ap (0, ''c1'') = Some (Alive K st) \<and> stream_version st \<noteq> None"
    using w by (auto simp: synced_def)
qed

lemma dispatch_increment: "\<exists>ap'. dispatch sample_config counter_dispatcher increment fresh_app = (Inr (), ap')"
proof -
  obtain r ap1 where g: "store_get sample_config 0 ''c1'' fresh_app = (r, ap1)" by fastforce
  have w: "r = Inr ()" "world ap1 = mem_new []"
    using sample_get [OF _ _ g] by (simp_all add: fresh_app_def mem_new_def)
  note got = store_get_inv [OF sample_cfg_setting fresh_app_inv g]
  then obtain K st where c: "cache ap1 (0, ''c1'') = Some (Alive K st)" using w by blast
  have to: "timeouts ap1 = []" and fs: "app_fs ap1 = empty_disk"
    using got by (simp_all add: fresh_app_def)
  have "sample_stream (mem_new []) = []"
    by (simp add: sample_stream_def mem_stream_def mem_new_def number_def)
  moreover have "K = actor_context_of sample_config 0 ''c1'' \<and>
      (\<exists>es. prefix es (stream_of sample_config mem_stream (world ap1) 0 ''c1'') \<and>
        synced (cfg_ext sample_config) (types sample_config 0) es st)"
    using got c unfolding app_inv_def by blast
  ultimately have "K = sample_context" "synced env Counter [] st"
    using w by (simp_all add: sample_actor_context sample_stream_of)
  then have "st\<lparr>store := mem_new [], disk := empty_disk\<rparr> = sample_actor []" and K: "K = sample_context"
    by (simp_all add: synced_def sample_actor_def)
  moreover obtain st' where "execute_with_retry env Counter sample_ops mem_rng sample_context Increment
     command_context_default (sample_actor []) = (Inr [Incremented], st')"
    using sample_execute by blast
  ultimately have "\<exists>ap2. store_execute sample_config 0 ''c1'' Increment command_context_default ap1 = (Inr [Incremented], ap2)"
    using c to fs w
    by (simp add: store_execute_def call_actor_def handle_execute_def sample_ops_def)
  with g w show ?thesis
    by (auto simp: dispatch_def counter_dispatcher_def increment_def)
qed

subsection \<open>A round of the sample store\<close>

text \<open>Envelopes nobody handles are dead-lettered, on a disk that fails no operation.\<close>

lemma append_dead_letter_succeeds:
  assumes "\<And>op q. io_fails F op q = None" and "json_to_vec E (dead_letter_to_value
      \<lparr>dl_envelope = envelope, dl_error = err, dl_ts = ts\<rparr>) = Inr json" and "path_parent p = Some d"
  shows "\<exists>F'. append_dead_letter E (Some ts) p envelope err F = (Inr (), F')"
proof -
  obtain F1 where c: "create_dir_all d F = (Inr (), F1)" "io_fails F1 = io_fails F"
    using assms(1) by (auto simp: create_dir_all_def)
  with dir_created [of d F] have "parent_exists F1 p" using assms(3) by (simp add: parent_exists_def)
  with c assms show ?thesis by (simp add: append_dead_letter_def fs_append_line_def)
qed

lemma dispatch_all_unhandled:
  assumes "cfg_ext N = env" and "\<And>op q. io_fails (app_fs ap) op q = None" and "clock ap = Some ts"
    and "\<forall>(envelope, p) \<in> set work. dispatchers N (env_aggregate_type envelope) = None \<and> path_parent p \<noteq> None"
  shows "\<exists>report' F. dispatch_all N work (report, ap) = (Inr report', ap\<lparr>app_fs := F\<rparr>) \<and> io_fails F = io_fails (app_fs ap)"
  using assms(2-4)
proof (induction work arbitrary: report ap)
  case Nil
  show ?case by (intro exI [of _ report] exI [of _ "app_fs ap"]) simp
next
  case (Cons x work)
  obtain envelope p where x: "x = (envelope, p)" by fastforce
  have n: "dispatchers N (env_aggregate_type envelope) = None" "path_parent p \<noteq> None"
    using Cons.prems(3) x by simp_all
  let ?err = "''unknown aggregate type: '' @ env_aggregate_type envelope"
  obtain d where d: "path_parent p = Some d" using n(2) by blast
  have "json_to_vec env v = Inr (enc v)" for v by (simp add: env_def)
  then obtain F where F: "append_dead_letter env (Some ts) p envelope ?err (app_fs ap) = (Inr (), F)"
    using append_dead_letter_succeeds [OF Cons.prems(1) _ d] by blast
  have io: "io_fails F = io_fails (app_fs ap)" using append_dead_letter_frame [OF F] by simp
  let ?r = "report\<lparr>dead_lettered := dead_lettered report + 1\<rparr>"
  have one: "dispatch_one N p envelope (report, ap) = (Inr ?r, ap\<lparr>app_fs := F\<rparr>)"
    using n F assms(1) Cons.prems(2)
    by (simp add: dispatch_one_def dispatch_or_error_def dead_letter_def)
  have "\<exists>report' G. dispatch_all N work (?r, ap\<lparr>app_fs := F\<rparr>) = (Inr report', (ap\<lparr>app_fs := F\<rparr>)\<lparr>app_fs := G\<rparr>) \<and>
      io_fails G = io_fails (app_fs (ap\<lparr>app_fs := F\<rparr>))"
    by (rule Cons.IH) (use Cons.prems io in auto)
  with x one io show ?case by auto
qed

lemma echo_targets: "\<forall>e \<in> set (snd (reactions E EchoSaga es x)). env_aggregate_type e = ''target''"
proof (induction es arbitrary: x)
  case (Cons r es)
  have "\<forall>e \<in> set (snd (react EchoSaga y s)). env_aggregate_type e = ''target''" for y s
    by (simp add: EchoSaga_def echo_react_def Let_def)
  with Cons show ?case by (auto simp: Let_def split_beta split: option.split)
qed simp

lemma echo_good: "pm_good env EchoSaga ck"
  using env_ok
  by (auto simp: pm_good_def EchoSaga_def byte_in_def field_from_value_def json_object_def
      intro!: json_wf_object)

lemma sample_collect:
  "\<exists>rn. collect_work sample_config [sample_pm] sample_world =
     (Inr [(commands_after env EchoSaga [] (mem_global sample_world), path_join (path_of ''/p'') ''dead_letters.jsonl'')],
      [sample_pm\<lparr>rpm_runner := rn\<rparr>], sample_world) \<and>
     pm_at env EchoSaga (mem_global sample_world) (pm_checkpoint rn) \<and> pm_checkpoint_dir rn = path_of ''/p''"
proof -
  let ?rn = "rpm_runner sample_pm" and ?log = "mem_global sample_world"
  obtain items where sub: "es_subscribe_all_from env mem_rpc Plain (pm_position ?rn) sample_world = (Inr items, sample_world)"
    "delivers ([] @ ?log) (pm_position ?rn) items" "failure items = None"
    using mem_subscribe [OF sample_world_small] by force
  have ok: "log_ok ([] @ ?log)" using sample_log_ok by simp
  have at: "pm_at env EchoSaga [] (pm_checkpoint ?rn)" by (simp add: sample_pm_def pm_at_default)
  obtain r rn w where c: "pm_catch_up env EchoSaga mem_rpc Plain ?rn sample_world = (r, rn, w)"
    by (metis prod_cases3)
  note all = pm_catch_up_all [OF ok at sub c]
  have "w = sample_world" "pm_checkpoint_dir rn = path_of ''/p''"
    using c sub(1) by (auto simp: pm_catch_up_def pm_position_def sample_pm_def split: prod.splits sum.splits)
  with all c show ?thesis
    by (intro exI [of _ rn]) (simp add: sample_pm_def dead_letter_path_def)
qed

lemma sample_round: "\<exists>report ap'. run_process_managers sample_config sample_app = (Inr report, ap')"
proof -
  let ?p = "path_join (path_of ''/p'') ''dead_letters.jsonl''"
  let ?cmds = "commands_after env EchoSaga [] (mem_global sample_world)"
  obtain rn where c: "collect_work sample_config [sample_pm] sample_world =
     (Inr [(?cmds, ?p)], [sample_pm\<lparr>rpm_runner := rn\<rparr>], sample_world)"
    using sample_collect by blast
  let ?ap = "sample_app\<lparr>process_managers := [sample_pm\<lparr>rpm_runner := rn\<rparr>], world := sample_world\<rparr>"
  have t: "\<forall>e \<in> set ?cmds. env_aggregate_type e = ''target''"
    using echo_targets by (simp add: commands_after_def)
  have "path_parent ?p \<noteq> None" by (simp add: path_parent_def path_join_def path_of_def)
  with t have u: "\<forall>(envelope, p) \<in> set (flatten_work [(?cmds, ?p)]).
      dispatchers sample_config (env_aggregate_type envelope) = None \<and> path_parent p \<noteq> None"
    by auto
  have "\<exists>report' F. dispatch_all sample_config (flatten_work [(?cmds, ?p)]) (report_default, ?ap) =
      (Inr report', ?ap\<lparr>app_fs := F\<rparr>) \<and> io_fails F = io_fails (app_fs ?ap)"
    by (rule dispatch_all_unhandled [OF _ _ _ u]) simp_all
  then obtain report F where d: "dispatch_all sample_config (flatten_work [(?cmds, ?p)]) (report_default, ?ap) =
      (Inr report, ?ap\<lparr>app_fs := F\<rparr>)" "io_fails F = io_fails empty_disk" by auto
  have "fst (pm_save env EchoSaga rn F) = Inr ()"
    using pm_list.save_succeeds [of env "sample_pm\<lparr>rpm_runner := rn\<rparr>" F] d(2) echo_good
    by (simp add: sample_pm_def)
  then obtain F2 where "save_pms env [sample_pm\<lparr>rpm_runner := rn\<rparr>] F = (Inr (), F2)"
    by (cases "pm_save env EchoSaga rn F") (auto simp: sample_pm_def)
  with c d(1) show ?thesis by (simp add: run_process_managers_def)
qed

subsection \<open>A server that refuses late subscriptions\<close>

text \<open>As long as no identifier was drawn, it refuses every subscription but one from the start.\<close>

definition fussy_rpc :: "mem_server rpc" where
  "fussy_rpc = mem_rpc\<lparr>rpc_subscribe_all := (\<lambda>w md pos.
     if pos \<noteq> 0 \<and> mem_ids w = 0 then (Inl (status_new GUnavailable ''try again''), w)
     else mem_subscribe_all w md pos)\<rparr>"

definition fussy_config :: "(mem_server, counter, counter_command, counter_event, counter_error) config" where
  "fussy_config = sample_config\<lparr>cfg_rpc := fussy_rpc\<rparr>"

text \<open>A manager that has reacted to the first event.\<close>

definition late_pm :: "echo_saga registered_pm" where
  "late_pm = \<lparr>rpm_manager = EchoSaga,
     rpm_runner = \<lparr>pm_checkpoint =
         \<lparr>pmc_state = fst (reactions env EchoSaga (take 1 (mem_global sample_world)) (pm_default EchoSaga)),
          pmc_last_global_position = end_position (take 1 (mem_global sample_world))\<rparr>,
       pm_checkpoint_dir = path_of ''/r''\<rparr>\<rparr>"

definition fussy_app :: "(mem_server, counter, total_counter, echo_saga) app" where
  "fussy_app = sample_app\<lparr>process_managers := [sample_pm, late_pm]\<rparr>"

lemma fussy_subscribe:
  "pos = 0 \<or> mem_ids w \<noteq> 0 \<Longrightarrow>
    es_subscribe_all_from E fussy_rpc Plain pos w = es_subscribe_all_from E mem_rpc Plain pos w"
  by (auto simp: es_subscribe_all_from_def call_rpc_def fussy_rpc_def mem_rpc_def)

lemma fussy_start:
  "\<exists>items. es_subscribe_all_from (cfg_ext fussy_config) (cfg_rpc fussy_config) (client fussy_config)
      (pm_position (rpm_runner sample_pm)) (world fussy_app) = (Inr items, sample_world) \<and>
    delivers (mem_global sample_world) (pm_position (rpm_runner sample_pm)) items \<and> failure items = None"
proof -
  have "pm_position (rpm_runner sample_pm) = 0"
    by (simp add: sample_pm_def pm_position_def pm_checkpoint_default_def)
  then show ?thesis
    using mem_subscribe [OF sample_world_small, of env 0]
    by (simp add: fussy_config_def fussy_app_def fussy_subscribe)
qed

lemma fussy_late: "\<exists>e. collect_work fussy_config [late_pm] sample_world = (Inl e, [late_pm], sample_world)"
proof -
  have "end_position (take 1 (mem_global sample_world)) = 1"
    by (simp add: end_position_def mem_global_def sample_world_def mem_record_def)
  then show ?thesis
    by (simp add: fussy_config_def late_pm_def pm_catch_up_def es_subscribe_all_from_def call_rpc_def
        fussy_rpc_def)
qed

lemma fussy_later:
  "\<exists>items. es_subscribe_all_from (cfg_ext fussy_config) (cfg_rpc fussy_config) (client fussy_config) pos
      (sample_world\<lparr>mem_ids := 1\<rparr>) = (Inr items, sample_world\<lparr>mem_ids := 1\<rparr>) \<and>
    delivers (mem_global sample_world) pos items \<and> failure items = None"
proof -
  let ?w = "sample_world\<lparr>mem_ids := 1\<rparr>"
  have "length (mem_log ?w) < 2 ^ 64 - 1" using sample_world_small by simp
  moreover have "mem_global ?w = mem_global sample_world" by (simp add: mem_global_def)
  ultimately show ?thesis
    using mem_subscribe [of ?w env pos] by (simp add: fussy_config_def fussy_subscribe)
qed

lemma fussy_managers:
  assumes "run_process_managers fussy_config fussy_app = (r, ap')"
  shows "\<forall>pm \<in> set (process_managers ap').
    pm_ok (cfg_ext fussy_config) (mem_global sample_world) (rpm_manager pm) (rpm_runner pm)"
proof -
  let ?log = "mem_global sample_world" and ?rn = "rpm_runner sample_pm"
  have cfg: "cfg_ext fussy_config = env" "rpm_manager sample_pm = EchoSaga" "rpm_manager late_pm = EchoSaga"
    "process_managers fussy_app = [sample_pm, late_pm]" "world fussy_app = sample_world"
    by (simp_all add: fussy_config_def sample_pm_def late_pm_def fussy_app_def)
  obtain items where sub: "es_subscribe_all_from env (cfg_rpc fussy_config) (client fussy_config)
      (pm_position ?rn) sample_world = (Inr items, sample_world)"
    "delivers ([] @ ?log) (pm_position ?rn) items" "failure items = None"
    using fussy_start cfg by auto
  obtain q rn w where c: "pm_catch_up env EchoSaga (cfg_rpc fussy_config) (client fussy_config) ?rn sample_world = (q, rn, w)"
    by (metis prod_cases3)
  have ok: "log_ok ([] @ ?log)" using sample_log_ok by simp
  have at: "pm_at env EchoSaga [] (pm_checkpoint ?rn)" by (simp add: sample_pm_def pm_at_default)
  note all = pm_catch_up_all [OF ok at sub c]
  have w: "w = sample_world"
    using c sub(1) by (auto simp: pm_catch_up_def pm_position_def split: prod.splits)
  obtain e where "collect_work fussy_config [late_pm] sample_world = (Inl e, [late_pm], sample_world)"
    using fussy_late by blast
  then have "process_managers ap' = [sample_pm\<lparr>rpm_runner := rn\<rparr>, late_pm]"
    using assms c all w cfg by (auto simp: run_process_managers_def)
  moreover have "pm_ok env ?log EchoSaga rn" using all unfolding pm_ok_def by auto
  moreover have "pm_ok env ?log EchoSaga (rpm_runner late_pm)"
    unfolding pm_ok_def
    by (rule exI [of _ "take 1 ?log"]) (simp add: late_pm_def pm_at_def take_is_prefix)
  ultimately show ?thesis using cfg by simp
qed

end
