(* ===== verification/Store_Properties.thy ===== *)
theory Store_Properties
  imports Store_Samples
begin

text \<open>
  The properties of the store: its invariant over all runs, the serialisation of dispatched
  commands, and what a round of the process managers promises of every reaction.
\<close>

subsection \<open>The invariant of a store\<close>

text \<open>
  C3. Whatever sequence of operations clients run on a store, whatever other processes append in
  between and whichever actors in \<open>X\<close> that have seen an event exit idle, when their snapshots are
  in files of their own: every running actor in \<open>J\<close> is the fold of a prefix of its own stream with
  the matching version, every snapshot on disk too, every projection and process manager is the
  fold of a prefix of the global log, and streams are only appended to.
\<close>

theorem store_runs_invariant:
  fixes ap ap' :: "('w, 'a, 'p, 'q) app"
  assumes "cfg_setting N strm" and "log_setting N glog" and "exits_apart N J X"
    and "\<And>w w'. G w w' \<Longrightarrow> grows strm w w'" and "\<And>w w'. G w w' \<Longrightarrow> prefix (glog w) (glog w')"
    and "app_inv N J strm ap" and "consumers_inv N glog ap" and "timeouts ap = []"
    and "(store_step N G X)\<^sup>*\<^sup>* ap ap'" and "log_ok (glog (world ap'))"
  shows "app_inv N J strm ap' \<and> consumers_inv N glog ap' \<and> grows strm (world ap) (world ap')"
proof -
  have "keeps N J strm ap ap'"
    by (rule store_runs_keep [where G = G, OF assms(1) _ assms(3,9,6,8)]) (rule assms(4))
  moreover have "consumers_inv N glog ap'"
    by (rule store_runs_consumers [where G = G, OF assms(2) _ assms(9,7,10)]) (rule assms(5))
  ultimately show ?thesis by (simp add: keeps_def)
qed

text \<open>An actor is spawned, exits idle with a snapshot, and the next one is spawned from it.\<close>

theorem store_runs_invariant_witness:
  "\<exists>ap1 ap2 ap3. snd (store_get sample_config 0 ''c1'' seen_app) = ap1 \<and>
     actor_elapses sample_config 0 ''c1'' ap1 = ap2 \<and> cache ap2 (0, ''c1'') = Some Stale \<and>
     snd (store_get sample_config 0 ''c1'' ap2) = ap3 \<and>
     app_inv sample_config sample_instances mem_stream ap3 \<and> consumers_inv sample_config mem_global ap3"
proof -
  let ?step = "store_step sample_config (\<lambda>w w'. w' = w) sample_instances"
  obtain r ap1 where g: "store_get sample_config 0 ''c1'' seen_app = (r, ap1)" by fastforce
  obtain K st where c: "cache ap1 (0, ''c1'') = Some (Alive K st)" "stream_version st \<noteq> None"
    using seen_get(1) [OF g] by blast
  let ?ap2 = "actor_elapses sample_config 0 ''c1'' ap1"
  obtain r' ap3 where g': "store_get sample_config 0 ''c1'' ?ap2 = (r', ap3)" by fastforce
  note fr = actor_elapses_framed [of ap1 sample_config 0 "''c1''"]
  have w: "world ?ap2 = world seen_app" and stale: "cache ?ap2 (0, ''c1'') = Some Stale"
    using seen_get(2) [OF g] fr c by (simp_all add: actor_elapses_def Let_def)
  have "?step seen_app ap1" by (rule store_step.get [OF g])
  moreover have "?step ap1 ?ap2"
    by (rule store_step.elapses [OF _ c]) (simp add: sample_instances_def simple_name_def)
  moreover have "?step ?ap2 ap3" by (rule store_step.get [OF g'])
  ultimately have run: "?step\<^sup>*\<^sup>* seen_app ap3"
    by (meson converse_rtranclp_into_rtranclp rtranclp.rtrancl_refl)
  have "io_fails (app_fs ?ap2) op p = None" for op p
    using fr store_get_framed [of seen_app sample_config 0 "''c1''"] g
    by (simp add: framed_def same_files_def seen_app_def)
  then have w': "world ap3 = world seen_app"
    using sample_get [OF _ _ g'] w by (simp add: seen_app_def mem_new_def)
  have "app_inv sample_config sample_instances mem_stream ap3 \<and> consumers_inv sample_config mem_global ap3"
    using store_runs_invariant [OF sample_cfg_setting sample_log_setting sample_exits_apart _ _
        seen_app_inv seen_consumers _ run] w' seen_log_ok by (simp add: seen_app_def)
  with g g' stale show ?thesis by auto
qed

subsection \<open>Handles\<close>

text \<open>
  C32. A handle the store returns is to a running actor. One that is cached and alive is returned
  without any call; otherwise an actor is spawned, whose state, for an instance of \<open>J\<close>, is the fold
  of the whole stream and whose version is that of its last event.
\<close>

theorem get_gives_current_actor:
  assumes "cfg_setting N strm" and "app_inv N J strm ap" and "(tid, i) \<in> J"
    and "store_get N tid i ap = (Inr u, ap')"
  shows "(\<exists>K st. cache ap (tid, i) = Some (Alive K st)) \<and> ap' = ap \<or>
    (\<exists>K st. cache ap' (tid, i) = Some (Alive K st) \<and> K = actor_context_of N tid i \<and>
       synced (cfg_ext N) (types N tid) (stream_of N strm (world ap') tid i) st)"
proof (cases "\<exists>K st. cache ap (tid, i) = Some (Alive K st)")
  case True
  with assms(4) show ?thesis by (auto simp: store_get_def)
next
  case False
  note got = store_get_inv [OF assms(1,2,4)]
  then obtain K st where c: "cache ap' (tid, i) = Some (Alive K st)"
    "synced (cfg_ext N) (types N tid) (stream_of N strm (world ap') tid i) st"
    using False assms(3) by auto
  moreover have "K = actor_context_of N tid i" using got c(1) assms(3) unfolding app_inv_def by blast
  ultimately show ?thesis by blast
qed

theorem get_gives_current_actor_witness:
  "\<exists>ap'. store_get sample_config 0 ''c1'' sample_app = (Inr (), ap') \<and>
     (\<exists>K st. cache ap' (0, ''c1'') = Some (Alive K st) \<and>
        synced env Counter (sample_stream (world ap')) st)"
proof -
  obtain r ap' where g: "store_get sample_config 0 ''c1'' sample_app = (r, ap')" by fastforce
  have r: "r = Inr ()" using sample_get [OF _ _ g] by (simp add: sample_world_def)
  have "\<not> (\<exists>K st. cache sample_app (0, ''c1'') = Some (Alive K st))" by simp
  with get_gives_current_actor [OF sample_cfg_setting sample_app_inv UNIV_I g [unfolded r]] g r
  show ?thesis unfolding sample_stream_of sample_config_simps by blast
qed

subsection \<open>Dispatched commands\<close>

text \<open>
  C21. A dispatched envelope is a decided command: its payload reads as a command, and the
  handler of the target accepted it on the fold of everything the target's stream held before
  its own events, which stand as one block at the end of the stream; a command without events
  was accepted on the state the target then had, the fold of a prefix of its stream.
\<close>

theorem dispatch_is_decided:
  assumes "cfg_setting N strm" and "app_inv N J strm ap" and "timeouts ap = []"
    and "(target_type D, env_instance_id envelope) \<in> J"
    and "dispatch N D envelope ap = (Inr u, ap')"
  shows "\<exists>cmd des. command_from_value D (env_command envelope) = Inr cmd \<and>
    (decided (cfg_ext N) (types N (target_type D))
       (stream_of N strm (world ap) (target_type D) (env_instance_id envelope))
       (stream_of N strm (world ap') (target_type D) (env_instance_id envelope)) cmd des \<or>
     des = [] \<and> (\<exists>es. prefix es (stream_of N strm (world ap') (target_type D) (env_instance_id envelope)) \<and>
       handle (types N (target_type D))
         (replay (types N (target_type D)) (domain_events (cfg_ext N) (types N (target_type D)) es)) cmd = Inr []))"
proof -
  let ?t = "target_type D" and ?i = "env_instance_id envelope"
  let ?A = "types N ?t" and ?E = "cfg_ext N" and ?strm = "\<lambda>w. stream_of N strm w ?t ?i"
  obtain cmd ap1 des where cmd: "command_from_value D (env_command envelope) = Inr cmd"
    and g: "store_get N ?t ?i ap = (Inr (), ap1)"
    and x: "store_execute N ?t ?i cmd (env_context envelope) ap1 = (Inr des, ap')"
    using assms(5) by (auto simp: dispatch_def split: sum.splits prod.splits)
  note got = store_get_inv [OF assms(1,2) g]
  then obtain K st where c: "cache ap1 (?t, ?i) = Some (Alive K st)" by blast
  have inv1: "app_inv N J strm ap1" and to: "timeouts ap1 = []" using got assms(3) by simp_all
  let ?st = "st\<lparr>store := world ap1, disk := app_fs ap1\<rparr>"
  have K: "K = actor_context_of N ?t ?i" and es: "\<exists>es. prefix es (?strm (world ap1)) \<and> synced ?E ?A es st"
    using inv1 c assms(4) by (auto simp: app_inv_def)
  have set: "actor_setting ?E ?A (cfg_ops N) (new_v4 N) K ?strm"
    unfolding K by (rule cfg_setting_actor [OF assms(1)])
  have inv: "actor_inv ?E ?A ?strm ?st" using es by (simp add: actor_inv_def synced_def)
  obtain r st' where e: "execute_with_retry ?E ?A (cfg_ops N) (new_v4 N) K cmd (env_context envelope) ?st = (r, st')"
    by fastforce
  have r: "r = Inr des" and w: "world ap' = store st'"
    using x c to e by (auto simp: store_execute_def call_actor_def handle_execute_def Let_def
        split: sum.splits fault.splits prod.splits)
  note spec = execute_with_retry_spec [OF set inv e]
  from spec(4) [OF r] show ?thesis
  proof
    assume noop: "handle ?A (agg_state st') cmd = Inr [] \<and> des = []"
    obtain es where "prefix es (?strm (store st'))" "synced ?E ?A es st'"
      using spec(1) by (auto simp: actor_inv_def)
    with noop cmd w show ?thesis unfolding synced_def by metis
  next
    assume "synced ?E ?A (?strm (store st')) st' \<and> decided ?E ?A (?strm (store ?st)) (?strm (store st')) cmd des"
    moreover have "prefix (?strm (world ap)) (?strm (world ap1))" using got by (simp add: stream_of_grows)
    ultimately have "decided ?E ?A (?strm (world ap)) (?strm (world ap')) cmd des"
      using w by (auto intro: decided_earlier)
    with cmd show ?thesis by blast
  qed
qed

theorem dispatch_is_decided_witness:
  "\<exists>ap'. dispatch sample_config counter_dispatcher increment fresh_app = (Inr (), ap') \<and>
     (\<exists>cmd des. command_from_value counter_dispatcher (JString ''Increment'') = Inr cmd \<and>
        (decided env Counter [] (sample_stream (world ap')) cmd des \<or>
         des = [] \<and> (\<exists>es. prefix es (sample_stream (world ap')) \<and>
           handle Counter (replay Counter (domain_events env Counter es)) cmd = Inr [])))"
proof -
  obtain ap' where d: "dispatch sample_config counter_dispatcher increment fresh_app = (Inr (), ap')"
    using dispatch_increment by blast
  have t: "target_type counter_dispatcher = 0" "env_instance_id increment = ''c1''"
    "env_command increment = JString ''Increment''" "timeouts fresh_app = []"
    by (simp_all add: counter_dispatcher_def increment_def fresh_app_def)
  have s: "sample_stream (world fresh_app) = []"
    by (simp add: fresh_app_def sample_stream_def mem_stream_def mem_new_def number_def)
  from dispatch_is_decided [OF sample_cfg_setting fresh_app_inv t(4) UNIV_I d] d show ?thesis
    unfolding t sample_config_simps sample_stream_of s by blast
qed

subsection \<open>Rounds of the process managers\<close>



text \<open>
  C27. The first loop of a round, on a server that delivers the log from the position of each
  manager, collects exactly the commands of all events each manager has not reacted to, in
  order, under the manager's own dead-letter log, and leaves every manager at the end of the
  log.
\<close>

theorem collect_work_complete:
  assumes "log_ok log"
    and "\<forall>pm \<in> set pms. pm_ok (cfg_ext N) log (rpm_manager pm) (rpm_runner pm)"
    and "\<And>pos. \<exists>items. es_subscribe_all_from (cfg_ext N) (cfg_rpc N) (client N) pos w = (Inr items, w) \<and>
      delivers log pos items \<and> failure items = None"
  shows "\<exists>work pms'. collect_work N pms w = (Inr work, pms', w) \<and>
    list_all2 (\<lambda>pm (envelopes, p). p = dead_letter_path (rpm_runner pm) \<and>
      (\<exists>es fs. log = es @ fs \<and> pm_at (cfg_ext N) (rpm_manager pm) es (pm_checkpoint (rpm_runner pm)) \<and>
         envelopes = commands_after (cfg_ext N) (rpm_manager pm) es fs)) pms work \<and>
    (\<forall>pm \<in> set pms'. pm_at (cfg_ext N) (rpm_manager pm) log (pm_checkpoint (rpm_runner pm)))"
  using assms by (rule collect_work_all)

theorem collect_work_complete_witness:
  "\<exists>work pms'. collect_work sample_config [sample_pm] sample_world = (Inr work, pms', sample_world) \<and>
     length work = 1 \<and>
     (\<forall>pm \<in> set pms'. pm_at env (rpm_manager pm) (mem_global sample_world) (pm_checkpoint (rpm_runner pm)))"
proof -
  have "\<forall>pm \<in> set [sample_pm]. pm_ok (cfg_ext sample_config) (mem_global sample_world) (rpm_manager pm) (rpm_runner pm)"
    using sample_consumers by (simp add: consumers_inv_def)
  moreover have "\<exists>items. es_subscribe_all_from (cfg_ext sample_config) (cfg_rpc sample_config) (client sample_config) pos sample_world
      = (Inr items, sample_world) \<and> delivers (mem_global sample_world) pos items \<and> failure items = None" for pos
    using mem_subscribe [OF sample_world_small] by simp
  ultimately show ?thesis
    using collect_work_complete [OF sample_log_ok, of "[sample_pm]" sample_config sample_world]
    by (auto dest: list_all2_lengthD)
qed



end
