(* ===== verification/Live_Correct.thy ===== *)
theory Live_Correct
  imports Live Store_Runs
begin

text \<open>
  The correctness of the live loop: reachable states, the invariant that every consumer is the
  fold of a prefix of the log whatever is delivered again, and what is on disk when the loop
  has returned.
\<close>

subsection \<open>Reachable states\<close>

inductive live_reachable ::
  "('w, 'a, 'c, 'e, 'err) config \<Rightarrow> live_config \<Rightarrow> watch_send \<Rightarrow> ('w, 'a, 'p, 'q) live
    \<Rightarrow> ('w, 'a, 'p, 'q) live \<Rightarrow> bool" for N cfg send lv0 where
  start: "live_reachable N cfg send lv0 lv0"
| step: "live_reachable N cfg send lv0 lv \<Longrightarrow> live_reachable N cfg send lv0 (live_step N cfg send ev lv)"

lemma run_live_loop_Cons:
  "run_live_loop N cfg send (ev # evs) lv = run_live_loop N cfg send evs (live_step N cfg send ev lv)"
  by (simp add: run_live_loop_def)

text \<open>Reachable are the ends of the schedules.\<close>

lemma live_reachable_run:
  "live_reachable N cfg send lv0 lv \<longleftrightarrow> (\<exists>evs. lv = run_live_loop N cfg send evs lv0)"
proof
  assume "live_reachable N cfg send lv0 lv"
  then show "\<exists>evs. lv = run_live_loop N cfg send evs lv0"
  proof induction
    case start
    show ?case by (rule exI [of _ "[]"]) (simp add: run_live_loop_def)
  next
    case (step lv ev)
    then obtain evs where "lv = run_live_loop N cfg send evs lv0" by blast
    then show ?case by (intro exI [of _ "evs @ [ev]"]) (simp add: run_live_loop_def)
  qed
next
  have "live_reachable N cfg send lv0 (run_live_loop N cfg send evs lv0)" for evs
    by (induction evs rule: rev_induct)
      (auto simp: run_live_loop_def intro: live_reachable.intros)
  then show "\<exists>evs. lv = run_live_loop N cfg send evs lv0 \<Longrightarrow> live_reachable N cfg send lv0 lv" by blast
qed

text \<open>
  The steps that do something, by kind: every step is one of these or leaves all but the
  receivers and the signal alone.
\<close>

lemma live_step_cases:
  obtains (same) "live_app (live_step N cfg send ev lv) = live_app lv"
      "phase (live_step N cfg send ev lv) = phase lv" "position (live_step N cfg send ev lv) = position lv"
      "backoff_delay (live_step N cfg send ev lv) = backoff_delay lv"
      "caught_up (live_step N cfg send ev lv) = caught_up lv"
  | (connect) "phase lv = Connecting" "live_step N cfg send ev lv = connect_step N lv"
  | (wake) saved where "phase lv = Sleeping saved"
      "live_step N cfg send ev lv = lv\<lparr>phase := Connecting, backoff_delay := double_backoff cfg (backoff_delay lv)\<rparr>"
  | (stream) items pt where "phase lv = Streaming items pt"
      "live_step N cfg send ev lv = stream_step N cfg send items pt lv"
  | (stop) "shutdown_seen lv" "live_step N cfg send ev lv = shutdown_step N lv"
  | (tick) items pt where "phase lv = Streaming items pt"
      "live_step N cfg send ev lv = lv\<lparr>live_app := save_all_checkpoints N (live_app lv)\<rparr>"
proof (cases ev)
  case Poll
  then show ?thesis
    using same connect wake stream by (cases "phase lv") (simp_all add: poll_step_def)
next
  case Tick
  then show ?thesis using same tick by (cases "phase lv") (simp_all add: tick_step_def)
next
  case Stop
  then show ?thesis using same stop by (cases "shutdown_seen lv") simp_all
qed (use same in simp_all)

subsection \<open>Consumers of the live stream\<close>

text \<open>All events a stream yields until it ends or breaks; the marker does not stop the loop.\<close>

fun live_delivered :: "sub_stream \<Rightarrow> recorded_event list" where
  "live_delivered [] = []"
| "live_delivered (Inl st # items) = []"
| "live_delivered (Inr resp # items) =
     (case content resp of
        Some (Event r) \<Rightarrow> r # live_delivered items
      | _ \<Rightarrow> live_delivered items)"

text \<open>A stream is a part of the log, and what it leaves out at the front is before \<open>pos\<close>.\<close>

definition live_part :: "recorded_event list \<Rightarrow> (u64 \<Rightarrow> bool) \<Rightarrow> sub_stream \<Rightarrow> bool" where
  "live_part log before items \<longleftrightarrow>
     (\<exists>k n. live_delivered items = take n (drop k log) \<and> (\<forall>r \<in> set (take k log). before (re_global_position r)))"

text \<open>
  \<open>log\<close> is all the server ever records. Every stream is a part of it without a gap at or before
  the position asked for.
\<close>

definition live_setting :: "('w, 'a, 'c, 'e, 'err) config \<Rightarrow> recorded_event list \<Rightarrow> bool" where
  "live_setting N log \<longleftrightarrow> log_ok log \<and>
     (\<forall>pos w items w'. es_subscribe_all_from (cfg_ext N) (cfg_rpc N) (client N) pos w = (Inr items, w') \<longrightarrow>
        live_part log (\<lambda>g. g < pos) items)"

definition consumers_ok :: "ext \<Rightarrow> recorded_event list \<Rightarrow> ('w, 'a, 'p, 'q) app \<Rightarrow> bool" where
  "consumers_ok E log ap \<longleftrightarrow>
     (\<forall>x \<in> set (projections ap). projection_ok E log (rp_projection (snd x)) (rp_runner (snd x))) \<and>
     (\<forall>pm \<in> set (process_managers ap). pm_ok E log (rpm_manager pm) (rpm_runner pm))"

text \<open>The positions of all consumers are past \<open>g\<close>.\<close>

definition all_past :: "('w, 'a, 'p, 'q) app \<Rightarrow> u64 \<Rightarrow> bool" where
  "all_past ap g \<longleftrightarrow> (\<forall>p \<in> set (positions ap). g < p)"

definition live_inv :: "ext \<Rightarrow> recorded_event list \<Rightarrow> ('w, 'a, 'p, 'q) live \<Rightarrow> bool" where
  "live_inv E log lv \<longleftrightarrow> consumers_ok E log (live_app lv) \<and>
     (position lv = 0 \<or> all_past (live_app lv) (position lv)) \<and>
     (case phase lv of
        Streaming items pt \<Rightarrow> live_part log (all_past (live_app lv)) items \<and>
          (case pt of AtNext \<Rightarrow> True | Dispatching g work \<Rightarrow> all_past (live_app lv) g)
      | _ \<Rightarrow> True)"

lemma foldl_min_le: "foldl min a xs \<le> (a :: 'b :: linorder) \<and> (\<forall>x \<in> set xs. foldl min a xs \<le> x)"
proof (induction xs arbitrary: a)
  case (Cons x xs)
  from Cons.IH [of "min a x"] show ?case by (auto intro: order_trans)
qed simp

lemma foldl_min_in: "foldl min (a :: 'b :: linorder) xs = a \<or> foldl min a xs \<in> set xs"
proof (induction xs arbitrary: a)
  case (Cons x xs)
  from Cons.IH [of "min a x"] show ?case by (auto simp: min_def)
qed simp

text \<open>The loop subscribes at or before the position of every consumer.\<close>

lemma min_global_position_le: "p \<in> set (positions ap) \<Longrightarrow> min_global_position ap \<le> p"
  using foldl_min_le [of u64_MAX "positions ap"] by (simp add: min_global_position_def Let_def)

lemma min_global_position_in:
  "min_global_position ap = 0 \<or> min_global_position ap \<in> set (positions ap)"
  using foldl_min_in [of u64_MAX "positions ap"] by (auto simp: min_global_position_def Let_def)

lemma projection_apply_ok:
  assumes "log_ok log" and "projection_ok E log P rn" and "k < length log"
    and "\<forall>r \<in> set (take k log). re_global_position r < projection_position rn"
  shows "projection_ok E log P (projection_apply_event E P (log ! k) rn) \<and>
    projection_position rn \<le> projection_position (projection_apply_event E P (log ! k) rn) \<and>
    re_global_position (log ! k) < projection_position (projection_apply_event E P (log ! k) rn)"
proof -
  let ?r = "log ! k" and ?c = "(pc_state (checkpoint rn), pc_last_global_position (checkpoint rn))"
  obtain es where es: "prefix es log" "projection_at E P es (checkpoint rn)"
    using assms(2) by (auto simp: projection_ok_def)
  obtain x n where st: "apply_recorded_event E P ?r ?c = (x, n)" by fastforce
  have rn': "projection_apply_event E P ?r rn = rn\<lparr>checkpoint := \<lparr>pc_state = x, pc_last_global_position = n\<rparr>\<rparr>"
    using st by (simp add: projection_apply_event_def)
  have past: "\<forall>r \<in> set (take k log). re_global_position r < snd ?c"
    using assms(4) by (simp add: projection_position_def)
  from projection_cursor.step_next [OF assms(1) es(1) es(2) [unfolded projection_at_reached] assms(3) past]
  show ?thesis
  proof
    assume old: "k < length es \<and> (apply_recorded_event E P ?r ?c, [] :: unit list) = (?c, [])"
    then have "projection_apply_event E P ?r rn = rn" using st rn' by simp
    moreover have "?r \<in> set es" using old es(1) by (auto simp: prefix_def nth_append)
    then have "re_global_position ?r < end_position es"
      by (rule before_end [OF log_ok_prefix [OF assms(1) es(1)]])
    ultimately show ?thesis
      using assms(2) es(2) by (simp add: projection_at_def projection_position_def)
  next
    let ?es = "take (Suc k) log"
    assume new: "k = length es \<and> projection_cursor.reached E P (proj_default P) ?es
        (fst (apply_recorded_event E P ?r ?c, [] :: unit list)) \<and>
      snd (apply_recorded_event E P ?r ?c, [] :: unit list) =
        snd (projection_cursor.meaning E P [?r] (fst ?c))"
    then have "projection_cursor.reached E P (proj_default P) ?es (x, n)"
      unfolding st fst_conv by blast
    then have at: "projection_at E P ?es \<lparr>pc_state = x, pc_last_global_position = n\<rparr>"
      by (simp add: projection_at_reached)
    have "?r \<in> set ?es" using assms(3) by (auto simp: take_Suc_conv_app_nth)
    then have g: "re_global_position ?r < end_position ?es"
      by (rule before_end [OF log_ok_prefix [OF assms(1) take_is_prefix]])
    have "end_position es \<le> re_global_position ?r"
    proof (rule after_end)
      show "log_ok (es @ drop (length es) log)" using assms(1) es(1) by (auto simp: prefix_def)
      show "?r \<in> set (drop (length es) log)" using new assms(3) by (simp add: Cons_nth_drop_Suc [symmetric])
    qed
    with g at es(2) rn' show ?thesis
      unfolding projection_ok_def projection_position_def
      by (auto simp: projection_at_def take_is_prefix intro: exI [of _ ?es])
  qed
qed

lemma pm_react_ok:
  assumes "log_ok log" and "pm_ok E log P rn" and "k < length log"
    and "\<forall>r \<in> set (take k log). re_global_position r < pm_position rn"
    and "pm_react_event E P (log ! k) rn = (rn', out)"
  shows "pm_ok E log P rn' \<and> pm_position rn \<le> pm_position rn' \<and>
    re_global_position (log ! k) < pm_position rn' \<and> pm_checkpoint_dir rn' = pm_checkpoint_dir rn \<and>
    (\<exists>es. prefix es log \<and> pm_at E P es (pm_checkpoint rn) \<and>
       (k < length es \<and> rn' = rn \<and> out = [] \<or> k = length es \<and> out = commands_after E P es [log ! k]))"
proof -
  let ?r = "log ! k" and ?c = "(pmc_state (pm_checkpoint rn), pmc_last_global_position (pm_checkpoint rn))"
  obtain es where es: "prefix es log" "pm_at E P es (pm_checkpoint rn)"
    using assms(2) by (auto simp: pm_ok_def)
  obtain x n where st: "react_recorded_event E P ?r ?c = ((x, n), out)"
    and rn': "rn' = rn\<lparr>pm_checkpoint := \<lparr>pmc_state = x, pmc_last_global_position = n\<rparr>\<rparr>"
    using assms(5) by (auto simp: pm_react_event_def split: prod.splits)
  have past: "\<forall>r \<in> set (take k log). re_global_position r < snd ?c"
    using assms(4) by (simp add: pm_position_def)
  from pm_cursor.step_next [OF assms(1) es(1) es(2) [unfolded pm_at_reached] assms(3) past]
  show ?thesis
  proof
    assume old: "k < length es \<and> react_recorded_event E P ?r ?c = (?c, [])"
    then have eq: "rn' = rn" "out = []" using st rn' by simp_all
    have "?r \<in> set es" using old es(1) by (auto simp: prefix_def nth_append)
    then have "re_global_position ?r < end_position es"
      by (rule before_end [OF log_ok_prefix [OF assms(1) es(1)]])
    with eq old assms(2) es show ?thesis by (auto simp: pm_at_def pm_position_def)
  next
    let ?es = "take (Suc k) log"
    assume new: "k = length es \<and> pm_cursor.reached E P (pm_default P) ?es (fst (react_recorded_event E P ?r ?c)) \<and>
      snd (react_recorded_event E P ?r ?c) = snd (pm_cursor.meaning E P [?r] (fst ?c))"
    then have "pm_cursor.reached E P (pm_default P) ?es (x, n)"
      unfolding st fst_conv by blast
    then have at: "pm_at E P ?es \<lparr>pmc_state = x, pmc_last_global_position = n\<rparr>"
      by (simp add: pm_at_reached)
    have "out = snd (pm_cursor.meaning E P [?r] (pmc_state (pm_checkpoint rn)))"
      using new unfolding st fst_conv snd_conv by blast
    moreover have "pmc_state (pm_checkpoint rn) = fst (reactions E P es (pm_default P))"
      using es(2) by (simp add: pm_at_def)
    ultimately have out: "out = commands_after E P es [?r]"
      by (simp only: commands_after_def reactions_meaning)
    have "?r \<in> set ?es" using assms(3) by (auto simp: take_Suc_conv_app_nth)
    then have g: "re_global_position ?r < end_position ?es"
      by (rule before_end [OF log_ok_prefix [OF assms(1) take_is_prefix]])
    have "end_position es \<le> re_global_position ?r"
    proof (rule after_end)
      show "log_ok (es @ drop (length es) log)" using assms(1) es(1) by (auto simp: prefix_def)
      show "?r \<in> set (drop (length es) log)" using new assms(3) by (simp add: Cons_nth_drop_Suc [symmetric])
    qed
    moreover have "pm_ok E log P rn'"
      unfolding pm_ok_def using at rn' by (intro exI [of _ ?es]) (simp add: take_is_prefix)
    ultimately show ?thesis
      using g at es rn' new out by (auto simp: pm_at_def pm_position_def)
  qed
qed

subsection \<open>The invariant of the loop\<close>

text \<open>The fan-out of one event moves every consumer past it.\<close>

lemma positions_iff:
  "p \<in> set (positions ap) \<longleftrightarrow>
    (\<exists>x \<in> set (projections ap). p = projection_position (rp_runner (snd x))) \<or>
    (\<exists>pm \<in> set (process_managers ap). p = pm_position (rpm_runner pm))"
  by (auto simp: positions_def)

lemma all_past_iff:
  "all_past ap g \<longleftrightarrow>
    (\<forall>x \<in> set (projections ap). g < projection_position (rp_runner (snd x))) \<and>
    (\<forall>pm \<in> set (process_managers ap). g < pm_position (rpm_runner pm))"
  by (auto simp: all_past_def positions_def)

text \<open>Positions that move forward only.\<close>

definition forward :: "('w, 'a, 'p, 'q) app \<Rightarrow> ('w, 'a, 'p, 'q) app \<Rightarrow> bool" where
  "forward ap ap' \<longleftrightarrow> (\<forall>g. all_past ap g \<longrightarrow> all_past ap' g)"

lemma react_all_ok:
  assumes "log_ok log" and "k < length log" and "react_all E (log ! k) pms = (pms', work)"
    and "\<forall>pm \<in> set pms. pm_ok E log (rpm_manager pm) (rpm_runner pm) \<and>
      (\<forall>r \<in> set (take k log). re_global_position r < pm_position (rpm_runner pm))"
  shows "(\<forall>pm \<in> set pms'. pm_ok E log (rpm_manager pm) (rpm_runner pm) \<and>
      re_global_position (log ! k) < pm_position (rpm_runner pm)) \<and>
    (\<forall>g. (\<forall>pm \<in> set pms. g < pm_position (rpm_runner pm)) \<longrightarrow>
      (\<forall>pm \<in> set pms'. g < pm_position (rpm_runner pm)))"
  using assms(3,4)
proof (induction pms arbitrary: pms' work)
  case Nil
  then show ?case by simp
next
  case (Cons pm pms)
  obtain rn out where r: "pm_react_event E (rpm_manager pm) (log ! k) (rpm_runner pm) = (rn, out)" by fastforce
  obtain pms2 work2 where rest: "react_all E (log ! k) pms = (pms2, work2)" by fastforce
  have pms': "pms' = pm\<lparr>rpm_runner := rn\<rparr> # pms2" using Cons.prems(1) r rest by (simp add: Let_def)
  have "pm_ok E log (rpm_manager pm) (rpm_runner pm)"
    "\<forall>r \<in> set (take k log). re_global_position r < pm_position (rpm_runner pm)"
    using Cons.prems(2) by simp_all
  from pm_react_ok [OF assms(1) this(1) assms(2) this(2) r]
  have one: "pm_ok E log (rpm_manager pm) rn" "pm_position (rpm_runner pm) \<le> pm_position rn"
    "re_global_position (log ! k) < pm_position rn" by simp_all
  have "\<forall>pm \<in> set pms. pm_ok E log (rpm_manager pm) (rpm_runner pm) \<and>
      (\<forall>r \<in> set (take k log). re_global_position r < pm_position (rpm_runner pm))"
    using Cons.prems(2) by simp
  from Cons.IH [OF rest this] one pms' show ?case
    by (auto intro: less_le_trans)
qed

lemma fan_out_ok:
  assumes "log_ok log" and "k < length log" and "consumers_ok E log ap"
    and "\<forall>r \<in> set (take k log). all_past ap (re_global_position r)" and "cfg_ext N = E"
    and "fan_out_pms N (log ! k) (fan_out_projections N (log ! k) ap) = (ap', work)"
  shows "consumers_ok E log ap' \<and> all_past ap' (re_global_position (log ! k)) \<and> forward ap ap'"
proof -
  let ?r = "log ! k"
  obtain pms work' where re: "react_all E ?r (process_managers ap) = (pms, work')" by fastforce
  have ap': "ap' = (fan_out_projections N ?r ap)\<lparr>process_managers := pms\<rparr>"
    using assms(5,6) re by (simp add: fan_out_pms_def fan_out_projections_def)
  have "\<forall>pm \<in> set (process_managers ap). pm_ok E log (rpm_manager pm) (rpm_runner pm) \<and>
      (\<forall>r \<in> set (take k log). re_global_position r < pm_position (rpm_runner pm))"
    using assms(3,4) by (auto simp: consumers_ok_def all_past_iff)
  note pms = react_all_ok [OF assms(1,2) re this]
  have one: "projection_ok E log (rp_projection rp) (projection_apply_event E (rp_projection rp) ?r (rp_runner rp)) \<and>
      projection_position (rp_runner rp) \<le> projection_position (projection_apply_event E (rp_projection rp) ?r (rp_runner rp)) \<and>
      re_global_position ?r < projection_position (projection_apply_event E (rp_projection rp) ?r (rp_runner rp))"
    if "(name, rp) \<in> set (projections ap)" for name rp
  proof (rule projection_apply_ok [OF assms(1) _ assms(2)])
    show "projection_ok E log (rp_projection rp) (rp_runner rp)"
      using assms(3) that by (auto simp: consumers_ok_def)
    show "\<forall>r \<in> set (take k log). re_global_position r < projection_position (rp_runner rp)"
      using assms(4) that by (fastforce simp: all_past_iff)
  qed
  have projs: "projections ap' = map (\<lambda>(name, rp). (name,
      rp\<lparr>rp_runner := projection_apply_event E (rp_projection rp) ?r (rp_runner rp)\<rparr>)) (projections ap)"
    using ap' assms(5) by (simp add: fan_out_projections_def)
  have "process_managers ap' = pms" using ap' by simp
  with pms one show ?thesis
    by (auto simp: consumers_ok_def all_past_iff forward_def projs intro: less_le_trans)
qed

text \<open>What leaves projections and managers alone leaves the invariant alone.\<close>

lemma same_consumers:
  assumes "projections ap' = projections ap" and "process_managers ap' = process_managers ap"
  shows "consumers_ok E log ap' = consumers_ok E log ap" "all_past ap' = all_past ap"
    "positions ap' = positions ap"
  using assms by (simp_all add: consumers_ok_def all_past_def positions_def fun_eq_iff)

lemma save_all_same:
  "projections (save_all_checkpoints N ap) = projections ap"
  "process_managers (save_all_checkpoints N ap) = process_managers ap"
  "world (save_all_checkpoints N ap) = world ap" "cache (save_all_checkpoints N ap) = cache ap"
  "clock (save_all_checkpoints N ap) = clock ap"
  by (simp_all add: save_all_checkpoints_def)

lemma live_dispatch_one_same:
  assumes "live_dispatch_one N p envelope ap = (r, ap')"
  shows "projections ap' = projections ap" "process_managers ap' = process_managers ap"
    "clock ap' = clock ap" "\<And>m. r = Inl m \<Longrightarrow> clock ap = None"
proof -
  obtain q ap1 where d: "dispatch_or_error N envelope ap = (q, ap1)" by fastforce
  have fr: "framed ap ap1" using dispatch_or_error_framed [of ap N envelope] d by simp
  have "projections ap' = projections ap1 \<and> process_managers ap' = process_managers ap1 \<and>
    clock ap' = clock ap1 \<and> (\<forall>m. r = Inl m \<longrightarrow> clock ap1 = None)"
    using assms d
    by (auto simp: live_dispatch_one_def dead_letter_def append_dead_letter_def
        split: sum.splits prod.splits fault.splits option.splits)
  with fr show "projections ap' = projections ap" "process_managers ap' = process_managers ap"
    "clock ap' = clock ap" "\<And>m. r = Inl m \<Longrightarrow> clock ap = None"
    by (simp_all add: framed_def)
qed

lemma live_part_weaken:
  "live_part log P items \<Longrightarrow> (\<And>g. P g \<Longrightarrow> Q g) \<Longrightarrow> live_part log Q items"
  unfolding live_part_def by blast

text \<open>The next event of a stream, and what is left of it.\<close>

lemma live_part_event:
  assumes "live_part log P (Inr resp # items)" and "content resp = Some (Event r)"
  obtains k where "k < length log" "r = log ! k" "\<forall>x \<in> set (take k log). P (re_global_position x)"
    "\<And>Q. (\<And>g. P g \<Longrightarrow> Q g) \<Longrightarrow> Q (re_global_position r) \<Longrightarrow> live_part log Q items"
proof -
  obtain k n where kn: "r # live_delivered items = take n (drop k log)"
    "\<forall>x \<in> set (take k log). P (re_global_position x)"
    using assms by (auto simp: live_part_def)
  then have k: "k < length log" by (cases "k < length log") simp_all
  then have d: "drop k log = log ! k # drop (Suc k) log" by (simp add: Cons_nth_drop_Suc)
  with kn(1) obtain m where m: "n = Suc m" by (cases n) simp_all
  have "r = log ! k" "live_delivered items = take m (drop (Suc k) log)" using kn(1) d m by simp_all
  moreover have "live_part log Q items" if "\<And>g. P g \<Longrightarrow> Q g" "Q (re_global_position r)" for Q
  proof -
    have "\<forall>x \<in> set (take (Suc k) log). Q (re_global_position x)"
      using kn(2) that k \<open>r = log ! k\<close> by (auto simp: take_Suc_conv_app_nth)
    with calculation(2) show ?thesis unfolding live_part_def by blast
  qed
  ultimately show thesis using that k kn(2) by blast
qed

lemma live_part_skip:
  "live_part log P (Inr resp # items) \<Longrightarrow> (\<And>r. content resp \<noteq> Some (Event r)) \<Longrightarrow> live_part log P items"
  by (auto simp: live_part_def split: option.splits sub_content.splits)

text \<open>\<open>send\<close> leaves the old or the new position in the channel.\<close>

definition watch_ok :: "watch_send \<Rightarrow> bool" where
  "watch_ok send \<longleftrightarrow> (\<forall>n old new. send n old new \<in> {old, new})"

lemma stream_step_inv:
  assumes "log_ok log" and "watch_ok send" and "live_inv (cfg_ext N) log lv" and "phase lv = Streaming items pt"
  shows "live_inv (cfg_ext N) log (stream_step N cfg send items pt lv)"
proof -
  have inv: "consumers_ok (cfg_ext N) log (live_app lv)"
    "position lv = 0 \<or> all_past (live_app lv) (position lv)"
    "live_part log (all_past (live_app lv)) items"
    "case pt of AtNext \<Rightarrow> True | Dispatching g work \<Rightarrow> all_past (live_app lv) g"
    using assms(3,4) by (simp_all add: live_inv_def)
  have keep: "live_inv (cfg_ext N) log (lv\<lparr>live_app := ap, phase := ph\<rparr>)"
    if "projections ap = projections (live_app lv)" "process_managers ap = process_managers (live_app lv)"
      "\<And>its q. ph = Streaming its q \<Longrightarrow> its = items \<and> (case q of AtNext \<Rightarrow> True | Dispatching g work \<Rightarrow> all_past (live_app lv) g)"
    for ap ph
    using inv that same_consumers [OF that(1,2)]
    by (cases ph) (auto simp: live_inv_def split: stream_point.splits)
  show ?thesis
  proof (cases pt)
    case AtNext
    show ?thesis
    proof (cases items)
      case Nil
      then show ?thesis
        using keep [of "save_all_checkpoints N (live_app lv)" Connecting] AtNext
        by (simp add: ended_step_def save_all_same live_inv_def)
    next
      case (Cons item its)
      show ?thesis
      proof (cases item)
        case (Inl e)
        then show ?thesis
          using keep [of "save_all_checkpoints N (live_app lv)" "Sleeping True"] AtNext Cons
          by (simp add: broken_step_def save_all_same)
      next
        case (Inr resp)
        note part = inv(3) [unfolded Cons Inr]
        show ?thesis
        proof (cases "\<exists>r. content resp = Some (Event r)")
          case True
          then obtain r where r: "content resp = Some (Event r)" by blast
          obtain k where k: "k < length log" "r = log ! k"
            "\<forall>x \<in> set (take k log). all_past (live_app lv) (re_global_position x)"
            "\<And>Q. (\<And>g. all_past (live_app lv) g \<Longrightarrow> Q g) \<Longrightarrow> Q (re_global_position r) \<Longrightarrow> live_part log Q its"
            using live_part_event [OF part r] by metis
          obtain ap work where f: "fan_out_pms N r (fan_out_projections N r (live_app lv)) = (ap, work)" by fastforce
          note fan = fan_out_ok [OF assms(1) k(1) inv(1) k(3) refl f [unfolded k(2)]]
          have "live_part log (all_past ap) its"
            by (rule k(4)) (use fan k(2) in \<open>auto simp: forward_def\<close>)
          with fan k(2) inv(2) f AtNext Cons Inr r show ?thesis
            by (auto simp: live_inv_def forward_def)
        next
          case False
          then have "live_part log (all_past (live_app lv)) its" using live_part_skip [OF part] by blast
          with inv False AtNext Cons Inr show ?thesis
            by (cases "content resp") (auto simp: live_inv_def split: sub_content.splits)
        qed
      qed
    qed
  next
    case (Dispatching g work)
    show ?thesis
    proof (cases work)
      case Nil
      have "send (receivers lv) (position lv) g = position lv \<or> send (receivers lv) (position lv) g = g"
        using assms(2) by (auto simp: watch_ok_def)
      with inv Dispatching Nil show ?thesis by (auto simp: live_inv_def)
    next
      case (Cons x work')
      obtain envelope p where x: "x = (envelope, p)" by fastforce
      obtain q ap where d: "live_dispatch_one N p envelope (live_app lv) = (q, ap)" by fastforce
      note same = live_dispatch_one_same(1,2) [OF d]
      show ?thesis
        using same keep [of ap "Died (projl q)"] keep [of ap "Streaming items (Dispatching g work')"]
          inv(4) Dispatching Cons x d
        by (cases q) simp_all
    qed
  qed
qed

lemma live_step_inv:
  assumes "live_setting N log" and "watch_ok send" and "live_inv (cfg_ext N) log lv"
  shows "live_inv (cfg_ext N) log (live_step N cfg send ev lv)"
proof -
  have ok: "log_ok log" using assms(1) by (simp add: live_setting_def)
  let ?saved = "save_all_checkpoints N (live_app lv)"
  have c: "consumers_ok (cfg_ext N) log (live_app lv)"
    "position lv = 0 \<or> all_past (live_app lv) (position lv)"
    using assms(3) by (simp_all add: live_inv_def)
  note s = same_consumers [OF save_all_same(1) [of N "live_app lv"] save_all_same(2) [of N "live_app lv"]]
  show ?thesis
  proof (cases rule: live_step_cases [of N cfg send ev lv, case_names same connect wake stream stop tick])
    case same
    with assms(3) show ?thesis
      by (auto simp: live_inv_def split: live_phase.splits stream_point.splits)
  next
    case connect
    obtain q w where sub: "es_subscribe_all_from (cfg_ext N) (cfg_rpc N) (client N)
        (min_global_position (live_app lv)) (world (live_app lv)) = (q, w)" by fastforce
    have w: "consumers_ok (cfg_ext N) log ((live_app lv)\<lparr>world := w\<rparr>) = consumers_ok (cfg_ext N) log (live_app lv)"
      "all_past ((live_app lv)\<lparr>world := w\<rparr>) = all_past (live_app lv)"
      by (rule same_consumers; simp)+
    have part: "live_part log (all_past (live_app lv)) items" if "q = Inr items" for items
    proof -
      have "live_part log (\<lambda>g. g < min_global_position (live_app lv)) items"
        using assms(1) sub that unfolding live_setting_def by blast
      then show ?thesis
        by (rule live_part_weaken) (auto simp: all_past_def dest: min_global_position_le intro: less_le_trans)
    qed
    with connect c s w sub show ?thesis
      by (auto simp: connect_step_def live_inv_def split: sum.splits)
  next
    case (wake saved)
    with c show ?thesis by (simp add: live_inv_def)
  next
    case (stream items pt)
    with stream_step_inv [OF ok assms(2,3)] show ?thesis by simp
  next
    case stop
    with assms(3) c s show ?thesis
      by (auto simp: shutdown_step_def live_inv_def split: live_phase.splits bool.splits)
  next
    case (tick items pt)
    with assms(3) s show ?thesis by (auto simp: live_inv_def split: stream_point.splits)
  qed
qed

lemma live_reachable_inv:
  assumes "live_setting N log" and "watch_ok send" and "consumers_ok (cfg_ext N) log ap"
    and "live_reachable N cfg send (live_start cfg0 ap) lv"
  shows "live_inv (cfg_ext N) log lv"
  using assms(4)
proof induction
  case start
  with assms(3) show ?case by (simp add: live_inv_def live_start_def)
next
  case (step lv ev)
  then show ?case by (intro live_step_inv [OF assms(1,2)])
qed

subsection \<open>Outcomes, backoff\<close>

text \<open>The loop never returns an error, and the task dies only of a clock before the epoch
  or of a checkpoint interval of zero.\<close>

definition outcome_inv :: "live_config \<Rightarrow> ('w, 'a, 'p, 'q) live \<Rightarrow> bool" where
  "outcome_inv cfg0 lv \<longleftrightarrow>
     (case phase lv of
        Returned r \<Rightarrow> r = Inr ()
      | Died m \<Rightarrow> clock (live_app lv) = None \<or> checkpoint_interval cfg0 = 0
      | _ \<Rightarrow> True)"

lemma stream_step_outcome:
  "outcome_inv cfg0 (stream_step N cfg send items pt lv) \<and>
   clock (live_app (stream_step N cfg send items pt lv)) = clock (live_app lv)"
proof (cases "(N, cfg, send, items, pt, lv)" rule: stream_step.cases)
  case (5 N cfg send items gp envelope path work lv)
  obtain q ap where d: "live_dispatch_one N path envelope (live_app lv) = (q, ap)" by fastforce
  from live_dispatch_one_same [OF d] d 5 show ?thesis
    by (cases q) (auto simp: outcome_inv_def)
qed (auto simp: outcome_inv_def ended_step_def broken_step_def save_all_same fan_out_pms_def
    fan_out_projections_def Let_def split: option.splits sub_content.splits prod.splits)

lemma live_step_outcome:
  assumes "outcome_inv cfg0 lv"
  shows "outcome_inv cfg0 (live_step N cfg send ev lv) \<and>
    clock (live_app (live_step N cfg send ev lv)) = clock (live_app lv)"
proof (cases rule: live_step_cases [of N cfg send ev lv, case_names same connect wake stream stop tick])
  case same
  with assms show ?thesis by (auto simp: outcome_inv_def split: live_phase.splits)
next
  case connect
  then show ?thesis
    by (auto simp: connect_step_def outcome_inv_def save_all_same Let_def split: sum.splits prod.splits)
next
  case stop
  with assms show ?thesis
    by (auto simp: shutdown_step_def outcome_inv_def save_all_same split: live_phase.splits bool.splits)
next
  case (stream items pt)
  with stream_step_outcome [of cfg0 N cfg send items pt lv] show ?thesis by simp
qed (simp_all add: outcome_inv_def save_all_same)

text \<open>A dead task stays dead.\<close>

lemma died_step: "phase lv = Died m \<Longrightarrow> phase (live_step N cfg send ev lv) = Died m"
  by (cases ev) (simp_all add: poll_step_def tick_step_def shutdown_step_def)

lemma zero_interval_dies:
  assumes "live_reachable N cfg send (live_start cfg0 ap) lv" and "checkpoint_interval cfg0 = 0"
  shows "\<exists>m. phase lv = Died m"
  using assms
proof induction
  case start
  then show ?case by (simp add: live_start_def)
next
  case (step lv ev)
  then show ?case using died_step by blast
qed

text \<open>The delay before the next attempt.\<close>

definition backoff_inv :: "live_config \<Rightarrow> nat \<Rightarrow> bool" where
  "backoff_inv cfg d \<longleftrightarrow> d = reconnect_base_delay cfg \<or>
     (\<exists>n. d = min (2 ^ n * reconnect_base_delay cfg) (reconnect_max_delay cfg))"

lemma double_backoff_inv: "backoff_inv cfg d \<Longrightarrow> backoff_inv cfg (double_backoff cfg d)"
proof -
  let ?b = "reconnect_base_delay cfg" and ?m = "reconnect_max_delay cfg"
  assume "backoff_inv cfg d"
  then consider "d = ?b" | n where "d = min (2 ^ n * ?b) ?m" by (auto simp: backoff_inv_def)
  then have "\<exists>n. double_backoff cfg d = min (2 ^ n * ?b) ?m"
  proof cases
    case 1
    then show ?thesis by (intro exI [of _ 1]) (simp add: double_backoff_def mult.commute)
  next
    case 2
    then show ?thesis
      by (intro exI [of _ "Suc n"]) (auto simp: double_backoff_def min_def mult.commute)
  qed
  then show ?thesis by (simp add: backoff_inv_def)
qed

lemma stream_step_backoff:
  "backoff_delay (stream_step N cfg send items pt lv) \<in> {backoff_delay lv, reconnect_base_delay cfg}"
  by (cases "(N, cfg, send, items, pt, lv)" rule: stream_step.cases)
    (auto simp: ended_step_def broken_step_def Let_def
      split: option.splits sub_content.splits prod.splits sum.splits)

lemma live_step_backoff:
  assumes "backoff_inv cfg (backoff_delay lv)"
  shows "backoff_inv cfg (backoff_delay (live_step N cfg send ev lv))"
proof (cases rule: live_step_cases [of N cfg send ev lv, case_names same connect wake stream stop tick])
  case connect
  with assms show ?thesis
    by (auto simp: connect_step_def Let_def split: sum.splits prod.splits)
next
  case (wake saved)
  with double_backoff_inv [OF assms] show ?thesis by simp
next
  case (stream items pt)
  with assms stream_step_backoff [of N cfg send items pt lv] show ?thesis
    by (auto simp: backoff_inv_def)
next
  case stop
  with assms show ?thesis by (auto simp: shutdown_step_def split: live_phase.splits bool.splits)
qed (use assms in simp_all)

subsection \<open>What is on disk\<close>

definition all_saved :: "ext \<Rightarrow> ('w, 'a, 'p, 'q) app \<Rightarrow> bool" where
  "all_saved E ap \<longleftrightarrow>
     (\<forall>x \<in> set (projections ap). load_checkpoint E (rp_projection (snd x)) (checkpoint_dir (rp_runner (snd x)))
        (app_fs ap) = Inr (Some (checkpoint (rp_runner (snd x))))) \<and>
     (\<forall>pm \<in> set (process_managers ap). load_pm_checkpoint E (rpm_manager pm) (pm_checkpoint_dir (rpm_runner pm))
        (app_fs ap) = Inr (Some (pm_checkpoint (rpm_runner pm))))"

text \<open>
  Every consumer has a directory of its own and a state that reads back, and the disk fails no
  operation.
\<close>

definition disk_setting :: "ext \<Rightarrow> ('w, 'a, 'p, 'q) app \<Rightarrow> bool" where
  "disk_setting E ap \<longleftrightarrow>
     distinct (map (\<lambda>x. checkpoint_dir (rp_runner (snd x))) (projections ap) @
       map (\<lambda>pm. pm_checkpoint_dir (rpm_runner pm)) (process_managers ap)) \<and>
     (\<forall>x \<in> set (projections ap). \<forall>ck. projection_good E (rp_projection (snd x)) ck) \<and>
     (\<forall>pm \<in> set (process_managers ap). \<forall>ck. pm_good E (rpm_manager pm) ck) \<and>
     (\<forall>op p. io_fails (app_fs ap) op p = None)"

lemma save_all_saved:
  assumes "disk_setting (cfg_ext N) ap"
  shows "all_saved (cfg_ext N) (save_all_checkpoints N ap)"
proof -
  let ?E = "cfg_ext N" and ?dp = "\<lambda>x. checkpoint_dir (rp_runner (snd x))"
    and ?dm = "\<lambda>pm. pm_checkpoint_dir (rpm_runner pm)"
  let ?F1 = "projection_list.save_all_quietly ?E (projections ap) (app_fs ap)"
  let ?F2 = "pm_list.save_all_quietly ?E (process_managers ap) ?F1"
  have fs: "app_fs (save_all_checkpoints N ap) = ?F2"
    by (simp add: save_all_checkpoints_def save_pms_quietly_all save_projections_quietly_all)
  have io: "io_fails (app_fs ap) op p = None" for op p using assms by (simp add: disk_setting_def)
  have io1: "io_fails ?F1 op p = None" for op p
    using projection_list.save_all_quietly_frame [of ?E "projections ap" "app_fs ap"] io by simp
  have "\<forall>x \<in> set (projections ap). load_checkpoint ?E (rp_projection (snd x)) (?dp x) ?F1 =
      Inr (Some (checkpoint (rp_runner (snd x))))"
    by (rule projection_list.save_all_quietly_load) (use assms io in \<open>auto simp: disk_setting_def\<close>)
  moreover have "load_checkpoint ?E (rp_projection (snd x)) (?dp x) ?F2 =
      load_checkpoint ?E (rp_projection (snd x)) (?dp x) ?F1" if x: "x \<in> set (projections ap)" for x
  proof (rule projection_file.load_cong)
    have "?dp x \<noteq> ?dm pm" if "pm \<in> set (process_managers ap)" for pm
      using assms x that unfolding disk_setting_def by (auto simp: distinct_append)
    then have "\<forall>pm \<in> set (process_managers ap). checkpoint_path (?dp x) \<noteq> checkpoint_path (?dm pm) \<and>
        checkpoint_path (?dp x) \<noteq> checkpoint_tmp_path (?dm pm)"
      using checkpoint_path_inj checkpoint_tmp_path_other by metis
    then show "files ?F2 (checkpoint_path (?dp x)) = files ?F1 (checkpoint_path (?dp x))"
      using pm_list.save_all_quietly_frame [of ?E "process_managers ap" ?F1] by blast
    show "io_fails ?F2 OpRead (checkpoint_path (?dp x)) = io_fails ?F1 OpRead (checkpoint_path (?dp x))"
      using pm_list.save_all_quietly_frame [of ?E "process_managers ap" ?F1] by simp
  qed
  moreover have "\<forall>pm \<in> set (process_managers ap). load_pm_checkpoint ?E (rpm_manager pm) (?dm pm) ?F2 =
      Inr (Some (pm_checkpoint (rpm_runner pm)))"
    by (rule pm_list.save_all_quietly_load) (use assms io1 in \<open>auto simp: disk_setting_def\<close>)
  ultimately show ?thesis by (simp add: all_saved_def save_all_same fs)
qed

text \<open>The setting depends on the registered types, their directories and the failures only.\<close>

definition same_setting :: "('w, 'a, 'p, 'q) app \<Rightarrow> ('w, 'a, 'p, 'q) app \<Rightarrow> bool" where
  "same_setting ap ap' \<longleftrightarrow>
     map (\<lambda>x. (rp_projection (snd x), checkpoint_dir (rp_runner (snd x)))) (projections ap') =
       map (\<lambda>x. (rp_projection (snd x), checkpoint_dir (rp_runner (snd x)))) (projections ap) \<and>
     map (\<lambda>pm. (rpm_manager pm, pm_checkpoint_dir (rpm_runner pm))) (process_managers ap') =
       map (\<lambda>pm. (rpm_manager pm, pm_checkpoint_dir (rpm_runner pm))) (process_managers ap) \<and>
     io_fails (app_fs ap') = io_fails (app_fs ap) \<and>
     map (\<lambda>x. (fst x, rp_type (snd x))) (projections ap') = map (\<lambda>x. (fst x, rp_type (snd x))) (projections ap)"

lemma same_setting_refl [simp]: "same_setting ap ap"
  by (simp add: same_setting_def)

lemma same_setting_trans: "same_setting a b \<Longrightarrow> same_setting b c \<Longrightarrow> same_setting a c"
  by (simp add: same_setting_def)

text \<open>What of a registered consumer does not depend on its checkpoint.\<close>

abbreviation projection_shape :: "string \<times> 'p registered_projection \<Rightarrow> string \<times> nat \<times> 'p projection \<times> path" where
  "projection_shape x \<equiv> (fst x, rp_type (snd x), rp_projection (snd x), checkpoint_dir (rp_runner (snd x)))"

lemma same_setting_shapes:
  assumes "same_setting ap ap'"
  shows "map projection_shape (projections ap') = map projection_shape (projections ap)"
  using assms unfolding same_setting_def list_eq_iff_nth_eq by auto

lemma same_setting_map_of:
  assumes "same_setting ap ap'" and "map_of (projections ap) k = Some rp"
  obtains rp' where "map_of (projections ap') k = Some rp'" "rp_type rp' = rp_type rp"
    "rp_projection rp' = rp_projection rp"
proof -
  have "map projection_shape xs = map projection_shape ys \<Longrightarrow> map_of ys k = Some rp \<Longrightarrow>
    \<exists>rp'. map_of xs k = Some rp' \<and> rp_type rp' = rp_type rp \<and> rp_projection rp' = rp_projection rp"
    for xs ys :: "(string \<times> 'c registered_projection) list"
  proof (induction ys arbitrary: xs)
    case (Cons y ys)
    then show ?case by (cases xs; cases "hd xs"; cases y) (auto split: if_splits)
  qed simp
  from this [OF same_setting_shapes [OF assms(1)] assms(2)] that show ?thesis by blast
qed

lemma map_pair_dest:
  "map (\<lambda>x. (f x, g x)) xs = map (\<lambda>x. (f x, g x)) ys \<Longrightarrow> map g xs = map g ys \<and> f ` set xs = f ` set ys"
proof -
  assume eq: "map (\<lambda>x. (f x, g x)) xs = map (\<lambda>x. (f x, g x)) ys"
  from arg_cong [OF eq, of "map snd"] arg_cong [OF eq, of "map fst"]
  have "map g xs = map g ys" "map f xs = map f ys" by (simp_all add: comp_def)
  from this(1) arg_cong [OF this(2), of set] show ?thesis by simp
qed

lemma disk_setting_same:
  assumes "same_setting ap ap'" and "disk_setting E ap"
  shows "disk_setting E ap'"
proof -
  note p = map_pair_dest [OF assms(1) [unfolded same_setting_def, THEN conjunct1]]
  note m = map_pair_dest [OF assms(1) [unfolded same_setting_def, THEN conjunct2, THEN conjunct1]]
  have "\<forall>x \<in> set (projections ap'). \<forall>ck. projection_good E (rp_projection (snd x)) ck"
  proof
    fix x assume "x \<in> set (projections ap')"
    then have "rp_projection (snd x) \<in> (\<lambda>x. rp_projection (snd x)) ` set (projections ap)"
      using p by (metis image_eqI)
    with assms(2) show "\<forall>ck. projection_good E (rp_projection (snd x)) ck"
      by (auto simp: disk_setting_def)
  qed
  moreover have "\<forall>pm \<in> set (process_managers ap'). \<forall>ck. pm_good E (rpm_manager pm) ck"
  proof
    fix pm assume "pm \<in> set (process_managers ap')"
    then have "rpm_manager pm \<in> rpm_manager ` set (process_managers ap)" using m by blast
    with assms(2) show "\<forall>ck. pm_good E (rpm_manager pm) ck" by (auto simp: disk_setting_def)
  qed
  ultimately show ?thesis
    using assms p m unfolding disk_setting_def same_setting_def by simp
qed

lemma save_all_files:
  assumes "\<not> checkpoint_name p"
  shows "files (app_fs (save_all_checkpoints N ap)) p = files (app_fs ap) p"
proof -
  have "p \<noteq> checkpoint_path d \<and> p \<noteq> checkpoint_tmp_path d" for d
    using assms checkpoint_path_name by blast
  then show ?thesis
    unfolding save_all_checkpoints_def save_pms_quietly_all save_projections_quietly_all
    using projection_list.save_all_quietly_frame [of "cfg_ext N" "projections ap" "app_fs ap"]
      pm_list.save_all_quietly_frame [of "cfg_ext N" "process_managers ap"
        "projection_list.save_all_quietly (cfg_ext N) (projections ap) (app_fs ap)"]
    by simp
qed

lemma save_all_same_setting: "same_setting ap (save_all_checkpoints N ap)"
proof -
  have "io_fails (app_fs (save_all_checkpoints N ap)) = io_fails (app_fs ap)"
    unfolding save_all_checkpoints_def save_pms_quietly_all save_projections_quietly_all
    using projection_list.save_all_quietly_frame [of "cfg_ext N" "projections ap" "app_fs ap"]
      pm_list.save_all_quietly_frame [of "cfg_ext N" "process_managers ap"
        "projection_list.save_all_quietly (cfg_ext N) (projections ap) (app_fs ap)"]
    by simp
  then show ?thesis by (simp add: same_setting_def save_all_same)
qed

lemma live_dispatch_one_setting:
  assumes "live_dispatch_one N p envelope ap = (r, ap')"
  shows "same_setting ap ap'"
proof -
  obtain q ap1 where d: "dispatch_or_error N envelope ap = (q, ap1)" by fastforce
  have io1: "io_fails (app_fs ap1) = io_fails (app_fs ap)"
    using dispatch_or_error_framed [of ap N envelope] d by (simp add: framed_def same_files_def)
  have "io_fails (app_fs ap') = io_fails (app_fs ap1)"
  proof (cases q)
    case (Inl err)
    obtain q3 F where l: "append_dead_letter (cfg_ext N) (clock ap1) p envelope err (app_fs ap1) = (q3, F)"
      by fastforce
    from append_dead_letter_frame [OF l] assms d l Inl show ?thesis
      by (auto simp: live_dispatch_one_def dead_letter_def split: sum.splits fault.splits)
  qed (use assms d in \<open>simp add: live_dispatch_one_def\<close>)
  with live_dispatch_one_same(1,2) [OF assms] io1 show ?thesis by (simp add: same_setting_def)
qed

lemma react_all_setting:
  "react_all E r pms = (pms', work) \<Longrightarrow>
    map (\<lambda>pm. (rpm_manager pm, pm_checkpoint_dir (rpm_runner pm))) pms' =
    map (\<lambda>pm. (rpm_manager pm, pm_checkpoint_dir (rpm_runner pm))) pms"
proof (induction pms arbitrary: pms' work)
  case (Cons pm pms)
  then show ?case by (auto simp: Let_def pm_react_event_def split: prod.splits)
qed simp

lemma fan_out_setting:
  assumes "fan_out_pms N r (fan_out_projections N r ap) = (ap', work)"
  shows "same_setting ap ap'"
proof -
  obtain pms work' where re: "react_all (cfg_ext N) r (process_managers ap) = (pms, work')" by fastforce
  have "ap' = (fan_out_projections N r ap)\<lparr>process_managers := pms\<rparr>"
    using assms re by (simp add: fan_out_pms_def fan_out_projections_def)
  with react_all_setting [OF re] show ?thesis
    by (auto simp: same_setting_def fan_out_projections_def projection_apply_event_def split: prod.splits)
qed

lemma stream_step_setting: "same_setting (live_app lv) (live_app (stream_step N cfg send items pt lv))"
proof (cases "(N, cfg, send, items, pt, lv)" rule: stream_step.cases)
  case (3 N cfg send resp items lv)
  then show ?thesis
    using fan_out_setting [of N _ "live_app lv"]
    by (auto simp: Let_def split: option.splits sub_content.splits prod.splits)
next
  case (5 N cfg send items gp envelope path work lv)
  obtain q ap where d: "live_dispatch_one N path envelope (live_app lv) = (q, ap)" by fastforce
  from live_dispatch_one_setting [OF d] d 5 show ?thesis by (cases q) simp_all
qed (auto simp: ended_step_def broken_step_def save_all_same_setting)

lemma live_step_setting: "same_setting (live_app lv) (live_app (live_step N cfg send ev lv))"
proof (cases rule: live_step_cases [of N cfg send ev lv, case_names same connect wake stream stop tick])
  case connect
  have "same_setting (live_app lv) ((live_app lv)\<lparr>world := w\<rparr>)" for w
    by (simp add: same_setting_def)
  with connect show ?thesis
    by (auto simp: connect_step_def save_all_same_setting Let_def split: sum.splits prod.splits)
next
  case stop
  then show ?thesis
    by (auto simp: shutdown_step_def save_all_same_setting split: live_phase.splits bool.splits)
qed (simp_all add: save_all_same_setting stream_step_setting)

lemma live_reachable_setting:
  "live_reachable N cfg send lv0 lv \<Longrightarrow> same_setting (live_app lv0) (live_app lv)"
proof (induction rule: live_reachable.induct)
  case (step lv ev)
  then show ?case using live_step_setting same_setting_trans by blast
qed simp

definition disk_inv_live :: "ext \<Rightarrow> ('w, 'a, 'p, 'q) live \<Rightarrow> bool" where
  "disk_inv_live E lv \<longleftrightarrow> disk_setting E (live_app lv) \<and>
     (case phase lv of Sleeping saved \<Rightarrow> saved \<longrightarrow> all_saved E (live_app lv)
      | Returned r \<Rightarrow> all_saved E (live_app lv) | _ \<Rightarrow> True)"

lemma stream_step_phase:
  "(case phase (stream_step N cfg send items pt lv) of
      Sleeping saved \<Rightarrow> live_app (stream_step N cfg send items pt lv) = save_all_checkpoints N (live_app lv)
    | Returned r \<Rightarrow> phase lv = Returned r | _ \<Rightarrow> True)"
  by (cases "(N, cfg, send, items, pt, lv)" rule: stream_step.cases)
    (auto simp: ended_step_def broken_step_def Let_def
      split: option.splits sub_content.splits prod.splits sum.splits live_phase.splits)

lemma live_step_disk:
  assumes "disk_inv_live (cfg_ext N) lv"
  shows "disk_inv_live (cfg_ext N) (live_step N cfg send ev lv)"
proof -
  let ?E = "cfg_ext N" and ?saved = "save_all_checkpoints N (live_app lv)"
  have set: "disk_setting ?E (live_app lv)" using assms by (simp add: disk_inv_live_def)
  have saved: "disk_setting ?E ?saved" "all_saved ?E ?saved"
    using disk_setting_same [OF save_all_same_setting set] save_all_saved [OF set] by simp_all
  show ?thesis
  proof (cases rule: live_step_cases [of N cfg send ev lv, case_names same connect wake stream stop tick])
    case same
    with assms show ?thesis by (auto simp: disk_inv_live_def split: live_phase.splits)
  next
    case connect
    have "disk_setting ?E ((live_app lv)\<lparr>world := w\<rparr>)" for w
      by (rule disk_setting_same [OF _ set]) (simp add: same_setting_def)
    with connect saved show ?thesis
      by (auto simp: connect_step_def disk_inv_live_def Let_def split: sum.splits prod.splits)
  next
    case (wake saved)
    with set show ?thesis by (simp add: disk_inv_live_def)
  next
    case (stream items pt)
    let ?lv = "stream_step N cfg send items pt lv"
    have "disk_setting ?E (live_app ?lv)" by (rule disk_setting_same [OF stream_step_setting set])
    with stream stream_step_phase [of N cfg send items pt lv] saved show ?thesis
      by (auto simp: disk_inv_live_def split: live_phase.splits)
  next
    case stop
    with assms saved show ?thesis
      by (auto simp: shutdown_step_def disk_inv_live_def split: live_phase.splits bool.splits)
  next
    case (tick items pt)
    with saved show ?thesis by (simp add: disk_inv_live_def)
  qed
qed

lemma live_reachable_disk:
  assumes "disk_setting (cfg_ext N) ap" and "live_reachable N cfg send (live_start cfg0 ap) lv"
  shows "disk_inv_live (cfg_ext N) lv"
  using assms(2)
proof induction
  case start
  with assms(1) show ?case by (simp add: disk_inv_live_def live_start_def)
next
  case (step lv ev)
  then show ?case by (intro live_step_disk)
qed

lemma live_reachable_outcome:
  assumes "live_reachable N cfg send (live_start cfg0 ap) lv"
  shows "outcome_inv cfg0 lv \<and> clock (live_app lv) = clock ap"
  using assms
proof induction
  case start
  show ?case by (simp add: outcome_inv_def live_start_def)
next
  case (step lv ev)
  with live_step_outcome [of cfg0 lv N cfg send ev] show ?case by simp
qed

subsection \<open>Progress\<close>

definition polls ::
  "('w, 'a, 'c, 'e, 'err) config \<Rightarrow> live_config \<Rightarrow> watch_send \<Rightarrow> nat \<Rightarrow> ('w, 'a, 'p, 'q) live
    \<Rightarrow> ('w, 'a, 'p, 'q) live" where
  "polls N cfg send n lv = run_live_loop N cfg send (replicate n Poll) lv"

lemma polls_simps [simp]:
  "polls N cfg send 0 lv = lv"
  "polls N cfg send (Suc n) lv = polls N cfg send n (poll_step N cfg send lv)"
  by (simp_all add: polls_def run_live_loop_def)

lemma polls_add: "polls N cfg send (m + n) lv = polls N cfg send n (polls N cfg send m lv)"
  by (induction m arbitrary: lv) simp_all

lemma polls_inv:
  assumes "live_setting N log" and "watch_ok send" and "live_inv (cfg_ext N) log lv"
  shows "live_inv (cfg_ext N) log (polls N cfg send n lv)"
  using assms(3)
proof (induction n arbitrary: lv)
  case (Suc n)
  with live_step_inv [OF assms(1,2), of lv cfg Poll] show ?case by simp
qed simp

lemma forward_refl [simp]: "forward ap ap"
  by (simp add: forward_def)

lemma forward_trans: "forward a b \<Longrightarrow> forward b c \<Longrightarrow> forward a c"
  by (simp add: forward_def)

text \<open>Every envelope is dispatched in turn; the consumers stay.\<close>

lemma work_drains:
  assumes "phase lv = Streaming items (Dispatching g work)" and "clock (live_app lv) \<noteq> None"
  shows "\<exists>n. phase (polls N cfg send n lv) = Streaming items AtNext \<and>
    forward (live_app lv) (live_app (polls N cfg send n lv)) \<and>
    clock (live_app (polls N cfg send n lv)) = clock (live_app lv)"
  using assms
proof (induction work arbitrary: lv)
  case Nil
  then show ?case by (intro exI [of _ 1]) (simp add: poll_step_def)
next
  case (Cons x work)
  obtain envelope p where x: "x = (envelope, p)" by fastforce
  obtain q ap where d: "live_dispatch_one N p envelope (live_app lv) = (q, ap)" by fastforce
  note same = live_dispatch_one_same [OF d]
  have q: "q = Inr ()" using same(4) Cons.prems(2) by (cases q) auto
  let ?lv = "lv\<lparr>live_app := ap, phase := Streaming items (Dispatching g work)\<rparr>"
  have st: "poll_step N cfg send lv = ?lv"
    using Cons.prems(1) x d q by (simp add: poll_step_def)
  have "forward (live_app lv) ap" using same_consumers(2) [OF same(1,2)] by (simp add: forward_def)
  moreover obtain n where "phase (polls N cfg send n ?lv) = Streaming items AtNext"
    "forward (live_app ?lv) (live_app (polls N cfg send n ?lv))"
    "clock (live_app (polls N cfg send n ?lv)) = clock (live_app ?lv)"
    using Cons.IH [of ?lv] Cons.prems(2) same(3) by auto
  ultimately show ?case
    using st same(3) by (intro exI [of _ "Suc n"]) (auto intro: forward_trans)
qed

lemma stream_drains:
  assumes "live_setting N log" and "watch_ok send" and "live_inv (cfg_ext N) log lv"
    and "phase lv = Streaming items AtNext" and "clock (live_app lv) \<noteq> None"
  shows "\<exists>n. forward (live_app lv) (live_app (polls N cfg send n lv)) \<and>
    (\<forall>r \<in> set (live_delivered items). all_past (live_app (polls N cfg send n lv)) (re_global_position r)) \<and>
    (phase (polls N cfg send n lv) = Connecting \<or> phase (polls N cfg send n lv) = Sleeping True)"
  using assms(3-5)
proof (induction items arbitrary: lv)
  case Nil
  have "forward (live_app lv) (save_all_checkpoints N (live_app lv))"
    using same_consumers(2) [OF save_all_same(1) [of N "live_app lv"] save_all_same(2) [of N "live_app lv"]]
    by (simp add: forward_def)
  with Nil.prems(2) show ?case
    by (intro exI [of _ 1]) (simp add: poll_step_def ended_step_def)
next
  case (Cons item items)
  let ?lv1 = "poll_step N cfg send lv"
  have inv1: "live_inv (cfg_ext N) log ?lv1"
    using live_step_inv [OF assms(1,2) Cons.prems(1), of cfg Poll] by simp
  show ?case
  proof (cases item)
    case (Inl e)
    have "forward (live_app lv) (save_all_checkpoints N (live_app lv))"
      using same_consumers(2) [OF save_all_same(1) [of N "live_app lv"] save_all_same(2) [of N "live_app lv"]]
      by (simp add: forward_def)
    with Cons.prems(2) Inl show ?thesis
      by (intro exI [of _ 1]) (simp add: poll_step_def broken_step_def)
  next
    case (Inr resp)
    show ?thesis
    proof (cases "\<exists>r. content resp = Some (Event r)")
      case False
      then have lv1: "phase ?lv1 = Streaming items AtNext" "live_app ?lv1 = live_app lv"
        "live_delivered (item # items) = live_delivered items"
        using Cons.prems(2) Inr
        by (auto simp: poll_step_def split: option.splits sub_content.splits)
      obtain n where "forward (live_app ?lv1) (live_app (polls N cfg send n ?lv1))"
        "\<forall>r \<in> set (live_delivered items). all_past (live_app (polls N cfg send n ?lv1)) (re_global_position r)"
        "phase (polls N cfg send n ?lv1) = Connecting \<or> phase (polls N cfg send n ?lv1) = Sleeping True"
        using Cons.IH [OF inv1 lv1(1)] lv1(2) Cons.prems(3) by auto
      with lv1 show ?thesis by (intro exI [of _ "Suc n"]) simp
    next
      case True
      then obtain r where r: "content resp = Some (Event r)" by blast
      obtain ap work where f: "fan_out_pms N r (fan_out_projections N r (live_app lv)) = (ap, work)" by fastforce
      have lv1: "phase ?lv1 = Streaming items (Dispatching (re_global_position r) work)" "live_app ?lv1 = ap"
        using Cons.prems(2) Inr r f by (simp_all add: poll_step_def)
      have past: "all_past ap (re_global_position r)"
        using inv1 lv1 by (simp add: live_inv_def)
      have clk: "clock ap = clock (live_app lv)"
        using f by (auto simp: fan_out_pms_def fan_out_projections_def split: prod.splits)
      have fwd: "forward (live_app lv) ap"
      proof -
        have "live_part log (all_past (live_app lv)) (Inr resp # items)" "log_ok log"
          using Cons.prems(1,2) Inr assms(1) by (simp_all add: live_inv_def live_setting_def)
        then obtain k where k: "k < length log" "r = log ! k"
          "\<forall>x \<in> set (take k log). all_past (live_app lv) (re_global_position x)"
          using live_part_event [OF _ r] by metis
        have "consumers_ok (cfg_ext N) log (live_app lv)"
          using Cons.prems(1) by (simp add: live_inv_def)
        from fan_out_ok [OF \<open>log_ok log\<close> k(1) this k(3) refl f [unfolded k(2)]] show ?thesis by simp
      qed
      obtain m where m: "phase (polls N cfg send m ?lv1) = Streaming items AtNext"
        "forward ap (live_app (polls N cfg send m ?lv1))"
        "clock (live_app (polls N cfg send m ?lv1)) = clock ap"
        using work_drains [OF lv1(1), of N cfg send] lv1(2) clk Cons.prems(3) by force
      let ?lv2 = "polls N cfg send m ?lv1"
      have inv2: "live_inv (cfg_ext N) log ?lv2" by (rule polls_inv [OF assms(1,2) inv1])
      obtain n where n: "forward (live_app ?lv2) (live_app (polls N cfg send n ?lv2))"
        "\<forall>r \<in> set (live_delivered items). all_past (live_app (polls N cfg send n ?lv2)) (re_global_position r)"
        "phase (polls N cfg send n ?lv2) = Connecting \<or> phase (polls N cfg send n ?lv2) = Sleeping True"
        using Cons.IH [OF inv2 m(1)] m(3) clk Cons.prems(3) by auto
      have "forward ap (live_app (polls N cfg send n ?lv2))" using m(2) n(1) by (rule forward_trans)
      moreover from this have "all_past (live_app (polls N cfg send n ?lv2)) (re_global_position r)"
        using past by (simp add: forward_def)
      moreover have "polls N cfg send (Suc (m + n)) lv = polls N cfg send n ?lv2"
        by (simp add: polls_add)
      ultimately show ?thesis
        using n Inr r forward_trans [OF fwd] by (intro exI [of _ "Suc (m + n)"]) auto
    qed
  qed
qed

text \<open>A consumer that is past every event of the log is at its end.\<close>

lemma past_all_end:
  assumes "log_ok log" and "prefix es log" and "\<forall>r \<in> set log. re_global_position r < end_position es"
  shows "es = log"
proof (rule ccontr)
  assume "es \<noteq> log"
  then obtain f fs where log: "log = es @ f # fs"
    using assms(2) by (metis append_Nil2 neq_Nil_conv prefixE)
  have "end_position es \<le> re_global_position f"
    by (rule after_end [where fs = "f # fs"]) (use assms(1) log in simp_all)
  with assms(3) log show False by auto
qed

text \<open>The envelopes of an event are dispatched as in a round, as long as that does not fail.\<close>

lemma live_dispatch_one_round:
  assumes "dispatch_one N p envelope (report, ap) = (Inr report', ap')"
  shows "live_dispatch_one N p envelope ap = (Inr (), ap')"
    and "dispatched report' + dead_lettered report' = Suc (dispatched report + dead_lettered report)"
  using assms by (auto simp: dispatch_one_def live_dispatch_one_def split: sum.splits prod.splits)

lemma dispatching_drains:
  assumes "phase lv = Streaming items (Dispatching g work)"
    and "dispatch_all N work (report, live_app lv) = (Inr report', ap')"
  shows "polls N cfg send (Suc (length work)) lv =
      lv\<lparr>live_app := ap', position := send (receivers lv) (position lv) g, phase := Streaming items AtNext\<rparr> \<and>
    dispatched report' + dead_lettered report' = dispatched report + dead_lettered report + length work"
  using assms
proof (induction work arbitrary: lv report)
  case Nil
  then show ?case by (simp add: poll_step_def)
next
  case (Cons x work)
  obtain envelope p where x: "x = (envelope, p)" by fastforce
  obtain report1 ap1 where one: "dispatch_one N p envelope (report, live_app lv) = (Inr report1, ap1)"
    and rest: "dispatch_all N work (report1, ap1) = (Inr report', ap')"
    using Cons.prems(2) x by (auto split: prod.splits sum.splits)
  note d = live_dispatch_one_round [OF one]
  let ?lv1 = "lv\<lparr>live_app := ap1, phase := Streaming items (Dispatching g work)\<rparr>"
  have "poll_step N cfg send lv = ?lv1"
    using Cons.prems(1) x d(1) by (simp add: poll_step_def)
  moreover have "polls N cfg send (Suc (length work)) ?lv1 =
      ?lv1\<lparr>live_app := ap', position := send (receivers ?lv1) (position ?lv1) g, phase := Streaming items AtNext\<rparr> \<and>
    dispatched report' + dead_lettered report' = dispatched report1 + dead_lettered report1 + length work"
    by (rule Cons.IH) (use rest in simp_all)
  ultimately show ?case using d(2) by simp
qed

text \<open>A channel nobody listens to keeps its position.\<close>

lemma live_start_simps:
  "receivers (live_start cfg ap) = 0" "position (live_start cfg ap) = 0"
  by (simp_all add: live_start_def)

lemma stream_step_unheard:
  assumes "\<forall>old new. send 0 old new = old" and "receivers lv = 0"
  shows "position (stream_step N cfg send items pt lv) = position lv \<and>
    receivers (stream_step N cfg send items pt lv) = 0"
  using assms
  by (cases "(N, cfg, send, items, pt, lv)" rule: stream_step.cases)
    (auto simp: ended_step_def broken_step_def Let_def
      split: option.splits sub_content.splits prod.splits sum.splits)

lemma live_step_unheard:
  assumes "\<forall>old new. send 0 old new = old" and "receivers lv = 0" and "ev \<noteq> SubscribePosition"
  shows "position (live_step N cfg send ev lv) = position lv \<and> receivers (live_step N cfg send ev lv) = 0"
proof (cases ev)
  case Poll
  then show ?thesis
    using stream_step_unheard [where send = send, OF assms(1,2)] assms(2)
    by (cases "phase lv") (auto simp: poll_step_def connect_step_def Let_def split: sum.splits prod.splits)
next
  case Tick
  with assms(2) show ?thesis by (simp add: tick_step_def split: live_phase.splits)
next
  case Stop
  with assms(2) show ?thesis by (auto simp: shutdown_step_def split: live_phase.splits bool.splits)
qed (use assms in simp_all)

lemma run_unheard:
  assumes "\<forall>old new. send 0 old new = old" and "receivers lv = 0" and "SubscribePosition \<notin> set evs"
  shows "position (run_live_loop N cfg send evs lv) = position lv"
  using assms(2,3)
proof (induction evs arbitrary: lv)
  case (Cons ev evs)
  then have "ev \<noteq> SubscribePosition" by auto
  then have "position (live_step N cfg send ev lv) = position lv \<and>
    receivers (live_step N cfg send ev lv) = 0"
    by (rule live_step_unheard [where send = send, OF assms(1) Cons.prems(1)])
  with Cons show ?case by (simp add: run_live_loop_Cons)
qed (simp add: run_live_loop_def)

end
