(* ===== verification/Live_Properties.thy ===== *)
theory Live_Properties
  imports Live_Correct Store_Samples
begin

text \<open>
  The properties of the live loop: consumers are exact under redelivery and reconnection, the
  loop catches up, delays are bounded, shutdown completes with every checkpoint on disk; and
  what shutdown and reconnection do not do.
\<close>

subsection \<open>A sample loop\<close>

text \<open>A server that replays a fixed log to every subscription, and then ends the stream.\<close>

definition replay_rpc :: "mem_server rpc" where
  "replay_rpc = mem_rpc\<lparr>rpc_subscribe_all := (\<lambda>w md pos.
     (Inr (map (\<lambda>r. Inr \<lparr>content = Some (Event r)\<rparr>) (drop (unat pos) (mem_global sample_world)) @
        [Inr \<lparr>content = Some CaughtUp\<rparr>]), w))\<rparr>"

definition live_sample :: "(mem_server, counter, counter_command, counter_event, counter_error) config" where
  "live_sample = sample_config\<lparr>cfg_rpc := replay_rpc\<rparr>"

text \<open>A channel that takes every position.\<close>

definition open_channel :: watch_send where
  "open_channel n old new = new"

lemma live_sample_simps [simp]:
  "cfg_ext live_sample = env" "cfg_rpc live_sample = replay_rpc" "client live_sample = Plain"
  by (simp_all add: live_sample_def)

lemma replay_subscribe:
  "es_subscribe_all_from env replay_rpc Plain pos w =
    (Inr (map (\<lambda>r. Inr \<lparr>content = Some (Event r)\<rparr>) (drop (unat pos) (mem_global sample_world)) @
        [Inr \<lparr>content = Some CaughtUp\<rparr>]), w)"
  by (simp add: es_subscribe_all_from_def call_rpc_def replay_rpc_def)

lemma live_delivered_events:
  "live_delivered (map (\<lambda>r. Inr \<lparr>content = Some (Event r)\<rparr>) es @ [Inr \<lparr>content = Some CaughtUp\<rparr>]) = es"
  by (induction es) simp_all

lemma sample_before:
  assumes "r \<in> set (take (unat pos) (mem_global sample_world))"
  shows "re_global_position r < pos"
proof -
  obtain i where i: "i < unat pos" "i < length (mem_log sample_world)" "r = mem_global sample_world ! i"
    using assms by (auto simp: in_set_conv_nth mem_global_def)
  have "unat (of_nat i :: u64) = i" using i(1) unsigned_less [of pos, where ?'a = nat] by (simp add: unat_of_nat_u64)
  with i show ?thesis by (simp add: mem_global_nth word_less_nat_alt)
qed

lemma sample_live_setting: "live_setting live_sample (mem_global sample_world)"
  unfolding live_setting_def live_sample_simps replay_subscribe
proof (intro conjI allI impI)
  show "log_ok (mem_global sample_world)" by (rule sample_log_ok)
next
  fix pos :: u64 and w w' :: mem_server and items :: sub_stream
  assume "(Inr (map (\<lambda>r. Inr \<lparr>content = Some (Event r)\<rparr>) (drop (unat pos) (mem_global sample_world)) @
        [Inr \<lparr>content = Some CaughtUp\<rparr>]), w) = (Inr items, w')"
  then have items: "items = map (\<lambda>r. Inr \<lparr>content = Some (Event r)\<rparr>) (drop (unat pos) (mem_global sample_world)) @
        [Inr \<lparr>content = Some CaughtUp\<rparr>]"
    by (metis Pair_inject sum.inject(2))
  show "live_part (mem_global sample_world) (\<lambda>g. g < pos) items"
    unfolding live_part_def items live_delivered_events
    by (intro exI [of _ "unat pos"] exI [of _ "length (mem_global sample_world)"]) (simp add: sample_before)
qed

lemma open_channel_ok: "watch_ok open_channel"
  by (simp add: watch_ok_def open_channel_def)

lemma sample_consumers_ok: "consumers_ok env (mem_global sample_world) sample_app"
  using sample_consumers by (simp add: consumers_inv_def consumers_ok_def)

lemma sample_disk_setting: "disk_setting env sample_app"
proof -
  have "path_of ''/q'' \<noteq> path_of ''/p''" by (simp add: path_of_def)
  then show ?thesis
    using total_counter_good [OF env_ok] echo_good
    by (simp add: disk_setting_def sample_projection_def sample_pm_def)
qed

lemma sample_positions: "min_global_position sample_app = 0"
  by (simp add: min_global_position_def positions_def sample_projection_def sample_pm_def
      projection_position_def pm_position_def checkpoint_default_def pm_checkpoint_default_def)

text \<open>After two steps the task has the saga's answer to the first event to dispatch.\<close>

lemma sample_dispatching:
  "\<exists>items g envelope p work.
     phase (run_live_loop live_sample live_config_default open_channel [Poll, Poll, Signal]
       (live_start live_config_default sample_app)) = Streaming items (Dispatching g ((envelope, p) # work)) \<and>
     shutdown_seen (run_live_loop live_sample live_config_default open_channel [Poll, Poll, Signal]
       (live_start live_config_default sample_app))"
proof -
  let ?r0 = "mem_record (uuid_to_string env 7) 0 sample_event"
  let ?r1 = "mem_record (uuid_to_string env 7) 1 sample_event"
  let ?items = "[Inr \<lparr>content = Some (Event ?r1)\<rparr>, Inr \<lparr>content = Some CaughtUp\<rparr>]"
  let ?lv = "live_start live_config_default sample_app"
  have p1: "poll_step live_sample live_config_default open_channel ?lv =
      ?lv\<lparr>phase := Streaming (Inr \<lparr>content = Some (Event ?r0)\<rparr> # ?items) AtNext\<rparr>"
    by (simp add: poll_step_def live_start_def live_config_default_def connect_step_def sample_positions replay_subscribe sample_log)
  obtain s where s: "decode_stored_event env ?r0 = Some s" "se_aggregate_type s = ''counter''"
    using sample_decode by metis
  obtain e where "snd (react EchoSaga (pm_default EchoSaga) s) = [e]" using echo_one [OF s(2)] by blast
  then obtain x where x: "react EchoSaga (pm_default EchoSaga) s = (x, [e])" by (metis prod.collapse)
  obtain ap work where f: "fan_out_pms live_sample ?r0 (fan_out_projections live_sample ?r0 sample_app) = (ap, work)"
    by fastforce
  have "work = [(e, dead_letter_path (rpm_runner sample_pm))]"
    using f s x
    by (auto simp: fan_out_pms_def fan_out_projections_def sample_pm_def pm_react_event_def react_recorded_event_def
        pm_checkpoint_default_def dead_letter_path_def Let_def)
  then show ?thesis
    using p1 f by (simp add: run_live_loop_def poll_step_def live_start_def live_config_default_def)
qed

subsection \<open>Consumers\<close>

text \<open>
  In every reachable state of the loop, over any number of reconnections, redelivered
  events, dispatches, ticks and signals, every projection and process manager is the fold of a
  prefix of the log: no event is applied twice, skipped or out of order; and a position
  subscribers have been told is one every consumer is past.
\<close>

theorem live_consumers_exact:
  assumes "live_setting N log" and "watch_ok send" and "consumers_ok (cfg_ext N) log ap"
    and "live_reachable N cfg send (live_start cfg ap) lv"
  shows "consumers_ok (cfg_ext N) log (live_app lv) \<and>
    (position lv = 0 \<or> all_past (live_app lv) (position lv))"
  using live_reachable_inv [OF assms] by (simp add: live_inv_def)

theorem live_consumers_exact_witness:
  "consumers_ok env (mem_global sample_world) (live_app (run_live_loop live_sample live_config_default open_channel
     [Poll, Poll, Tick, Poll, Poll, Poll, Signal, Stop] (live_start live_config_default sample_app)))"
proof -
  have "live_reachable live_sample live_config_default open_channel (live_start live_config_default sample_app)
     (run_live_loop live_sample live_config_default open_channel [Poll, Poll, Tick, Poll, Poll, Poll, Signal, Stop]
       (live_start live_config_default sample_app))"
    using live_reachable_run by blast
  from live_consumers_exact [OF sample_live_setting open_channel_ok _ this] sample_consumers_ok
  show ?thesis by simp
qed

lemma live_reaches_end:
  assumes "live_setting N log" and "watch_ok send" and "consumers_ok (cfg_ext N) log ap"
    and "live_reachable N cfg send (live_start cfg ap) lv"
    and "phase lv = Connecting" and "\<not> shutdown_seen lv" and "clock ap \<noteq> None"
    and "es_subscribe_all_from (cfg_ext N) (cfg_rpc N) (client N) (min_global_position (live_app lv))
      (world (live_app lv)) = (Inr items, w)"
    and "live_delivered items = drop k log"
    and "\<forall>r \<in> set (take k log). re_global_position r < min_global_position (live_app lv)"
  shows "\<exists>n. let ap' = live_app (run_live_loop N cfg send (replicate n Poll) lv) in
    (\<forall>x \<in> set (projections ap'). projection_at (cfg_ext N) (rp_projection (snd x)) log (checkpoint (rp_runner (snd x)))) \<and>
    (\<forall>pm \<in> set (process_managers ap'). pm_at (cfg_ext N) (rpm_manager pm) log (pm_checkpoint (rpm_runner pm)))"
proof -
  have inv: "live_inv (cfg_ext N) log lv" by (rule live_reachable_inv [OF assms(1-4)])
  have clk: "clock (live_app lv) \<noteq> None" using live_reachable_outcome [OF assms(4)] assms(7) by simp
  let ?lv1 = "poll_step N cfg send lv"
  have lv1: "phase ?lv1 = Streaming items AtNext" "live_app ?lv1 = (live_app lv)\<lparr>world := w\<rparr>"
    using assms(5,6,8) by (simp_all add: poll_step_def connect_step_def)
  have inv1: "live_inv (cfg_ext N) log ?lv1"
    using live_step_inv [OF assms(1,2) inv, of cfg Poll] by simp
  have "clock (live_app ?lv1) \<noteq> None" using clk lv1(2) by simp
  then obtain n where n: "forward (live_app ?lv1) (live_app (polls N cfg send n ?lv1))"
    "\<forall>r \<in> set (live_delivered items). all_past (live_app (polls N cfg send n ?lv1)) (re_global_position r)"
    using stream_drains [OF assms(1,2) inv1 lv1(1)] by blast
  let ?ap = "live_app (polls N cfg send n ?lv1)"
  have "all_past (live_app lv) (re_global_position r)" if "r \<in> set (take k log)" for r
    using assms(10) that by (auto simp: all_past_def dest: min_global_position_le intro: less_le_trans)
  then have "all_past ?ap (re_global_position r)" if "r \<in> set (take k log)" for r
    using n(1) lv1(2) that same_consumers(2) [of "(live_app lv)\<lparr>world := w\<rparr>" "live_app lv"]
    by (simp add: forward_def)
  moreover have "all_past ?ap (re_global_position r)" if "r \<in> set (drop k log)" for r
    using n(2) assms(9) that by simp
  ultimately have past: "\<forall>r \<in> set log. all_past ?ap (re_global_position r)"
    by (metis Un_iff append_take_drop_id set_append)
  have ok: "log_ok log" using assms(1) by (simp add: live_setting_def)
  have cons: "consumers_ok (cfg_ext N) log ?ap"
    using polls_inv [OF assms(1,2) inv1, of cfg n] by (simp add: live_inv_def)
  have "projection_at (cfg_ext N) (rp_projection (snd x)) log (checkpoint (rp_runner (snd x)))"
    if x: "x \<in> set (projections ?ap)" for x
  proof -
    obtain es where es: "prefix es log" "projection_at (cfg_ext N) (rp_projection (snd x)) es (checkpoint (rp_runner (snd x)))"
      using cons x unfolding consumers_ok_def projection_ok_def by blast
    moreover have "\<forall>r \<in> set log. re_global_position r < end_position es"
      using past x es(2) unfolding all_past_iff projection_at_def projection_position_def by metis
    ultimately show ?thesis using past_all_end [OF ok] by metis
  qed
  moreover have "pm_at (cfg_ext N) (rpm_manager pm) log (pm_checkpoint (rpm_runner pm))"
    if pm: "pm \<in> set (process_managers ?ap)" for pm
  proof -
    obtain es where es: "prefix es log" "pm_at (cfg_ext N) (rpm_manager pm) es (pm_checkpoint (rpm_runner pm))"
      using cons pm unfolding consumers_ok_def pm_ok_def by blast
    moreover have "\<forall>r \<in> set log. re_global_position r < end_position es"
      using past pm es(2) unfolding all_past_iff pm_at_def pm_position_def by metis
    ultimately show ?thesis using past_all_end [OF ok] by metis
  qed
  moreover have "polls N cfg send (Suc n) lv = polls N cfg send n ?lv1" by simp
  ultimately show ?thesis
    by (intro exI [of _ "Suc n"]) (simp only: polls_def [symmetric] Let_def, blast)
qed

text \<open>
  C12. The loop catches up: from the top of the outer loop, when the subscription from the least
  position yields the rest of the log, some number of steps of the task brings every projection
  and process manager to the end of the log.
\<close>

theorem live_catches_up:
  assumes "live_setting N log" and "watch_ok send" and "consumers_ok (cfg_ext N) log ap"
    and "live_reachable N cfg send (live_start cfg ap) lv"
    and "phase lv = Connecting" and "\<not> shutdown_seen lv" and "clock ap \<noteq> None"
    and "es_subscribe_all_from (cfg_ext N) (cfg_rpc N) (client N) (min_global_position (live_app lv))
      (world (live_app lv)) = (Inr items, w)"
    and "live_delivered items = drop k log"
    and "\<forall>r \<in> set (take k log). re_global_position r < min_global_position (live_app lv)"
  shows "\<exists>n. let ap' = live_app (run_live_loop N cfg send (replicate n Poll) lv) in
    (\<forall>x \<in> set (projections ap'). projection_at (cfg_ext N) (rp_projection (snd x)) log (checkpoint (rp_runner (snd x)))) \<and>
    (\<forall>pm \<in> set (process_managers ap'). pm_at (cfg_ext N) (rpm_manager pm) log (pm_checkpoint (rpm_runner pm)))"
  using live_reaches_end [OF assms] .

theorem live_catches_up_witness:
  "\<exists>n. \<forall>x \<in> set (projections (live_app (run_live_loop live_sample live_config_default open_channel (replicate n Poll)
     (live_start live_config_default sample_app)))).
     projection_at env (rp_projection (snd x)) (mem_global sample_world) (checkpoint (rp_runner (snd x)))"
proof -
  let ?lv = "live_start live_config_default sample_app"
  have c: "consumers_ok (cfg_ext live_sample) (mem_global sample_world) sample_app"
    using sample_consumers_ok by simp
  have p: "phase ?lv = Connecting" "\<not> shutdown_seen ?lv" "clock sample_app \<noteq> None"
    by (simp_all add: live_start_def live_config_default_def)
  have sub: "es_subscribe_all_from (cfg_ext live_sample) (cfg_rpc live_sample) (client live_sample)
      (min_global_position (live_app ?lv)) (world (live_app ?lv)) =
    (Inr (map (\<lambda>r. Inr \<lparr>content = Some (Event r)\<rparr>)
        (drop (unat (min_global_position (live_app ?lv))) (mem_global sample_world)) @
        [Inr \<lparr>content = Some CaughtUp\<rparr>]), world (live_app ?lv))"
    by (simp add: replay_subscribe)
  from live_catches_up [OF sample_live_setting open_channel_ok c live_reachable.start p sub live_delivered_events]
    sample_before
  show ?thesis unfolding Let_def live_sample_simps by blast
qed

text \<open>
  C16. Pushed and pulled projections agree: from the same consumers, once the live loop has
  caught up with the log, \<open>live_projection\<close> returns what \<open>projection\<close> returns that pulls the log
  itself.
\<close>

theorem live_equals_pull:
  assumes "live_setting N log" and "watch_ok send" and "consumers_ok (cfg_ext N) log ap"
    and "live_reachable N cfg send (live_start cfg ap) lv"
    and "phase lv = Connecting" and "\<not> shutdown_seen lv" and "clock ap \<noteq> None"
    and "es_subscribe_all_from (cfg_ext N) (cfg_rpc N) (client N) (min_global_position (live_app lv))
      (world (live_app lv)) = (Inr items, w)"
    and "live_delivered items = drop k log"
    and "\<forall>r \<in> set (take k log). re_global_position r < min_global_position (live_app lv)"
    and "map_of (projections ap) (NAME P) = Some rp"
    and "es_subscribe_all_from (cfg_ext N) (cfg_rpc N) (client N) (projection_position (rp_runner rp)) (world ap) =
      (Inr pulled, w')"
    and "delivers log (projection_position (rp_runner rp)) pulled" and "failure pulled = None"
    and "fst (store_projection N P tid ap) = Inr x"
  shows "\<exists>n. fst (live_projection N P tid True (live_app (run_live_loop N cfg send (replicate n Poll) lv))) =
    fst (store_projection N P tid ap)"
proof -
  let ?E = "cfg_ext N" and ?Q = "rp_projection rp"
  obtain q rn w1 F where c: "projection_catch_up ?E ?Q (cfg_rpc N) (client N) (rp_runner rp) (world ap) (app_fs ap) =
      (q, rn, w1, F)" by (metis prod_cases4)
  have "(NAME P, rp) \<in> set (projections ap)" using assms(11) by (rule map_of_SomeD)
  then obtain es fs where es: "log = es @ fs" "projection_at ?E ?Q es (checkpoint (rp_runner rp))"
    using assms(3) unfolding consumers_ok_def projection_ok_def prefix_def by fastforce
  have ok: "log_ok (es @ fs)" using assms(1) es(1) by (simp add: live_setting_def)
  have pulled_at: "projection_at ?E ?Q log (checkpoint rn)"
    using projection_catch_up_step [OF ok es(2) assms(12) _ assms(14) c] assms(13) es(1) by simp
  have pull: "rp_type rp = tid" "fst (store_projection N P tid ap) = Inr (projection_state_any rn)"
    using assms(11,15) c by (auto simp: store_projection_def Let_def split: sum.splits if_splits)
  obtain n where n: "\<forall>y \<in> set (projections (live_app (run_live_loop N cfg send (replicate n Poll) lv))).
      projection_at ?E (rp_projection (snd y)) log (checkpoint (rp_runner (snd y)))"
    using live_reaches_end [OF assms(1-10)] by (auto simp: Let_def)
  let ?ap = "live_app (run_live_loop N cfg send (replicate n Poll) lv)"
  have "live_reachable N cfg send (live_start cfg ap) (run_live_loop N cfg send (replicate n Poll) lv)"
    using assms(4) unfolding live_reachable_run by (metis run_live_loop_def foldl_append)
  from live_reachable_setting [OF this] have "same_setting ap ?ap" by (simp add: live_start_def)
  then obtain rp' where rp': "map_of (projections ?ap) (NAME P) = Some rp'" "rp_type rp' = tid" "rp_projection rp' = ?Q"
    using same_setting_map_of [OF _ assms(11)] pull(1) by metis
  have "projection_at ?E ?Q log (checkpoint (rp_runner rp'))" using n map_of_SomeD [OF rp'(1)] rp'(3) by force
  with pulled_at have "projection_state_any (rp_runner rp') = projection_state_any rn"
    by (simp add: projection_at_def projection_state_any_def)
  with rp' pull(2) show ?thesis by (intro exI [of _ n]) (simp add: live_projection_def)
qed

theorem live_equals_pull_witness:
  "\<exists>n x. fst (store_projection live_sample TotalCounter 0 sample_app) = Inr x \<and>
     fst (live_projection live_sample TotalCounter 0 True (live_app (run_live_loop live_sample live_config_default
       open_channel (replicate n Poll) (live_start live_config_default sample_app)))) = Inr x"
proof -
  let ?lv = "live_start live_config_default sample_app" and ?rp = "snd sample_projection"
  let ?items = "\<lambda>pos. map (\<lambda>r. Inr \<lparr>content = Some (Event r)\<rparr>) (drop (unat pos) (mem_global sample_world)) @
        [Inr \<lparr>content = Some CaughtUp\<rparr>]"
  have c: "consumers_ok (cfg_ext live_sample) (mem_global sample_world) sample_app"
    using sample_consumers_ok by simp
  have p: "phase ?lv = Connecting" "\<not> shutdown_seen ?lv" "clock sample_app \<noteq> None"
    by (simp_all add: live_start_def live_config_default_def)
  have sub: "es_subscribe_all_from (cfg_ext live_sample) (cfg_rpc live_sample) (client live_sample) pos w =
    (Inr (?items pos), w)" for pos w by (simp add: replay_subscribe)
  have of_rp: "map_of (projections sample_app) (NAME TotalCounter) = Some ?rp"
    by (simp add: sample_projection_def TotalCounter_def)
  have d: "delivers (mem_global sample_world) pos (?items pos)" for pos
    unfolding delivers_def delivered_map_events using sample_before by blast
  have nf: "failure (map (\<lambda>r. Inr \<lparr>content = Some (Event r)\<rparr>) es @ [Inr \<lparr>content = Some CaughtUp\<rparr>]) = None" for es
    by (induction es) simp_all
  have at: "projection_at env TotalCounter [] (checkpoint (rp_runner ?rp))"
    by (simp add: sample_projection_def projection_at_default)
  have ok: "log_ok ([] @ mem_global sample_world)" using sample_log_ok by simp
  have sub': "es_subscribe_all_from env replay_rpc Plain (projection_position (rp_runner ?rp)) sample_world =
      (Inr (?items (projection_position (rp_runner ?rp))), sample_world)"
    by (rule replay_subscribe)
  have disk: "empty_disk = clear_disk" by (simp add: empty_disk_def clear_disk_def)
  obtain rn F where "projection_catch_up env TotalCounter replay_rpc Plain (rp_runner ?rp) sample_world empty_disk =
      (Inr (), rn, sample_world, F)"
    using clear_catch_up [OF ok at sub' _ nf] d unfolding disk by fastforce
  then obtain x where x: "fst (store_projection live_sample TotalCounter 0 sample_app) = Inr x"
    using of_rp by (simp add: store_projection_def sample_projection_def)
  from live_equals_pull [OF sample_live_setting open_channel_ok c live_reachable.start p sub live_delivered_events _ of_rp sub d nf x]
    sample_before x
  show ?thesis by metis
qed

text \<open>
  The loop subscribes where no consumer misses anything: at or before the position of every
  projection and process manager, and not before all of them, unless it starts at 0.
\<close>

theorem subscription_position:
  "(\<forall>p \<in> set (positions ap). min_global_position ap \<le> p) \<and>
    (min_global_position ap = 0 \<or> min_global_position ap \<in> set (positions ap))"
  using min_global_position_le min_global_position_in by blast

theorem subscription_position_witness: "min_global_position sample_app \<le> 0"
proof -
  have "0 \<in> set (positions sample_app)"
    by (simp add: positions_def sample_pm_def pm_position_def pm_checkpoint_default_def)
  then show ?thesis using subscription_position [of sample_app] by blast
qed

text \<open>
  C17. The live loop dispatches the reactions to an event as a round of the process managers
  does: fanning the event out and then dispatching its envelopes in order, with the same calls,
  dead letters and final state, whenever the dispatch of the round succeeds. It takes one step
  for the event, one for each envelope and one to tell the position, every envelope has one
  outcome, and the stream goes on with the next item.
\<close>

theorem live_dispatch_equals_round:
  assumes "phase lv = Streaming (Inr resp # items) AtNext" and "content resp = Some (Event recorded)"
    and "fan_out_pms N recorded (fan_out_projections N recorded (live_app lv)) = (ap, work)"
    and "dispatch_all N work (report, ap) = (Inr report', ap')"
  shows "run_live_loop N cfg send (replicate (length work + 2) Poll) lv =
      lv\<lparr>live_app := ap', position := send (receivers lv) (position lv) (re_global_position recorded),
         phase := Streaming items AtNext\<rparr> \<and>
    dispatched report' + dead_lettered report' = dispatched report + dead_lettered report + length work"
proof -
  let ?lv1 = "lv\<lparr>live_app := ap, phase := Streaming items (Dispatching (re_global_position recorded) work)\<rparr>"
  have "poll_step N cfg send lv = ?lv1" using assms(1-3) by (simp add: poll_step_def)
  then have "polls N cfg send (length work + 2) lv = polls N cfg send (Suc (length work)) ?lv1"
    using polls_add [of N cfg send 1 "Suc (length work)" lv] by simp
  with dispatching_drains [of ?lv1 items "re_global_position recorded" work N report report' ap' cfg send] assms(4)
  show ?thesis by (simp add: polls_def)
qed

lemma sample_fan_out:
  obtains ap e where "fan_out_pms live_sample (mem_record (uuid_to_string env 7) 0 sample_event)
      (fan_out_projections live_sample (mem_record (uuid_to_string env 7) 0 sample_event) sample_app) =
      (ap, [(e, dead_letter_path (rpm_runner sample_pm))])"
    "env_aggregate_type e = ''target''" "app_fs ap = empty_disk" "clock ap = Some 0"
proof -
  let ?r0 = "mem_record (uuid_to_string env 7) 0 sample_event"
  obtain s where s: "decode_stored_event env ?r0 = Some s" "se_aggregate_type s = ''counter''"
    using sample_decode by metis
  obtain e where "snd (react EchoSaga (pm_default EchoSaga) s) = [e]" using echo_one [OF s(2)] by blast
  then obtain x where x: "react EchoSaga (pm_default EchoSaga) s = (x, [e])" by (metis prod.collapse)
  have "env_aggregate_type e = ''target''"
    using x by (auto simp: EchoSaga_def echo_react_def Let_def split: if_splits)
  with s x that show ?thesis
    by (auto simp: fan_out_pms_def fan_out_projections_def sample_pm_def pm_react_event_def react_recorded_event_def
        pm_checkpoint_default_def dead_letter_path_def Let_def)
qed

theorem live_dispatch_equals_round_witness:
  "phase (run_live_loop live_sample live_config_default open_channel (replicate 3 Poll)
     ((live_start live_config_default sample_app)\<lparr>phase := Streaming
        [Inr \<lparr>content = Some (Event (mem_record (uuid_to_string env 7) 0 sample_event))\<rparr>] AtNext\<rparr>)) = Streaming [] AtNext"
proof -
  let ?r0 = "mem_record (uuid_to_string env 7) 0 sample_event"
  let ?resp = "\<lparr>content = Some (Event ?r0)\<rparr>"
  let ?lv = "(live_start live_config_default sample_app)\<lparr>phase := Streaming [Inr ?resp] AtNext\<rparr>"
  obtain ap e where f: "fan_out_pms live_sample ?r0 (fan_out_projections live_sample ?r0 sample_app) =
      (ap, [(e, dead_letter_path (rpm_runner sample_pm))])"
    and e: "env_aggregate_type e = ''target''" "app_fs ap = empty_disk" "clock ap = Some 0"
    by (rule sample_fan_out)
  have "path_parent (dead_letter_path (rpm_runner sample_pm)) \<noteq> None"
    by (simp add: dead_letter_path_def sample_pm_def path_join_simple path_of_simple simple_name_def path_parent_def)
  then obtain report' F where d: "dispatch_all live_sample [(e, dead_letter_path (rpm_runner sample_pm))]
      (report_default, ap) = (Inr report', ap\<lparr>app_fs := F\<rparr>)"
    using dispatch_all_unhandled [of live_sample ap 0 "[(e, dead_letter_path (rpm_runner sample_pm))]" report_default] e
    by (auto simp: live_sample_def)
  have p: "phase ?lv = Streaming (Inr ?resp # []) AtNext" and c: "content ?resp = Some (Event ?r0)" by simp_all
  have f': "fan_out_pms live_sample ?r0 (fan_out_projections live_sample ?r0 (live_app ?lv)) =
      (ap, [(e, dead_letter_path (rpm_runner sample_pm))])" using f by (simp add: live_start_def)
  from live_dispatch_equals_round [OF p c f' d, of live_config_default open_channel]
  have "run_live_loop live_sample live_config_default open_channel (replicate 3 Poll) ?lv =
      ?lv\<lparr>live_app := ap\<lparr>app_fs := F\<rparr>, position := open_channel (receivers ?lv) (position ?lv) (re_global_position ?r0),
         phase := Streaming [] AtNext\<rparr>"
    by (simp add: eval_nat_numeral)
  then show ?thesis by simp
qed

subsection \<open>Outcomes and delays\<close>



text \<open>
  C31. The delay before a reconnection is the base delay or a power of two of it, capped at the
  maximum; so with a base within the maximum it never leaves the two.
\<close>

theorem live_backoff_bounds:
  assumes "live_reachable N cfg send (live_start cfg ap) lv"
  shows "(backoff_delay lv = reconnect_base_delay cfg \<or>
      (\<exists>n. backoff_delay lv = min (2 ^ n * reconnect_base_delay cfg) (reconnect_max_delay cfg))) \<and>
    (reconnect_base_delay cfg \<le> reconnect_max_delay cfg \<longrightarrow>
      reconnect_base_delay cfg \<le> backoff_delay lv \<and> backoff_delay lv \<le> reconnect_max_delay cfg)"
proof -
  have "backoff_inv cfg (backoff_delay lv)"
    using assms
  proof induction
    case start
    show ?case by (simp add: backoff_inv_def live_start_def)
  next
    case (step lv ev)
    then show ?case by (intro live_step_backoff)
  qed
  then show ?thesis by (auto simp: backoff_inv_def)
qed

theorem live_backoff_bounds_witness:
  "backoff_delay (run_live_loop live_sample live_config_default open_channel [Poll, Poll, Poll, Poll]
     (live_start live_config_default sample_app)) \<le> 30000"
proof -
  have "live_reachable live_sample live_config_default open_channel (live_start live_config_default sample_app)
     (run_live_loop live_sample live_config_default open_channel [Poll, Poll, Poll, Poll]
       (live_start live_config_default sample_app))"
    using live_reachable_run by blast
  from live_backoff_bounds [OF this] show ?thesis by (simp add: live_config_default_def)
qed

subsection \<open>Shutdown\<close>



text \<open>
  C18. A shutdown between the reaction to an event and the dispatch of its commands loses them:
  the checkpoints it saves are past the event, nothing is dispatched or dead-lettered any more,
  and a manager loaded from them does not react to the event again.
\<close>

theorem shutdown_loses_commands:
  assumes "live_setting N log" and "watch_ok send" and "consumers_ok (cfg_ext N) log ap"
    and "disk_setting (cfg_ext N) ap" and "live_reachable N cfg send (live_start cfg ap) lv"
    and "phase lv = Streaming items (Dispatching g work)" and "shutdown_seen lv"
    and "lv' = run_live_loop N cfg send (Stop # evs) lv"
    and "pm \<in> set (process_managers (live_app lv'))"
    and "pm_runner_new (cfg_ext N) (rpm_manager pm) (pm_checkpoint_dir (rpm_runner pm)) (app_fs (live_app lv')) = Inr rn"
    and "re_global_position recorded = g"
  shows "phase lv' = Returned (Inr ()) \<and> world (live_app lv') = world (live_app lv) \<and>
    cache (live_app lv') = cache (live_app lv) \<and>
    (\<forall>p. log_name p \<longrightarrow> files (app_fs (live_app lv')) p = files (app_fs (live_app lv)) p) \<and>
    pm_react_event (cfg_ext N) (rpm_manager pm) recorded rn = (rn, [])"
proof -
  let ?saved = "save_all_checkpoints N (live_app lv)"
  have stuck: "phase (run_live_loop N cfg send es l) = Returned r \<and>
      live_app (run_live_loop N cfg send es l) = live_app l" if "phase l = Returned r" for es l r
    using that
  proof (induction es arbitrary: l)
    case (Cons e es)
    have "phase (live_step N cfg send e l) = Returned r \<and> live_app (live_step N cfg send e l) = live_app l"
      using Cons.prems by (cases e) (simp_all add: poll_step_def tick_step_def shutdown_step_def)
    with Cons.IH show ?case by (simp add: run_live_loop_Cons)
  qed (simp add: run_live_loop_def)
  have "phase (live_step N cfg send Stop lv) = Returned (Inr ())" "live_app (live_step N cfg send Stop lv) = ?saved"
    using assms(6,7) by (simp_all add: shutdown_step_def)
  with stuck [OF this(1), of evs] assms(8) have lv': "phase lv' = Returned (Inr ())" "live_app lv' = ?saved"
    by (simp_all add: run_live_loop_Cons)
  have set: "disk_setting (cfg_ext N) (live_app lv)"
    using live_reachable_disk [OF assms(4,5)] by (simp add: disk_inv_live_def)
  have files: "files (app_fs ?saved) p = files (app_fs (live_app lv)) p" if "log_name p" for p
    by (rule save_all_files) (use that names_differ(1) in blast)
  have pm: "pm \<in> set (process_managers (live_app lv))" using assms(9) lv'(2) by (simp add: save_all_same)
  have "load_pm_checkpoint (cfg_ext N) (rpm_manager pm) (pm_checkpoint_dir (rpm_runner pm)) (app_fs ?saved) =
      Inr (Some (pm_checkpoint (rpm_runner pm)))"
    using save_all_saved [OF set] pm by (simp add: all_saved_def save_all_same)
  then have rn: "pm_checkpoint rn = pm_checkpoint (rpm_runner pm)"
    using assms(10) lv'(2) by (auto simp: pm_runner_new_def)
  have "all_past (live_app lv) g"
    using live_reachable_inv [OF assms(1-3,5)] assms(6) by (simp add: live_inv_def)
  then have "g < pm_position rn" using pm rn by (auto simp: all_past_iff pm_position_def)
  then have "pm_react_event (cfg_ext N) (rpm_manager pm) recorded rn = (rn, [])"
    using assms(11) by (cases rn; cases "pm_checkpoint rn")
      (simp add: pm_react_event_def react_recorded_event_def pm_position_def)
  with lv' files show ?thesis by (simp add: save_all_same)
qed

lemma stop_while_streaming:
  "phase lv = Streaming items pt \<Longrightarrow> shutdown_seen lv \<Longrightarrow>
    phase (run_live_loop N cfg send [Stop, Poll] lv) = Returned (Inr ())"
  by (simp add: run_live_loop_def shutdown_step_def poll_step_def)

theorem shutdown_loses_commands_witness:
  "\<exists>items g envelope p work. let lv = run_live_loop live_sample live_config_default open_channel [Poll, Poll, Signal]
       (live_start live_config_default sample_app) in
     phase lv = Streaming items (Dispatching g ((envelope, p) # work)) \<and>
     cache (live_app (run_live_loop live_sample live_config_default open_channel [Stop, Poll] lv)) = cache (live_app lv)"
proof -
  let ?lv = "run_live_loop live_sample live_config_default open_channel [Poll, Poll, Signal]
       (live_start live_config_default sample_app)"
  let ?lv' = "run_live_loop live_sample live_config_default open_channel [Stop, Poll] ?lv"
  obtain items g envelope p work where ph: "phase ?lv = Streaming items (Dispatching g ((envelope, p) # work))"
    and sg: "shutdown_seen ?lv"
    using sample_dispatching by metis
  have r: "live_reachable live_sample live_config_default open_channel (live_start live_config_default sample_app) ?lv"
    using live_reachable_run by blast
  have r': "live_reachable live_sample live_config_default open_channel (live_start live_config_default sample_app) ?lv'"
    using live_reachable_run by (metis run_live_loop_def foldl_append)
  have "same_setting sample_app (live_app ?lv')"
    using live_reachable_setting [OF r'] by (simp add: live_start_def)
  then obtain pm where pm: "pm \<in> set (process_managers (live_app ?lv'))"
    by (cases "process_managers (live_app ?lv')") (auto simp: same_setting_def)
  have "phase ?lv' = Returned (Inr ())" by (rule stop_while_streaming [OF ph sg])
  then have saved: "all_saved env (live_app ?lv')"
    using live_reachable_disk [OF _ r'] sample_disk_setting by (simp add: disk_inv_live_def)
  obtain rn where "pm_runner_new env (rpm_manager pm) (pm_checkpoint_dir (rpm_runner pm)) (app_fs (live_app ?lv')) = Inr rn"
    using saved pm by (auto simp: all_saved_def pm_runner_new_def)
  then have n: "pm_runner_new (cfg_ext live_sample) (rpm_manager pm) (pm_checkpoint_dir (rpm_runner pm)) (app_fs (live_app ?lv')) = Inr rn"
    by simp
  have d: "disk_setting (cfg_ext live_sample) sample_app" and c: "consumers_ok (cfg_ext live_sample) (mem_global sample_world) sample_app"
    using sample_disk_setting sample_consumers_ok by simp_all
  have "re_global_position (mem_record s 0 sample_event\<lparr>re_global_position := g\<rparr>) = g" for s by simp
  from shutdown_loses_commands [OF sample_live_setting open_channel_ok c d r ph sg refl pm n this] ph
  show ?thesis by (auto simp: Let_def)
qed

subsection \<open>Reconnection\<close>

text \<open>
  Catching up does not reset the delay: a stream that delivers the caught-up marker and then
  breaks is followed by a wait of the current delay, which doubles.
\<close>

theorem caught_up_keeps_backoff:
  assumes "phase lv = Streaming (Inr resp # Inl e # items) AtNext" and "content resp = Some CaughtUp"
  shows "let lv' = run_live_loop N cfg send [Poll, Poll, Poll] lv in
    caught_up lv' \<and> phase lv' = Connecting \<and>
    backoff_delay lv' = min (2 * backoff_delay lv) (reconnect_max_delay cfg)"
  using assms
  by (simp add: run_live_loop_def poll_step_def broken_step_def double_backoff_def Let_def mult.commute)

theorem caught_up_keeps_backoff_witness:
  "backoff_delay (run_live_loop live_sample live_config_default open_channel [Poll, Poll, Poll]
     ((live_start live_config_default sample_app)\<lparr>phase := Streaming [Inr \<lparr>content = Some CaughtUp\<rparr>, Inl (status_new GUnavailable ''connection lost'')] AtNext\<rparr>)) = 2000"
proof -
  let ?lv = "(live_start live_config_default sample_app)\<lparr>phase :=
      Streaming [Inr \<lparr>content = Some CaughtUp\<rparr>, Inl (status_new GUnavailable ''connection lost'')] AtNext\<rparr>"
  have p: "phase ?lv = Streaming [Inr \<lparr>content = Some CaughtUp\<rparr>, Inl (status_new GUnavailable ''connection lost'')] AtNext"
    by simp
  have c: "content \<lparr>content = Some CaughtUp\<rparr> = Some CaughtUp" by simp
  from caught_up_keeps_backoff [OF p c, of live_sample live_config_default open_channel]
  show ?thesis by (simp add: Let_def live_start_def live_config_default_def)
qed

text \<open>
  C39. A stream that ends is reconnected at once, also when the loop has never caught up: against
  a server that ends every stream immediately the loop never waits, however long it runs.
\<close>

theorem ended_streams_never_wait:
  assumes "phase lv = Connecting" and "\<not> shutdown_seen lv"
    and "\<And>pos w. es_subscribe_all_from (cfg_ext N) (cfg_rpc N) (client N) pos w = (Inr [], w)"
  shows "phase (run_live_loop N cfg send (replicate n Poll) lv) \<noteq> Sleeping saved \<and>
    phase (run_live_loop N cfg send (replicate n Poll) lv) = (if even n then Connecting else Streaming [] AtNext)"
proof -
  let ?I = "\<lambda>n lv. phase lv = (if even n then Connecting else Streaming [] AtNext) \<and> \<not> shutdown_seen lv"
  have "?I n (polls N cfg send n lv)"
  proof (induction n)
    case 0
    with assms(1,2) show ?case by simp
  next
    case (Suc n)
    have "polls N cfg send (Suc n) lv = poll_step N cfg send (polls N cfg send n lv)"
      using polls_add [of N cfg send n 1 lv] by (simp add: One_nat_def)
    with Suc assms(3) show ?case
      by (cases "even n") (simp_all add: poll_step_def connect_step_def ended_step_def)
  qed
  then show ?thesis by (simp add: polls_def)
qed

text \<open>A server that ends every stream immediately.\<close>

definition silent_rpc :: "mem_server rpc" where
  "silent_rpc = mem_rpc\<lparr>rpc_subscribe_all := (\<lambda>w md pos. (Inr [], w))\<rparr>"

theorem ended_streams_never_wait_witness:
  "phase (run_live_loop (sample_config\<lparr>cfg_rpc := silent_rpc\<rparr>) live_config_default open_channel
     (replicate 1000 Poll) (live_start live_config_default sample_app)) = Connecting"
proof -
  let ?N = "sample_config\<lparr>cfg_rpc := silent_rpc\<rparr>"
  have "es_subscribe_all_from (cfg_ext ?N) (cfg_rpc ?N) (client ?N) pos w = (Inr [], w)" for pos w
    by (simp add: es_subscribe_all_from_def call_rpc_def silent_rpc_def)
  from ended_streams_never_wait [OF _ _ this, of "live_start live_config_default sample_app" live_config_default open_channel 1000]
  show ?thesis by (simp add: live_start_def live_config_default_def)
qed

text \<open>
  The position channel starts without receivers: as long as nobody subscribes, a channel
  that refuses a value nobody receives stays at 0, whatever the loop has processed, so the first
  subscriber reads 0 and not the position of the last event.
\<close>

theorem late_subscriber_reads_zero:
  assumes "\<forall>old new. send 0 old new = old" and "SubscribePosition \<notin> set evs"
  shows "fst (live_subscribe (run_live_loop N cfg send evs (live_start cfg ap))) = 0"
proof -
  have "position (run_live_loop N cfg send evs (live_start cfg ap)) = 0"
    using run_unheard [where send = send and lv = "live_start cfg ap", OF assms(1) _ assms(2)] by (simp add: live_start_simps)
  then show ?thesis by simp
qed

text \<open>A channel that refuses what nobody receives.\<close>

definition closed_channel :: watch_send where
  "closed_channel n old new = (if n = 0 then old else new)"

theorem late_subscriber_reads_zero_witness:
  "fst (live_subscribe (run_live_loop live_sample live_config_default closed_channel
     [Poll, Poll, Poll, Poll, Poll, Poll] (live_start live_config_default sample_app))) = 0"
  by (rule late_subscriber_reads_zero) (simp_all add: closed_channel_def)

end
