(* ===== verification/Builder.thy ===== *)
theory Builder
  imports Live
begin

text \<open>
  The builder of \<^verbatim>\<open>src/store.rs\<close>: the registered types, the defaults, and \<open>open\<close>, which
  connects, loads every checkpoint and fills the maps. Connecting is a parameter; a token is
  present or not (its content is in the lock of the transport).
\<close>

definition DEFAULT_IDLE_TIMEOUT :: nat where
  "DEFAULT_IDLE_TIMEOUT = 300000"

record ('c, 'err, 'p, 'q) builder =
  b_endpoint :: "string option"
  b_base_dir :: "path option"
  b_auth_token :: bool
  projection_factories :: "(string \<times> nat \<times> 'p projection) list"
  process_manager_factories :: "(string \<times> 'q process_manager) list"
  dispatcher_factories :: "(string \<times> ('c, 'err) dispatcher) list"
  b_idle_timeout :: nat
  b_live_config :: live_config

definition builder_new :: "('c, 'err, 'p, 'q) builder" where
  "builder_new =
     \<lparr>b_endpoint = None, b_base_dir = None, b_auth_token = False, projection_factories = [],
      process_manager_factories = [], dispatcher_factories = [],
      b_idle_timeout = DEFAULT_IDLE_TIMEOUT, b_live_config = live_config_default\<rparr>"

definition with_endpoint :: "string \<Rightarrow> ('c, 'err, 'p, 'q) builder \<Rightarrow> ('c, 'err, 'p, 'q) builder" where
  "with_endpoint url b = b\<lparr>b_endpoint := Some url\<rparr>"

definition with_auth_token :: "('c, 'err, 'p, 'q) builder \<Rightarrow> ('c, 'err, 'p, 'q) builder" where
  "with_auth_token b = b\<lparr>b_auth_token := True\<rparr>"

definition with_base_dir :: "path \<Rightarrow> ('c, 'err, 'p, 'q) builder \<Rightarrow> ('c, 'err, 'p, 'q) builder" where
  "with_base_dir p b = b\<lparr>b_base_dir := Some p\<rparr>"

text \<open>\<open>D\<close> is the dispatcher the factory makes, \<open>ty\<close> the \<open>AGGREGATE_TYPE\<close> it is registered by.\<close>

definition aggregate_type ::
  "string \<Rightarrow> ('c, 'err) dispatcher \<Rightarrow> ('c, 'err, 'p, 'q) builder \<Rightarrow> ('c, 'err, 'p, 'q) builder" where
  "aggregate_type ty D b = b\<lparr>dispatcher_factories := dispatcher_factories b @ [(ty, D)]\<rparr>"

definition with_projection ::
  "nat \<Rightarrow> 'p projection \<Rightarrow> ('c, 'err, 'p, 'q) builder \<Rightarrow> ('c, 'err, 'p, 'q) builder" where
  "with_projection tid P b =
     b\<lparr>projection_factories := projection_factories b @ [(NAME P, tid, P)]\<rparr>"

definition with_process_manager ::
  "'q process_manager \<Rightarrow> ('c, 'err, 'p, 'q) builder \<Rightarrow> ('c, 'err, 'p, 'q) builder" where
  "with_process_manager P b =
     b\<lparr>process_manager_factories := process_manager_factories b @ [(PM_NAME P, P)]\<rparr>"

definition with_idle_timeout :: "nat \<Rightarrow> ('c, 'err, 'p, 'q) builder \<Rightarrow> ('c, 'err, 'p, 'q) builder" where
  "with_idle_timeout t b = b\<lparr>b_idle_timeout := t\<rparr>"

definition with_live_config ::
  "live_config \<Rightarrow> ('c, 'err, 'p, 'q) builder \<Rightarrow> ('c, 'err, 'p, 'q) builder" where
  "with_live_config cfg b = b\<lparr>b_live_config := cfg\<rparr>"

subsection \<open>Opening\<close>

text \<open>\<open>HashMap::insert\<close>: a later registration of a name replaces the earlier one.\<close>

fun map_put :: "string \<Rightarrow> 'b \<Rightarrow> (string \<times> 'b) list \<Rightarrow> (string \<times> 'b) list" where
  "map_put k v [] = [(k, v)]"
| "map_put k v ((k', v') # m) = (if k = k' then (k, v) # m else (k', v') # map_put k v m)"

definition projection_checkpoint_dir :: "path \<Rightarrow> string \<Rightarrow> path" where
  "projection_checkpoint_dir base name = path_join (path_join base ''projections'') name"

definition pm_dir :: "path \<Rightarrow> string \<Rightarrow> path" where
  "pm_dir base name = path_join (path_join base ''process_managers'') name"

fun open_projections ::
  "ext \<Rightarrow> path \<Rightarrow> fs \<Rightarrow> (string \<times> nat \<times> 'p projection) list
    \<Rightarrow> (string \<times> 'p registered_projection) list
    \<Rightarrow> string + (string \<times> 'p registered_projection) list" where
  "open_projections E base F [] m = Inr m"
| "open_projections E base F ((name, tid, P) # fs) m =
     (case projection_runner_new E P (projection_checkpoint_dir base (NAME P)) F of
        Inl e \<Rightarrow> Inl ''projection initialization should not fail''
      | Inr rn \<Rightarrow>
          open_projections E base F fs
            (map_put name \<lparr>rp_type = tid, rp_projection = P, rp_runner = rn\<rparr> m))"

fun open_pms ::
  "ext \<Rightarrow> path \<Rightarrow> fs \<Rightarrow> (string \<times> 'q process_manager) list \<Rightarrow> string + 'q registered_pm list" where
  "open_pms E base F [] = Inr []"
| "open_pms E base F ((name, P) # fs) =
     (case pm_runner_new E P (pm_dir base (PM_NAME P)) F of
        Inl e \<Rightarrow> Inl ''process manager initialization should not fail''
      | Inr rn \<Rightarrow>
          (case open_pms E base F fs of
             Inl m \<Rightarrow> Inl m
           | Inr pms \<Rightarrow> Inr (\<lparr>rpm_manager = P, rpm_runner = rn\<rparr> # pms)))"

definition dispatcher_map :: "(string \<times> ('c, 'err) dispatcher) list \<Rightarrow> string \<Rightarrow> ('c, 'err) dispatcher option" where
  "dispatcher_map fs = foldl (\<lambda>m (name, D). m(name \<mapsto> D)) Map.empty fs"

text \<open>
  \<open>N0\<close> carries what the environment supplies: the dependencies, the transport, the types. The
  result is the configuration and state of the store; \<open>connect\<close> may refuse.
\<close>

definition open_store ::
  "(string \<Rightarrow> es_client \<Rightarrow> 'terr option) \<Rightarrow> path \<Rightarrow> ('w, 'a, 'c, 'e, 'err) config
    \<Rightarrow> ('c, 'err, 'p, 'q) builder \<Rightarrow> 'w \<Rightarrow> fs \<Rightarrow> bool list \<Rightarrow> u64 option
    \<Rightarrow> 'terr fault + ('w, 'a, 'c, 'e, 'err) config \<times> ('w, 'a, 'p, 'q) app" where
  "open_store connect temp_dir N0 b w F schedule now =
     (let endpoint = (case b_endpoint b of Some url \<Rightarrow> url | None \<Rightarrow> ''http://127.0.0.1:2113'')
      in case (if b_auth_token b then es_connect_with_token connect endpoint
               else es_connect connect endpoint) of
           Inl e \<Rightarrow> Inl (Raised e)
         | Inr c \<Rightarrow>
             (let base = (case b_base_dir b of
                   Some p \<Rightarrow> p | None \<Rightarrow> path_join temp_dir ''eventfold-es'')
              in case open_projections (cfg_ext N0) base F (projection_factories b) [] of
                   Inl m \<Rightarrow> Inl (Panicked m)
                 | Inr ps \<Rightarrow>
                     (case open_pms (cfg_ext N0) base F (process_manager_factories b) of
                        Inl m \<Rightarrow> Inl (Panicked m)
                      | Inr pms \<Rightarrow>
                          Inr (N0\<lparr>client := c, cfg_base_dir := base,
                                  dispatchers := dispatcher_map (dispatcher_factories b)\<rparr>,
                               \<lparr>world = w, app_fs = F, cache = Map.empty, projections = ps,
                                process_managers = pms, timeouts = schedule, clock = now\<rparr>))))"

end
