(* ===== verification/Builder_Properties.thy ===== *)
theory Builder_Properties
  imports Builder Store_Samples Live_Properties
begin

text \<open>
  What \<open>open\<close> makes of the registrations, how it fails, and that the invariant of the store
  holds from there on.
\<close>

subsection \<open>The maps\<close>

lemma map_put_of: "map_of (map_put k v m) = (map_of m)(k \<mapsto> v)"
  by (induction k v m rule: map_put.induct) auto

lemma map_put_keys: "fst ` set (map_put k v m) = insert k (fst ` set m)"
  by (induction k v m rule: map_put.induct) auto

lemma map_put_distinct: "distinct (map fst m) \<Longrightarrow> distinct (map fst (map_put k v m))"
  by (induction k v m rule: map_put.induct) (auto simp: map_put_keys image_iff)

lemma dispatcher_map_of: "dispatcher_map fs ty = map_of (rev fs) ty"
proof -
  have "foldl (\<lambda>m (name, D). m(name \<mapsto> D)) m fs = m ++ map_of (rev fs)" for m
    by (induction fs arbitrary: m) auto
  then show ?thesis by (simp add: dispatcher_map_def)
qed

text \<open>What the registration of a projection becomes, and that of a process manager.\<close>

definition registered_as ::
  "ext \<Rightarrow> path \<Rightarrow> fs \<Rightarrow> nat \<times> 'p projection \<Rightarrow> 'p registered_projection \<Rightarrow> bool" where
  "registered_as E base F = (\<lambda>(tid, P) x. rp_type x = tid \<and> rp_projection x = P \<and>
     projection_runner_new E P (projection_checkpoint_dir base (NAME P)) F = Inr (rp_runner x))"

definition manages ::
  "ext \<Rightarrow> path \<Rightarrow> fs \<Rightarrow> string \<times> 'q process_manager \<Rightarrow> 'q registered_pm \<Rightarrow> bool" where
  "manages E base F = (\<lambda>(name, P) x. rpm_manager x = P \<and>
     pm_runner_new E P (pm_dir base (PM_NAME P)) F = Inr (rpm_runner x))"

lemma open_projections_map:
  assumes "open_projections E base F fs m = Inr m'" and "distinct (map fst m)"
  shows "distinct (map fst m') \<and> fst ` set m' = fst ` set fs \<union> fst ` set m \<and>
    (\<forall>name x. map_of m' name = Some x \<longrightarrow>
       (case map_of (rev fs) name of
          None \<Rightarrow> map_of m name = Some x
        | Some f \<Rightarrow> registered_as E base F f x))"
  using assms
proof (induction E base F fs m rule: open_projections.induct)
  case (2 E base F name tid P fs m)
  then obtain rn where rn: "projection_runner_new E P (projection_checkpoint_dir base (NAME P)) F = Inr rn"
    by (auto split: sum.splits)
  let ?x = "\<lparr>rp_type = tid, rp_projection = P, rp_runner = rn\<rparr>"
  have "registered_as E base F (tid, P) ?x" using rn by (simp add: registered_as_def)
  moreover from 2(1) [OF rn] 2(2,3) rn
  have "distinct (map fst m') \<and> fst ` set m' = fst ` set fs \<union> fst ` set (map_put name ?x m) \<and>
    (\<forall>n x. map_of m' n = Some x \<longrightarrow>
       (case map_of (rev fs) n of
          None \<Rightarrow> map_of (map_put name ?x m) n = Some x
        | Some f \<Rightarrow> registered_as E base F f x))"
    by (simp add: map_put_distinct)
  ultimately show ?case
    by (auto simp: map_put_of map_put_keys map_add_def split: option.splits if_splits)
qed simp

text \<open>
  A checkpoint that cannot be read: reading its file fails, and not because there is none. What
  the file holds plays no part.
\<close>

definition unreadable :: "fs \<Rightarrow> path \<Rightarrow> bool" where
  "unreadable F dir \<longleftrightarrow> (\<exists>e. fs_read_to_string (checkpoint_path dir) F = Inl e \<and> kind e \<noteq> NotFound)"

lemma projection_runner_new_Inr:
  "projection_runner_new E P dir F = Inr rn \<Longrightarrow> checkpoint_dir rn = dir \<and>
    (load_checkpoint E P dir F = Inr (Some (checkpoint rn)) \<or>
     load_checkpoint E P dir F = Inr None \<and> checkpoint rn = checkpoint_default P)"
  by (auto simp: projection_runner_new_def split: sum.splits option.splits)

lemma pm_runner_new_Inr:
  "pm_runner_new E P dir F = Inr rn \<Longrightarrow> pm_checkpoint_dir rn = dir \<and>
    (load_pm_checkpoint E P dir F = Inr (Some (pm_checkpoint rn)) \<or>
     load_pm_checkpoint E P dir F = Inr None \<and> pm_checkpoint rn = pm_checkpoint_default P)"
  by (auto simp: pm_runner_new_def split: sum.splits option.splits)

lemma projection_runner_new_fails:
  "(\<exists>rn. projection_runner_new E P dir F = Inr rn) \<longleftrightarrow> \<not> unreadable F dir"
  by (auto simp: projection_runner_new_def load_checkpoint_def read_checkpoint_def unreadable_def
      split: sum.splits option.splits prod.splits)

lemma pm_runner_new_fails:
  "(\<exists>rn. pm_runner_new E P dir F = Inr rn) \<longleftrightarrow> \<not> unreadable F dir"
  by (auto simp: pm_runner_new_def load_pm_checkpoint_def read_checkpoint_def unreadable_def
      split: sum.splits option.splits prod.splits)

lemma open_projections_fails:
  "(\<exists>m'. open_projections E base F fs m = Inr m') \<longleftrightarrow>
    \<not> (\<exists>(name, tid, P) \<in> set fs. unreadable F (projection_checkpoint_dir base (NAME P)))"
proof (induction E base F fs m rule: open_projections.induct)
  case (2 E base F name tid P fs m)
  then show ?case
    using projection_runner_new_fails [of E P "projection_checkpoint_dir base (NAME P)" F]
    by (auto split: sum.splits)
qed simp

lemma open_pms_list: "open_pms E base F fs = Inr pms \<Longrightarrow> list_all2 (manages E base F) fs pms"
  by (induction E base F fs arbitrary: pms rule: open_pms.induct)
    (auto simp: manages_def split: sum.splits)

lemma manages_factory:
  assumes "list_all2 (manages E base F) fs pms" and "pm \<in> set pms"
  obtains name P where "(name, P) \<in> set fs" "manages E base F (name, P) pm"
  using assms by (induction rule: list_all2_induct) auto

lemma open_pms_fails:
  "(\<exists>pms. open_pms E base F fs = Inr pms) \<longleftrightarrow>
    \<not> (\<exists>(name, P) \<in> set fs. unreadable F (pm_dir base (PM_NAME P)))"
proof (induction E base F fs rule: open_pms.induct)
  case (2 E base F name P fs)
  then show ?case
    using pm_runner_new_fails [of E P "pm_dir base (PM_NAME P)" F]
    by (auto split: sum.splits)
qed simp

subsection \<open>Opening a store\<close>

abbreviation endpoint_of :: "('c, 'err, 'p, 'q) builder \<Rightarrow> string" where
  "endpoint_of b \<equiv> (case b_endpoint b of Some url \<Rightarrow> url | None \<Rightarrow> ''http://127.0.0.1:2113'')"

abbreviation base_of :: "path \<Rightarrow> ('c, 'err, 'p, 'q) builder \<Rightarrow> path" where
  "base_of temp_dir b \<equiv> (case b_base_dir b of Some p \<Rightarrow> p | None \<Rightarrow> path_join temp_dir ''eventfold-es'')"

abbreviation auth_of :: "('c, 'err, 'p, 'q) builder \<Rightarrow> es_client" where
  "auth_of b \<equiv> (if b_auth_token b then Auth else Plain)"

lemma open_store_eq:
  "open_store connect temp_dir N0 b w F schedule now =
     (case connect (endpoint_of b) (auth_of b) of
        Some e \<Rightarrow> Inl (Raised e)
      | None \<Rightarrow>
          (case open_projections (cfg_ext N0) (base_of temp_dir b) F (projection_factories b) [] of
             Inl m \<Rightarrow> Inl (Panicked m)
           | Inr ps \<Rightarrow>
               (case open_pms (cfg_ext N0) (base_of temp_dir b) F (process_manager_factories b) of
                  Inl m \<Rightarrow> Inl (Panicked m)
                | Inr pms \<Rightarrow>
                    Inr (N0\<lparr>client := auth_of b, cfg_base_dir := base_of temp_dir b,
                            dispatchers := dispatcher_map (dispatcher_factories b)\<rparr>,
                         \<lparr>world = w, app_fs = F, cache = Map.empty, projections = ps,
                          process_managers = pms, timeouts = schedule, clock = now\<rparr>))))"
  by (simp add: open_store_def es_connect_def es_connect_with_token_def Let_def split: option.split)

lemma open_store_Inr:
  assumes "open_store connect temp_dir N0 b w F schedule now = Inr (N, ap)"
  shows "connect (endpoint_of b) (auth_of b) = None \<and>
    N = N0\<lparr>client := auth_of b, cfg_base_dir := base_of temp_dir b,
      dispatchers := dispatcher_map (dispatcher_factories b)\<rparr> \<and>
    (\<exists>ps pms. open_projections (cfg_ext N0) (base_of temp_dir b) F (projection_factories b) [] = Inr ps \<and>
       open_pms (cfg_ext N0) (base_of temp_dir b) F (process_manager_factories b) = Inr pms \<and>
       ap = \<lparr>world = w, app_fs = F, cache = Map.empty, projections = ps, process_managers = pms,
         timeouts = schedule, clock = now\<rparr>)"
  using assms unfolding open_store_eq Let_def
  by (cases "connect (endpoint_of b) (auth_of b)") (auto split: sum.splits)

lemma open_store_facts:
  assumes "open_store connect temp_dir N0 b w F schedule now = Inr (N, ap)"
  shows "world ap = w \<and> app_fs ap = F \<and> cache ap = Map.empty \<and>
    dispatchers N = map_of (rev (dispatcher_factories b)) \<and>
    distinct (map fst (projections ap)) \<and>
    fst ` set (projections ap) = fst ` set (projection_factories b) \<and>
    (\<forall>name f x. map_of (rev (projection_factories b)) name = Some f \<longrightarrow>
       map_of (projections ap) name = Some x \<longrightarrow>
       registered_as (cfg_ext N0) (base_of temp_dir b) F f x) \<and>
    list_all2 (manages (cfg_ext N0) (base_of temp_dir b) F) (process_manager_factories b) (process_managers ap)"
proof -
  from open_store_Inr [OF assms] obtain ps pms
    where o: "open_projections (cfg_ext N0) (base_of temp_dir b) F (projection_factories b) [] = Inr ps"
      "open_pms (cfg_ext N0) (base_of temp_dir b) F (process_manager_factories b) = Inr pms"
      "ap = \<lparr>world = w, app_fs = F, cache = Map.empty, projections = ps, process_managers = pms,
         timeouts = schedule, clock = now\<rparr>"
      "dispatchers N = dispatcher_map (dispatcher_factories b)"
    by auto
  have "dispatchers N = map_of (rev (dispatcher_factories b))" using o(4) by (simp add: dispatcher_map_of fun_eq_iff)
  with open_projections_map [OF o(1)] open_pms_list [OF o(2)] o(3) show ?thesis
    by (auto split: option.splits)
qed

text \<open>
  C24. Opening a store calls no aggregate and writes nothing: the world and the disk stay as they
  are and no actor runs. Projections are a map from names, the last registration of a name
  counts; each has the state its checkpoint file holds. Process managers keep their order and
  duplicates, each with the state its checkpoint file holds. A dispatch target is the last one
  registered under its name.
\<close>

theorem open_store_registers:
  assumes "open_store connect temp_dir N0 b w F schedule now = Inr (N, ap)"
  shows "world ap = w \<and> app_fs ap = F \<and> cache ap = Map.empty \<and>
    dispatchers N = map_of (rev (dispatcher_factories b)) \<and>
    distinct (map fst (projections ap)) \<and>
    fst ` set (projections ap) = fst ` set (projection_factories b) \<and>
    (\<forall>name f x. map_of (rev (projection_factories b)) name = Some f \<longrightarrow>
       map_of (projections ap) name = Some x \<longrightarrow>
       registered_as (cfg_ext N0) (base_of temp_dir b) F f x) \<and>
    list_all2 (manages (cfg_ext N0) (base_of temp_dir b) F) (process_manager_factories b) (process_managers ap)"
  using open_store_facts [OF assms] .

text \<open>
  C29. Opening fails in two ways only: with the error of the connection, or, connected, by a
  panic, exactly when the checkpoint file of some registered projection or process manager is
  there and cannot be read as text. It never returns an error of reading a checkpoint.
\<close>

theorem open_store_failures:
  "(open_store connect temp_dir N0 b w F schedule now = Inl (Raised e) \<longleftrightarrow>
      connect (endpoint_of b) (auth_of b) = Some e) \<and>
   ((\<exists>m. open_store connect temp_dir N0 b w F schedule now = Inl (Panicked m)) \<longleftrightarrow>
      connect (endpoint_of b) (auth_of b) = None \<and>
      ((\<exists>(name, tid, P) \<in> set (projection_factories b).
          unreadable F (projection_checkpoint_dir (base_of temp_dir b) (NAME P))) \<or>
       (\<exists>(name, P) \<in> set (process_manager_factories b).
          unreadable F (pm_dir (base_of temp_dir b) (PM_NAME P)))))"
proof (cases "connect (endpoint_of b) (auth_of b)")
  case (Some e)
  then show ?thesis unfolding open_store_eq Let_def by auto
next
  case None
  have "(\<exists>m. open_store connect temp_dir N0 b w F schedule now = Inl (Panicked m)) \<longleftrightarrow>
     \<not> ((\<exists>ps. open_projections (cfg_ext N0) (base_of temp_dir b) F (projection_factories b) [] = Inr ps) \<and>
        (\<exists>pms. open_pms (cfg_ext N0) (base_of temp_dir b) F (process_manager_factories b) = Inr pms))"
    unfolding open_store_eq Let_def using None by (auto split: sum.splits)
  moreover have "open_store connect temp_dir N0 b w F schedule now \<noteq> Inl (Raised e)"
    unfolding open_store_eq Let_def using None by (auto split: sum.splits)
  ultimately show ?thesis using None by (simp add: open_projections_fails open_pms_fails)
qed

text \<open>A builder that registers what the sample store has, and the projection twice.\<close>

definition sample_builder :: "(counter_command, counter_error, total_counter, echo_saga) builder" where
  "sample_builder =
     with_process_manager EchoSaga (with_projection 0 TotalCounter (with_projection 1 TotalCounter
       (aggregate_type ''counter'' counter_dispatcher (with_base_dir (path_of ''/data'') builder_new))))"

lemma sample_builder_simps [simp]:
  "b_endpoint sample_builder = None" "b_base_dir sample_builder = Some (path_of ''/data'')"
  "b_auth_token sample_builder = False"
  "projection_factories sample_builder = [(NAME TotalCounter, 1, TotalCounter), (NAME TotalCounter, 0, TotalCounter)]"
  "process_manager_factories sample_builder = [(PM_NAME EchoSaga, EchoSaga)]"
  "dispatcher_factories sample_builder = [(''counter'', counter_dispatcher)]"
  by (simp_all add: sample_builder_def with_process_manager_def with_projection_def aggregate_type_def
      with_base_dir_def builder_new_def)

lemma load_empty_disk:
  "load_checkpoint E P dir empty_disk = Inr None" "load_pm_checkpoint E Q dir empty_disk = Inr None"
  "\<not> unreadable empty_disk dir"
  by (simp_all add: load_checkpoint_def load_pm_checkpoint_def read_checkpoint_def unreadable_def
      fs_read_to_string_def fs_read_def empty_disk_def io_error_new_def)

abbreviation no_failure :: "string \<Rightarrow> es_client \<Rightarrow> unit option" where
  "no_failure \<equiv> \<lambda>url c. None"

lemma sample_opens:
  assumes "cfg_ext N0 = env"
  obtains N ap where "open_store no_failure (path_of ''/tmp'') N0 sample_builder sample_world empty_disk [] (Some 0) =
     Inr (N, ap)"
proof -
  obtain ps where "open_projections env (path_of ''/data'') empty_disk (projection_factories sample_builder) [] = Inr ps"
    using open_projections_fails [of env "path_of ''/data''" empty_disk "projection_factories sample_builder" "[]"]
    by (auto simp: load_empty_disk)
  moreover obtain pms where "open_pms env (path_of ''/data'') empty_disk (process_manager_factories sample_builder) = Inr pms"
    using open_pms_fails [of env "path_of ''/data''" empty_disk "process_manager_factories sample_builder"]
    by (auto simp: load_empty_disk)
  ultimately show ?thesis using that assms unfolding open_store_eq Let_def by simp
qed

theorem open_store_registers_witness:
  "\<exists>N ap x. open_store no_failure (path_of ''/tmp'') sample_config sample_builder sample_world empty_disk [] (Some 0) =
     Inr (N, ap) \<and> projections ap = [(NAME TotalCounter, x)] \<and> rp_type x = 0"
proof -
  obtain N ap where o: "open_store no_failure (path_of ''/tmp'') sample_config sample_builder sample_world empty_disk [] (Some 0) =
     Inr (N, ap)" by (rule sample_opens [of sample_config]) simp
  note r = open_store_registers [OF o]
  have "fst ` set (projections ap) = {NAME TotalCounter}" "distinct (map fst (projections ap))" using r by simp_all
  then obtain x where x: "projections ap = [(NAME TotalCounter, x)]"
    by (cases "projections ap"; cases "tl (projections ap)") (auto simp: image_subset_iff)
  with r have "registered_as env (path_of ''/data'') empty_disk (0, TotalCounter) x" by simp
  then show ?thesis using o x by (auto simp: registered_as_def)
qed

text \<open>A checkpoint file that is no text.\<close>

theorem open_store_failures_witness:
  "\<exists>m. open_store no_failure (path_of ''/tmp'') sample_config sample_builder sample_world
     (empty_disk\<lparr>files := [checkpoint_path (pm_dir (path_of ''/data'') (PM_NAME EchoSaga)) \<mapsto> [CHR 0xFF]]\<rparr>) [] (Some 0) =
     Inl (Panicked m)"
proof -
  let ?F = "empty_disk\<lparr>files := [checkpoint_path (pm_dir (path_of ''/data'') (PM_NAME EchoSaga)) \<mapsto> [CHR 0xFF]]\<rparr>"
  have "\<not> utf8_valid [CHR 0xFF]" by (simp add: byte_in_def)
  then have "from_utf8 [CHR 0xFF] = None" by (simp add: from_utf8_def)
  then have "unreadable ?F (pm_dir (path_of ''/data'') (PM_NAME EchoSaga))"
    by (simp add: unreadable_def fs_read_to_string_def fs_read_def empty_disk_def io_error_new_def)
  then show ?thesis
    using open_store_failures [of no_failure "path_of ''/tmp''" sample_config sample_builder sample_world ?F] by auto
qed

subsection \<open>The life of a store\<close>

text \<open>What a checkpoint file may hold when a store is opened: the fold of a prefix of the log.\<close>

definition disk_consumers ::
  "ext \<Rightarrow> recorded_event list \<Rightarrow> path \<Rightarrow> fs \<Rightarrow> ('c, 'err, 'p, 'q) builder \<Rightarrow> bool" where
  "disk_consumers E log base F b \<longleftrightarrow>
     (\<forall>(name, tid, P) \<in> set (projection_factories b). \<forall>ck.
        load_checkpoint E P (projection_checkpoint_dir base (NAME P)) F = Inr (Some ck) \<longrightarrow>
        (\<exists>es. prefix es log \<and> projection_at E P es ck)) \<and>
     (\<forall>(name, P) \<in> set (process_manager_factories b). \<forall>ck.
        load_pm_checkpoint E P (pm_dir base (PM_NAME P)) F = Inr (Some ck) \<longrightarrow>
        (\<exists>es. prefix es log \<and> pm_at E P es ck))"

lemma opened_projection_ok:
  assumes "registered_as E base F (tid, P) x"
    and "\<And>ck. load_checkpoint E P (projection_checkpoint_dir base (NAME P)) F = Inr (Some ck) \<Longrightarrow>
      \<exists>es. prefix es log \<and> projection_at E P es ck"
  shows "projection_ok E log (rp_projection x) (rp_runner x)"
proof -
  have "rp_projection x = P" and "projection_runner_new E P (projection_checkpoint_dir base (NAME P)) F = Inr (rp_runner x)"
    using assms(1) by (simp_all add: registered_as_def)
  with projection_runner_new_Inr [OF this(2)] assms(2) show ?thesis
    unfolding projection_ok_def by (metis Nil_prefix projection_at_default)
qed

lemma opened_pm_ok:
  assumes "manages E base F (name, P) x"
    and "\<And>ck. load_pm_checkpoint E P (pm_dir base (PM_NAME P)) F = Inr (Some ck) \<Longrightarrow>
      \<exists>es. prefix es log \<and> pm_at E P es ck"
  shows "pm_ok E log (rpm_manager x) (rpm_runner x)"
proof -
  have "rpm_manager x = P" and "pm_runner_new E P (pm_dir base (PM_NAME P)) F = Inr (rpm_runner x)"
    using assms(1) by (simp_all add: manages_def)
  with pm_runner_new_Inr [OF this(2)] assms(2) show ?thesis
    unfolding pm_ok_def by (metis Nil_prefix pm_at_default)
qed

text \<open>
  C20. A store opened on a disk whose snapshots and checkpoints are folds of prefixes of the log,
  as the stores before it leave them, or on an empty one, satisfies the invariant of the store:
  with the invariance of its operations, it holds from \<open>open\<close> on.
\<close>

theorem open_store_invariant:
  assumes "open_store connect temp_dir N0 b w F schedule now = Inr (N, ap)"
    and "disk_consumers (cfg_ext N0) (glog w) (base_of temp_dir b) F b"
    and "\<And>tid i. (tid, i) \<in> J \<Longrightarrow> disk_inv (cfg_ext N0) (types N0 tid) (base_of temp_dir b) i (stream_of N0 strm w tid i) F"
  shows "app_inv N J strm ap \<and> consumers_inv N glog ap"
proof -
  note o = open_store_Inr [OF assms(1)] and r = open_store_facts [OF assms(1)]
  have reg: "distinct (map fst (projections ap))" "fst ` set (projections ap) = fst ` set (projection_factories b)"
    "\<forall>name f x. map_of (rev (projection_factories b)) name = Some f \<longrightarrow>
       map_of (projections ap) name = Some x \<longrightarrow> registered_as (cfg_ext N0) (base_of temp_dir b) F f x"
    "world ap = w"
    "list_all2 (manages (cfg_ext N0) (base_of temp_dir b) F) (process_manager_factories b) (process_managers ap)"
    using r by blast+
  have N: "cfg_ext N = cfg_ext N0" "types N = types N0" "cfg_base_dir N = base_of temp_dir b"
    using o by simp_all
  have "stream_of N strm w tid i = stream_of N0 strm w tid i" for tid i
    using N by (simp add: stream_of_def)
  then have "app_inv N J strm ap" using assms(3) r N by (simp add: app_inv_def)
  moreover have "projection_ok (cfg_ext N) (glog (world ap)) (rp_projection (snd x)) (rp_runner (snd x))"
    if x: "x \<in> set (projections ap)" for x
  proof -
    obtain name rp where [simp]: "x = (name, rp)" by fastforce
    have of_x: "map_of (projections ap) name = Some rp" using reg(1) x by simp
    have "name \<in> fst ` set (projections ap)" using x by force
    then have "name \<in> fst ` set (rev (projection_factories b))" using reg(2) by simp
    then obtain f where f: "map_of (rev (projection_factories b)) name = Some f"
      by (cases "map_of (rev (projection_factories b)) name") (simp_all only: map_of_eq_None_iff, simp)
    obtain tid P where [simp]: "f = (tid, P)" by fastforce
    have "(name, tid, P) \<in> set (projection_factories b)" using map_of_SomeD [OF f] by simp
    then have "\<exists>es. prefix es (glog w) \<and> projection_at (cfg_ext N0) P es ck"
      if "load_checkpoint (cfg_ext N0) P (projection_checkpoint_dir (base_of temp_dir b) (NAME P)) F = Inr (Some ck)" for ck
      using assms(2) that unfolding disk_consumers_def by fast
    moreover have "registered_as (cfg_ext N0) (base_of temp_dir b) F (tid, P) rp" using reg(3) f of_x by simp
    ultimately have "projection_ok (cfg_ext N0) (glog w) (rp_projection rp) (rp_runner rp)"
      by (rule opened_projection_ok [rotated])
    then show ?thesis using N(1) reg(4) by simp
  qed
  moreover have "pm_ok (cfg_ext N) (glog (world ap)) (rpm_manager pm) (rpm_runner pm)"
    if pm: "pm \<in> set (process_managers ap)" for pm
  proof -
    obtain name P where f: "(name, P) \<in> set (process_manager_factories b)"
      "manages (cfg_ext N0) (base_of temp_dir b) F (name, P) pm"
      by (rule manages_factory [OF reg(5) pm])
    from f(1) have "\<exists>es. prefix es (glog w) \<and> pm_at (cfg_ext N0) P es ck"
      if "load_pm_checkpoint (cfg_ext N0) P (pm_dir (base_of temp_dir b) (PM_NAME P)) F = Inr (Some ck)" for ck
      using assms(2) that unfolding disk_consumers_def by fast
    with f(2) have "pm_ok (cfg_ext N0) (glog w) (rpm_manager pm) (rpm_runner pm)" by (rule opened_pm_ok)
    then show ?thesis using N(1) reg(4) by simp
  qed
  ultimately show ?thesis by (simp add: consumers_inv_def)
qed

theorem open_store_invariant_witness:
  "\<exists>N ap. open_store no_failure (path_of ''/tmp'') sample_config sample_builder sample_world empty_disk [] (Some 0) =
     Inr (N, ap) \<and> process_managers ap \<noteq> [] \<and> app_inv N UNIV mem_stream ap \<and> consumers_inv N mem_global ap"
proof -
  obtain N ap where o: "open_store no_failure (path_of ''/tmp'') sample_config sample_builder sample_world empty_disk [] (Some 0) =
     Inr (N, ap)" by (rule sample_opens [of sample_config]) simp
  have "disk_consumers (cfg_ext sample_config) (mem_global sample_world)
      (base_of (path_of ''/tmp'') sample_builder) empty_disk sample_builder"
    by (simp add: disk_consumers_def load_empty_disk)
  from open_store_invariant [where glog = mem_global and strm = mem_stream, OF o this disk_inv_empty]
  have "app_inv N UNIV mem_stream ap \<and> consumers_inv N mem_global ap" .
  moreover have "process_managers ap \<noteq> []" using open_store_facts [OF o] by auto
  ultimately show ?thesis using o by blast
qed

subsection \<open>Restarting\<close>

abbreviation loaded_projection :: "ext \<Rightarrow> fs \<Rightarrow> 'p registered_projection \<Rightarrow> bool" where
  "loaded_projection E F x \<equiv>
     projection_runner_new E (rp_projection x) (checkpoint_dir (rp_runner x)) F = Inr (rp_runner x)"

abbreviation loaded_pm :: "ext \<Rightarrow> fs \<Rightarrow> 'q registered_pm \<Rightarrow> bool" where
  "loaded_pm E F x \<equiv> pm_runner_new E (rpm_manager x) (pm_checkpoint_dir (rpm_runner x)) F = Inr (rpm_runner x)"

lemma map_put_shape:
  "map projection_shape m = map projection_shape m' \<Longrightarrow> projection_shape (k, v) = projection_shape (k, v') \<Longrightarrow>
    map projection_shape (map_put k v m) = map projection_shape (map_put k v' m')"
proof (induction k v m arbitrary: m' rule: map_put.induct)
  case (2 k v k1 v1 m)
  then show ?case by (cases m') auto
qed simp

lemma open_projections_shape:
  assumes "open_projections E base F fs m = Inr m1" and "open_projections E base F' fs m' = Inr m2"
    and "map projection_shape m = map projection_shape m'"
  shows "map projection_shape m1 = map projection_shape m2"
  using assms
proof (induction E base F fs m arbitrary: m' rule: open_projections.induct)
  case (2 E base F name tid P fs m)
  let ?dir = "projection_checkpoint_dir base (NAME P)"
  obtain rn where rn: "projection_runner_new E P ?dir F = Inr rn" using 2(2) by (auto split: sum.splits)
  obtain rn' where rn': "projection_runner_new E P ?dir F' = Inr rn'" using 2(3) by (auto split: sum.splits)
  note dirs = projection_runner_new_Inr [OF rn] projection_runner_new_Inr [OF rn']
  show ?case
    using 2(1) [OF rn, of "map_put name \<lparr>rp_type = tid, rp_projection = P, rp_runner = rn'\<rparr> m'"] 2(2-4) rn rn' dirs
    by (simp add: map_put_shape)
qed simp

lemma map_put_set: "set (map_put k v m) \<subseteq> insert (k, v) (set m)"
  by (induction k v m rule: map_put.induct) auto

lemma open_projections_loaded:
  assumes "open_projections E base F fs m = Inr m1" and "\<forall>x \<in> set m. loaded_projection E F (snd x)"
  shows "\<forall>x \<in> set m1. loaded_projection E F (snd x)"
  using assms
proof (induction E base F fs m rule: open_projections.induct)
  case (2 E base F name tid P fs m)
  let ?dir = "projection_checkpoint_dir base (NAME P)"
  obtain rn where rn: "projection_runner_new E P ?dir F = Inr rn" using 2(2) by (auto split: sum.splits)
  let ?x = "\<lparr>rp_type = tid, rp_projection = P, rp_runner = rn\<rparr>"
  have "loaded_projection E F ?x" using rn projection_runner_new_Inr [OF rn] by simp
  then have "\<forall>x \<in> set (map_put name ?x m). loaded_projection E F (snd x)"
    using 2(3) map_put_set [of name ?x m] by auto
  with 2(1) [OF rn] 2(2) rn show ?case by simp
qed simp

text \<open>Consumers that are as their checkpoints are determined by their shapes.\<close>

lemma loaded_projections_eq:
  assumes "map projection_shape L = map projection_shape L'"
    and "\<forall>x \<in> set L. loaded_projection E F (snd x)" and "\<forall>x \<in> set L'. loaded_projection E F (snd x)"
  shows "L = L'"
proof -
  let ?g = "\<lambda>(n, t, P, d). (n, \<lparr>rp_type = t, rp_projection = P, rp_runner = projr (projection_runner_new E P d F)\<rparr>)"
  have g: "map ?g (map projection_shape M) = M" if "\<forall>x \<in> set M. loaded_projection E F (snd x)" for M
    using that by (auto intro!: map_idI)
  have "L = map ?g (map projection_shape L)" by (rule g [OF assms(2), symmetric])
  also have "\<dots> = map ?g (map projection_shape L')" by (rule arg_cong [OF assms(1)])
  also have "\<dots> = L'" by (rule g [OF assms(3)])
  finally show ?thesis .
qed

lemma loaded_pms_eq:
  assumes "map (\<lambda>x. (rpm_manager x, pm_checkpoint_dir (rpm_runner x))) L =
      map (\<lambda>x. (rpm_manager x, pm_checkpoint_dir (rpm_runner x))) L'"
    and "\<forall>x \<in> set L. loaded_pm E F x" and "\<forall>x \<in> set L'. loaded_pm E F x"
  shows "L = L'"
proof -
  let ?g = "\<lambda>(P, d). \<lparr>rpm_manager = P, rpm_runner = projr (pm_runner_new E P d F)\<rparr>"
  let ?s = "\<lambda>x. (rpm_manager x, pm_checkpoint_dir (rpm_runner x))"
  have g: "map ?g (map ?s M) = M" if "\<forall>x \<in> set M. loaded_pm E F x" for M
    using that by (auto intro!: map_idI)
  have "L = map ?g (map ?s L)" by (rule g [OF assms(2), symmetric])
  also have "\<dots> = map ?g (map ?s L')" by (rule arg_cong [OF assms(1)])
  also have "\<dots> = L'" by (rule g [OF assms(3)])
  finally show ?thesis .
qed

lemma manages_shape:
  assumes "manages E base F f pm"
  shows "rpm_manager pm = snd f" and "pm_checkpoint_dir (rpm_runner pm) = pm_dir base (PM_NAME (snd f))"
    and "loaded_pm E F pm"
proof -
  have m: "rpm_manager pm = snd f" "pm_runner_new E (snd f) (pm_dir base (PM_NAME (snd f))) F = Inr (rpm_runner pm)"
    using assms by (simp_all add: manages_def split: prod.splits)
  with pm_runner_new_Inr [OF m(2)] show "rpm_manager pm = snd f"
    "pm_checkpoint_dir (rpm_runner pm) = pm_dir base (PM_NAME (snd f))" "loaded_pm E F pm"
    by simp_all
qed

lemma manages_manager:
  assumes "list_all2 (manages E base F) fs pms" and "(name, P) \<in> set fs"
  obtains pm where "pm \<in> set pms" "pm_checkpoint_dir (rpm_runner pm) = pm_dir base (PM_NAME P)"
proof -
  from assms obtain pm where "pm \<in> set pms" "manages E base F (name, P) pm"
    by (induction rule: list_all2_induct) auto
  with manages_shape(2) [OF this(2)] that show ?thesis by simp
qed

lemma open_pms_shape:
  "list_all2 (manages E base F) fs pms \<Longrightarrow> list_all2 (manages E base F') fs pms' \<Longrightarrow>
    map (\<lambda>x. (rpm_manager x, pm_checkpoint_dir (rpm_runner x))) pms =
    map (\<lambda>x. (rpm_manager x, pm_checkpoint_dir (rpm_runner x))) pms'"
proof (induction arbitrary: pms' rule: list_all2_induct)
  case (Cons f fs pm pms)
  then obtain pm' pms1 where p: "pms' = pm' # pms1" "manages E base F' f pm'" "list_all2 (manages E base F') fs pms1"
    by (auto simp: list_all2_Cons1)
  with Cons.IH [OF p(3)] manages_shape [OF Cons.hyps(1)] manages_shape [OF p(2)] show ?case by simp
qed simp

lemma all_saved_loaded:
  assumes "all_saved E ap"
  shows "\<forall>x \<in> set (projections ap). loaded_projection E (app_fs ap) (snd x)"
    and "\<forall>x \<in> set (process_managers ap). loaded_pm E (app_fs ap) x"
  using assms by (auto simp: all_saved_def projection_runner_new_def pm_runner_new_def)

text \<open>The builders its methods make: every registration is under the name of its type.\<close>

inductive built :: "('c, 'err, 'p, 'q) builder \<Rightarrow> bool" where
  "built builder_new"
| "built b \<Longrightarrow> built (with_endpoint url b)"
| "built b \<Longrightarrow> built (with_auth_token b)"
| "built b \<Longrightarrow> built (with_base_dir p b)"
| "built b \<Longrightarrow> built (aggregate_type ty D b)"
| "built b \<Longrightarrow> built (with_projection tid P b)"
| "built b \<Longrightarrow> built (with_process_manager Q b)"
| "built b \<Longrightarrow> built (with_idle_timeout t b)"
| "built b \<Longrightarrow> built (with_live_config cfg b)"

lemma built_names:
  "built b \<Longrightarrow> (\<forall>(name, tid, P) \<in> set (projection_factories b). name = NAME P)"
  by (induction rule: built.induct)
    (auto simp: builder_new_def with_endpoint_def with_auth_token_def with_base_dir_def aggregate_type_def
      with_projection_def with_process_manager_def with_idle_timeout_def with_live_config_def)

text \<open>Every registered projection has its directory in the opened store.\<close>

lemma opened_dirs:
  assumes "built b" and "open_projections E base F (projection_factories b) [] = Inr ps"
    and "(name, tid, P) \<in> set (projection_factories b)"
  shows "\<exists>x \<in> set ps. checkpoint_dir (rp_runner (snd x)) = projection_checkpoint_dir base (NAME P)"
proof -
  note m = open_projections_map [OF assms(2), simplified]
  have name: "name = NAME P" using built_names [OF assms(1)] assms(3) by auto
  have "name \<in> fst ` set ps" using m assms(3) by (force simp: image_iff)
  then obtain x where x: "(name, x) \<in> set ps" by auto
  then have of_x: "map_of ps name = Some x" using m by simp
  have "case map_of (rev (projection_factories b)) name of
      None \<Rightarrow> map_of [] name = Some x | Some f \<Rightarrow> registered_as E base F f x"
    using open_projections_map [OF assms(2)] of_x by simp
  then obtain f where f: "map_of (rev (projection_factories b)) name = Some f" "registered_as E base F f x"
    by (cases "map_of (rev (projection_factories b)) name") simp_all
  obtain tid' P' where [simp]: "f = (tid', P')" by fastforce
  have "(name, tid', P') \<in> set (projection_factories b)" using map_of_SomeD [OF f(1)] by simp
  then have "NAME P' = NAME P" using built_names [OF assms(1)] name by auto
  moreover have "projection_runner_new E P' (projection_checkpoint_dir base (NAME P')) F = Inr (rp_runner x)"
    using f(2) by (simp add: registered_as_def)
  ultimately show ?thesis using x projection_runner_new_Inr by force
qed

text \<open>What is loaded can be read.\<close>

lemma loaded_readable:
  "loaded_projection E F x \<Longrightarrow> \<not> unreadable F (checkpoint_dir (rp_runner x))"
  "loaded_pm E F y \<Longrightarrow> \<not> unreadable F (pm_checkpoint_dir (rpm_runner y))"
  using projection_runner_new_fails pm_runner_new_fails by blast+

text \<open>
  The consumers a builder registers, loaded again after they have been saved: every checkpoint
  can be read, and what is loaded is what was saved.
\<close>

lemma saved_projections_open:
  assumes "open_projections E base F (projection_factories b) [] = Inr (projections ap)" and "built b"
    and "same_setting ap ap1" and "all_saved E ap1"
  shows "open_projections E base (app_fs ap1) (projection_factories b) [] = Inr (projections ap1)"
proof -
  note loaded = all_saved_loaded(1) [OF assms(4)] and shapes = same_setting_shapes [OF assms(3)]
  let ?dir = "\<lambda>x. checkpoint_dir (rp_runner (snd x))"
  have dirs: "?dir ` set (projections ap1) = ?dir ` set (projections ap)"
    using arg_cong [OF shapes, of "\<lambda>l. (\<lambda>(n, t, P, d). d) ` set l"] by (simp add: image_image)
  have "\<not> unreadable (app_fs ap1) (projection_checkpoint_dir base (NAME P))"
    if f: "(name, tid, P) \<in> set (projection_factories b)" for name tid P
  proof -
    have "projection_checkpoint_dir base (NAME P) \<in> ?dir ` set (projections ap1)"
      unfolding dirs using opened_dirs [OF assms(2,1) f] by force
    then obtain y where "y \<in> set (projections ap1)" "?dir y = projection_checkpoint_dir base (NAME P)" by auto
    with loaded loaded_readable(1) show ?thesis by metis
  qed
  then have "\<exists>ps. open_projections E base (app_fs ap1) (projection_factories b) [] = Inr ps"
    unfolding open_projections_fails by blast
  then obtain ps where ps: "open_projections E base (app_fs ap1) (projection_factories b) [] = Inr ps" by blast
  have "ps = projections ap1"
  proof (rule loaded_projections_eq [OF _ _ loaded])
    show "map projection_shape ps = map projection_shape (projections ap1)"
      using open_projections_shape [OF ps assms(1) refl] shapes by simp
    show "\<forall>x \<in> set ps. loaded_projection E (app_fs ap1) (snd x)"
      using open_projections_loaded [OF ps] by simp
  qed
  with ps show ?thesis by simp
qed

lemma saved_pms_open:
  assumes "open_pms E base F (process_manager_factories b) = Inr (process_managers ap)"
    and "same_setting ap ap1" and "all_saved E ap1"
  shows "open_pms E base (app_fs ap1) (process_manager_factories b) = Inr (process_managers ap1)"
proof -
  note loaded = all_saved_loaded(2) [OF assms(3)]
  have shapes: "map (\<lambda>x. (rpm_manager x, pm_checkpoint_dir (rpm_runner x))) (process_managers ap1) =
      map (\<lambda>x. (rpm_manager x, pm_checkpoint_dir (rpm_runner x))) (process_managers ap)"
    using assms(2) by (simp add: same_setting_def)
  let ?dir = "\<lambda>x. pm_checkpoint_dir (rpm_runner x)"
  have dirs: "?dir ` set (process_managers ap1) = ?dir ` set (process_managers ap)"
    using map_pair_dest [OF shapes] by (metis list.set_map)
  have "\<not> unreadable (app_fs ap1) (pm_dir base (PM_NAME Q))"
    if f: "(name, Q) \<in> set (process_manager_factories b)" for name Q
  proof -
    obtain x where "x \<in> set (process_managers ap)" "?dir x = pm_dir base (PM_NAME Q)"
      using open_pms_list [OF assms(1)] f by (rule manages_manager)
    then have "pm_dir base (PM_NAME Q) \<in> ?dir ` set (process_managers ap1)" unfolding dirs by force
    then obtain y where "y \<in> set (process_managers ap1)" "?dir y = pm_dir base (PM_NAME Q)" by auto
    with loaded loaded_readable(2) show ?thesis by metis
  qed
  then have "\<exists>pms. open_pms E base (app_fs ap1) (process_manager_factories b) = Inr pms"
    unfolding open_pms_fails by blast
  then obtain pms where pms: "open_pms E base (app_fs ap1) (process_manager_factories b) = Inr pms" by blast
  have "pms = process_managers ap1"
  proof (rule loaded_pms_eq [OF _ _ loaded])
    show "map (\<lambda>x. (rpm_manager x, pm_checkpoint_dir (rpm_runner x))) pms =
        map (\<lambda>x. (rpm_manager x, pm_checkpoint_dir (rpm_runner x))) (process_managers ap1)"
      using open_pms_shape [OF open_pms_list [OF pms] open_pms_list [OF assms(1)]] shapes by simp
    show "\<forall>x \<in> set pms. loaded_pm E (app_fs ap1) x"
      using open_pms_list [OF pms] by (auto elim: manages_factory dest: manages_shape(3))
  qed
  with pms show ?thesis by simp
qed

text \<open>
  C4. A shutdown and a restart lose and repeat nothing: on the disk a live loop leaves when it
  returns, the store opens again with the same builder, and has the configuration of the first
  one and exactly the projections and process managers, states and positions included, that the
  loop ended with.
\<close>

theorem restart_after_shutdown:
  assumes "open_store connect temp_dir N0 b w F schedule now = Inr (N, ap)"
    and "disk_setting (cfg_ext N) ap" and "live_reachable N cfg send (live_start cfg ap) lv"
    and "phase lv = Returned r" and "built b"
  shows "\<exists>ap'. open_store connect temp_dir N0 b w' (app_fs (live_app lv)) schedule' now' = Inr (N, ap') \<and>
    projections ap' = projections (live_app lv) \<and> process_managers ap' = process_managers (live_app lv)"
proof -
  note o = open_store_Inr [OF assms(1)]
  have saved: "all_saved (cfg_ext N0) (live_app lv)"
    using live_reachable_disk [OF assms(2,3)] assms(4) o by (simp add: disk_inv_live_def)
  have same: "same_setting ap (live_app lv)"
    using live_reachable_setting [OF assms(3)] by (simp add: live_start_def)
  have p: "open_projections (cfg_ext N0) (base_of temp_dir b) F (projection_factories b) [] = Inr (projections ap)"
    "open_pms (cfg_ext N0) (base_of temp_dir b) F (process_manager_factories b) = Inr (process_managers ap)"
    using o by auto
  from o saved_projections_open [OF p(1) assms(5) same saved] saved_pms_open [OF p(2) same saved]
  show ?thesis unfolding open_store_eq Let_def by simp
qed

text \<open>The sample store, opened, live and shut down.\<close>

lemma sample_opened:
  assumes "open_store no_failure (path_of ''/tmp'') N0 sample_builder sample_world empty_disk [] (Some 0) = Inr (N, ap)"
    and "cfg_ext N0 = env"
  shows "disk_setting env ap" and "process_managers ap \<noteq> []"
    and "client N = Plain" and "cfg_ext N = env" and "cfg_rpc N = cfg_rpc N0"
proof -
  note f = open_store_facts [OF assms(1), simplified] and o = open_store_Inr [OF assms(1)]
  show "client N = Plain" "cfg_ext N = env" "cfg_rpc N = cfg_rpc N0" using o assms(2) by simp_all
  obtain pm where pm: "process_managers ap = [pm]" "manages env (path_of ''/data'') empty_disk (PM_NAME EchoSaga, EchoSaga) pm"
    using f assms(2) by (auto simp: list_all2_Cons1)
  then show "process_managers ap \<noteq> []" by simp
  have "fst ` set (projections ap) = {NAME TotalCounter}" "distinct (map fst (projections ap))" using f by simp_all
  then obtain x where x: "projections ap = [(NAME TotalCounter, x)]"
    by (cases "projections ap"; cases "tl (projections ap)") (auto simp: image_subset_iff)
  with f assms(2) have reg: "registered_as env (path_of ''/data'') empty_disk (0, TotalCounter) x" by simp
  have "checkpoint_dir (rp_runner x) = projection_checkpoint_dir (path_of ''/data'') (NAME TotalCounter)"
    "rp_projection x = TotalCounter"
    using reg projection_runner_new_Inr unfolding registered_as_def by fastforce+
  moreover have "projection_checkpoint_dir (path_of ''/data'') (NAME TotalCounter) \<noteq> pm_dir (path_of ''/data'') (PM_NAME EchoSaga)"
    by (simp add: projection_checkpoint_dir_def pm_dir_def path_join_def path_of_def TotalCounter_def EchoSaga_def)
  ultimately show "disk_setting env ap"
    using x pm manages_shape [OF pm(2)] o total_counter_good [OF env_ok] echo_good
    by (auto simp: disk_setting_def)
qed

theorem restart_after_shutdown_witness:
  "\<exists>N ap lv ap'. open_store no_failure (path_of ''/tmp'') live_sample sample_builder sample_world empty_disk [] (Some 0) =
       Inr (N, ap) \<and>
     lv = run_live_loop N live_config_default open_channel [Poll, Signal, Stop] (live_start live_config_default ap) \<and>
     open_store no_failure (path_of ''/tmp'') live_sample sample_builder (world (live_app lv)) (app_fs (live_app lv)) [] None =
       Inr (N, ap') \<and> process_managers ap' = process_managers (live_app lv)"
proof -
  obtain N ap where o: "open_store no_failure (path_of ''/tmp'') live_sample sample_builder sample_world empty_disk [] (Some 0) =
     Inr (N, ap)" by (rule sample_opens [of live_sample]) simp
  note n = sample_opened [OF o, simplified]
  let ?lv = "run_live_loop N live_config_default open_channel [Poll, Signal, Stop] (live_start live_config_default ap)"
  have r: "live_reachable N live_config_default open_channel (live_start live_config_default ap) ?lv"
    using live_reachable_run by blast
  have "phase (live_start live_config_default ap) = Connecting" "\<not> shutdown_seen (live_start live_config_default ap)"
    by (simp_all add: live_start_def live_config_default_def)
  then have "\<exists>items. phase (poll_step N live_config_default open_channel (live_start live_config_default ap)) = Streaming items AtNext"
    using n(3-5) by (simp add: poll_step_def connect_step_def replay_subscribe Let_def)
  then have p: "phase ?lv = Returned (Inr ())"
    by (auto simp: run_live_loop_def shutdown_step_def)
  have b: "built sample_builder" unfolding sample_builder_def by (intro built.intros)
  have d: "disk_setting (cfg_ext N) ap" using n by simp
  obtain ap' where "open_store no_failure (path_of ''/tmp'') live_sample sample_builder (world (live_app ?lv))
      (app_fs (live_app ?lv)) [] None = Inr (N, ap') \<and> process_managers ap' = process_managers (live_app ?lv)"
    using restart_after_shutdown [OF o d r p b, of "world (live_app ?lv)" "[]" None] by metis
  with o show ?thesis by - (rule exI [of _ N], rule exI [of _ ap], rule exI [of _ ?lv], rule exI [of _ ap'], simp)
qed

end
