(* ===== verification/System.thy ===== *)
theory System
  imports Live_Correct
begin

text \<open>
  The whole system: the live loop runs while clients use the same store and other processes
  write to the same server. The operations of clients come between any two steps of the loop.
\<close>

inductive system_step ::
  "('w, 'a, 'c, 'e, 'err) config \<Rightarrow> live_config \<Rightarrow> watch_send \<Rightarrow> ('w \<Rightarrow> 'w \<Rightarrow> bool)
    \<Rightarrow> (nat \<times> string) set \<Rightarrow> ('w, 'a, 'p, 'q) live \<Rightarrow> ('w, 'a, 'p, 'q) live \<Rightarrow> bool" for N cfg send G X where
  loop: "system_step N cfg send G X lv (live_step N cfg send ev lv)"
| client: "store_step N G X (live_app lv) ap \<Longrightarrow> system_step N cfg send G X lv (lv\<lparr>live_app := ap\<rparr>)"

subsection \<open>Consumers only move forward\<close>

lemma end_position_mono:
  assumes "log_ok (es @ fs)"
  shows "end_position es \<le> end_position (es @ fs)"
proof (cases "fs = []")
  case False
  then have "last fs \<in> set (es @ fs)" "end_position es \<le> re_global_position (last fs)"
    using after_end [OF assms] by simp_all
  with before_end [OF assms, of "last fs"] show ?thesis by (simp add: less_imp_le order_trans)
qed simp

lemma log_setting_const:
  assumes "live_setting N log"
  shows "log_setting N (\<lambda>_. log)"
proof -
  have part: "delivers_part log pos items" if a: "live_part log (\<lambda>g. g < pos) items" for pos items
  proof -
    obtain k n where kn: "live_delivered items = take n (drop k log)" "\<forall>r \<in> set (take k log). re_global_position r < pos"
      using a unfolding live_part_def by metis
    have "prefix (delivered items) (live_delivered items)" for items
      by (induction items rule: live_delivered.induct) (auto split: option.splits sub_content.splits)
    then obtain rest where "live_delivered items = delivered items @ rest" by (auto simp: prefix_def)
    then have "delivered items = take (length (delivered items)) (take n (drop k log))" using kn(1) by simp
    then have "delivered items = take (min (length (delivered items)) n) (drop k log)" by (simp add: take_take)
    with kn(2) show ?thesis unfolding delivers_part_def by blast
  qed
  show ?thesis
    unfolding log_setting_def
  proof (intro conjI allI impI)
    show "tracks (\<lambda>w w'. prefix log log) (cfg_ops N) (new_v4 N)" by (simp add: tracks_def)
    fix pos w r w' items
    assume "es_subscribe_all_from (cfg_ext N) (cfg_rpc N) (client N) pos w = (r, w')" "r = Inr items"
    with assms part show "delivers_part log pos items" unfolding live_setting_def by blast
  qed simp
qed

lemma pm_catch_up_forward:
  assumes "log_setting N (\<lambda>_. log)" and "log_ok log" and "pm_ok (cfg_ext N) log P rn"
    and "pm_catch_up (cfg_ext N) P (cfg_rpc N) (client N) rn w = (r, rn', w')"
  shows "pm_position rn \<le> pm_position rn'"
proof -
  let ?pos = "pmc_last_global_position (pm_checkpoint rn)"
  obtain q w1 where sub: "es_subscribe_all_from (cfg_ext N) (cfg_rpc N) (client N) ?pos w = (q, w1)"
    by fastforce
  show ?thesis
  proof (cases q)
    case (Inl e)
    with assms(4) sub show ?thesis by (simp add: pm_catch_up_def)
  next
    case (Inr items)
    obtain ck where ck: "pm_process_stream (cfg_ext N) P items [] (pm_checkpoint rn) = (r, ck)"
      "rn' = rn\<lparr>pm_checkpoint := ck\<rparr>"
      using assms(4) sub Inr by (auto simp: pm_catch_up_def split: prod.splits)
    obtain es fs where es: "log = es @ fs" "pm_at (cfg_ext N) P es (pm_checkpoint rn)"
      using assms(3) by (auto simp: pm_ok_def prefix_def)
    have "delivers_part (es @ fs) ?pos items" using log_setting_subscribe(2) [OF assms(1) sub Inr] es(1) by simp
    then obtain gs hs where gs: "fs = gs @ hs" "pm_at (cfg_ext N) P (es @ gs) ck"
      using pm_process_stream_part [OF _ es(2) _ ck(1)] assms(2) es(1) by blast
    have "log_ok (es @ gs)" using log_ok_prefix [OF assms(2)] es(1) gs(1) by (simp add: prefix_def)
    from end_position_mono [OF this] es(2) gs(2) ck(2) show ?thesis by (simp add: pm_at_def pm_position_def)
  qed
qed

lemma projection_catch_up_forward:
  assumes "log_setting N (\<lambda>_. log)" and "log_ok log" and "projection_ok (cfg_ext N) log P rn"
    and "projection_catch_up (cfg_ext N) P (cfg_rpc N) (client N) rn w F = (r, rn', w', F')"
  shows "projection_position rn \<le> projection_position rn'"
proof -
  let ?pos = "pc_last_global_position (checkpoint rn)"
  obtain q w1 where sub: "es_subscribe_all_from (cfg_ext N) (cfg_rpc N) (client N) ?pos w = (q, w1)"
    by fastforce
  show ?thesis
  proof (cases q)
    case (Inl e)
    with assms(4) sub show ?thesis by (simp add: projection_catch_up_def)
  next
    case (Inr items)
    obtain r1 ck where ck: "process_stream (cfg_ext N) P items (checkpoint rn) = (r1, ck)" by fastforce
    have rn': "rn' = rn\<lparr>checkpoint := ck\<rparr>"
      using assms(4) sub Inr ck by (auto simp: projection_catch_up_def split: sum.splits prod.splits)
    obtain es fs where es: "log = es @ fs" "projection_at (cfg_ext N) P es (checkpoint rn)"
      using assms(3) by (auto simp: projection_ok_def prefix_def)
    have "delivers_part (es @ fs) ?pos items" using log_setting_subscribe(2) [OF assms(1) sub Inr] es(1) by simp
    then obtain gs hs where gs: "fs = gs @ hs" "projection_at (cfg_ext N) P (es @ gs) ck"
      using process_stream_part [OF _ es(2) _ ck] assms(2) es(1) by blast
    have "log_ok (es @ gs)" using log_ok_prefix [OF assms(2)] es(1) gs(1) by (simp add: prefix_def)
    from end_position_mono [OF this] es(2) gs(2) rn' show ?thesis
      by (simp add: projection_at_def projection_position_def)
  qed
qed

lemma collect_work_forward:
  assumes "log_setting N (\<lambda>_. log)" and "log_ok log"
    and "\<forall>pm \<in> set pms. pm_ok (cfg_ext N) log (rpm_manager pm) (rpm_runner pm)"
    and "collect_work N pms w = (r, pms', w')"
  shows "list_all2 (\<lambda>pm pm'. pm_position (rpm_runner pm) \<le> pm_position (rpm_runner pm')) pms pms'"
  using assms(3,4)
proof (induction pms arbitrary: w r pms' w')
  case (Cons pm pms)
  obtain q rn w1 where c: "pm_catch_up (cfg_ext N) (rpm_manager pm) (cfg_rpc N) (client N) (rpm_runner pm) w = (q, rn, w1)"
    by (metis prod_cases3)
  have one: "pm_position (rpm_runner pm) \<le> pm_position rn"
    by (rule pm_catch_up_forward [OF assms(1,2) _ c]) (use Cons.prems(1) in simp)
  show ?case
  proof (cases q)
    case (Inl e)
    with Cons.prems(2) c one show ?thesis by (auto simp: list_all2_same)
  next
    case (Inr envelopes)
    obtain q2 pms2 w2 where rest: "collect_work N pms w1 = (q2, pms2, w2)" by (metis prod_cases3)
    have "pms' = pm\<lparr>rpm_runner := rn\<rparr> # pms2"
      using Cons.prems(2) c rest Inr by (auto split: sum.splits)
    with one Cons.IH [OF _ rest] Cons.prems(1) show ?thesis by simp
  qed
qed simp

text \<open>What an operation does to the consumers: nothing, a round, or one pull.\<close>

lemma run_process_managers_round:
  assumes "run_process_managers N ap = (r, ap')"
  shows "projections ap' = projections ap \<and>
    (\<exists>q w. collect_work N (process_managers ap) (world ap) = (q, process_managers ap', w))"
proof -
  obtain q pms w where c: "collect_work N (process_managers ap) (world ap) = (q, pms, w)"
    by (metis prod_cases3)
  have "process_managers ap' = pms \<and> projections ap' = projections ap"
  proof (cases q)
    case (Inl e)
    with assms c show ?thesis by (auto simp: run_process_managers_def)
  next
    case (Inr work)
    let ?ap0 = "ap\<lparr>process_managers := pms, world := w\<rparr>"
    obtain q2 ap1 where d: "dispatch_all N (flatten_work work) (report_default, ?ap0) = (q2, ap1)" by fastforce
    have "process_managers ap' = process_managers ap1 \<and> projections ap' = projections ap1"
      using assms c d Inr by (cases q2) (auto simp: run_process_managers_def split: sum.splits prod.splits)
    with dispatch_all_framed [of N "flatten_work work" report_default ?ap0] d show ?thesis by simp
  qed
  with c show ?thesis by simp
qed

lemma store_step_kinds:
  assumes "store_step N G X ap ap'"
  obtains (same) "projections ap' = projections ap" "process_managers ap' = process_managers ap"
  | (round) q w w' where "projections ap' = projections ap"
      "collect_work N (process_managers ap) w = (q, process_managers ap', w')"
  | (pull) k rp q rn w F w' F' where "process_managers ap' = process_managers ap"
      "map_of (projections ap) k = Some rp"
      "projection_catch_up (cfg_ext N) (rp_projection rp) (cfg_rpc N) (client N) (rp_runner rp) w F = (q, rn, w', F')"
      "projections ap' = update_first k (rp\<lparr>rp_runner := rn\<rparr>) (projections ap)"
proof -
  have rnd: thesis if m: "run_process_managers N a = (r, ap')" and a: "projections a = projections ap"
    "process_managers a = process_managers ap" for a r
    using round run_process_managers_round [OF m] a by metis
  show thesis
    using assms
  proof (cases rule: store_step.cases)
    case (get tid i r)
    with same store_get_framed [of ap N tid i] show thesis by (simp add: framed_def)
  next
    case (execute tid i cmd ctx r)
    with same store_execute_framed [of ap N tid i cmd ctx] show thesis by (simp add: framed_def)
  next
    case (state tid i r)
    have "framed ap ap'"
      using call_actor_framed [of ap N tid i GetState] state
      by (auto simp: store_state_def split: prod.splits)
    with same show thesis by (simp add: framed_def)
  next
    case (inject_via tid i p r)
    with same call_actor_framed [of ap N tid i "Inject p"] show thesis by (simp add: framed_def)
  next
    case (inject tid i p b r)
    let ?sid = "stream_uuid (cfg_ext N) (AGGREGATE_TYPE (types N tid)) i"
    obtain q w where a: "es_append (cfg_ext N) (cfg_rpc N) (client N) ?sid Any [p] (world ap) = (q, w)"
      by fastforce
    show thesis
    proof (cases "\<exists>u. q = Inr u \<and> b")
      case False
      then have "ap' = ap\<lparr>world := w\<rparr>"
        using inject a by (auto simp: inject_event_def Let_def split: sum.splits)
      with same show thesis by simp
    next
      case True
      obtain q2 ap2 where p: "run_process_managers N (ap\<lparr>world := w\<rparr>) = (q2, ap2)" by fastforce
      have "ap' = ap2"
        using True inject a p by (auto simp: inject_event_def Let_def split: sum.splits)
      with p rnd [of "ap\<lparr>world := w\<rparr>" q2] show thesis by simp
    qed
  next
    case (managers r)
    then show thesis by (rule rnd) simp_all
  next
    case (elapses tid i K st)
    with same show thesis by (simp add: actor_elapses_def Let_def)
  next
    case (projection P tid r)
    then show thesis
    proof (cases rule: store_projection_cases)
      case same: same
      then show thesis using that(1) by simp
    next
      case (caught rp q rn w F)
      then show thesis using pull [of "NAME P" rp "world ap" "app_fs ap" q rn w F] by simp
    qed
  qed (use same in simp_all)
qed

lemma all_past_mono:
  assumes "list_all2 (\<le>) (positions ap) (positions ap')"
  shows "forward ap ap'"
proof -
  have "\<exists>p \<in> set (positions ap). p \<le> q" if "q \<in> set (positions ap')" for q
    using assms that by (induction rule: list_all2_induct) auto
  then show ?thesis unfolding forward_def all_past_def by (blast intro: less_le_trans)
qed

lemma update_first_le:
  assumes "map_of m k = Some x" and "f x \<le> (f y :: u64)"
  shows "list_all2 (\<lambda>a b. f (snd a) \<le> f (snd b)) m (update_first k y m)"
  using assms by (induction k y m rule: update_first.induct) (auto simp: list_all2_same)

lemma store_step_forward:
  assumes "live_setting N log" and "consumers_ok (cfg_ext N) log ap" and "store_step N G X ap ap'"
  shows "consumers_ok (cfg_ext N) log ap' \<and> forward ap ap'"
proof
  note const = log_setting_const [OF assms(1)]
  have ok: "log_ok log" using assms(1) by (simp add: live_setting_def)
  have "consumers_inv N (\<lambda>_. log) ap" using assms(2) by (simp add: consumers_inv_def consumers_ok_def)
  from store_step_consumers [OF const _ assms(3) this] ok
  show "consumers_ok (cfg_ext N) log ap'" by (simp add: consumers_inv_def consumers_ok_def)
  show "forward ap ap'"
    using assms(3)
  proof (cases rule: store_step_kinds)
    case same
    with same_consumers(2) show ?thesis by (metis forward_def)
  next
    case (round q w w')
    have "list_all2 (\<lambda>pm pm'. pm_position (rpm_runner pm) \<le> pm_position (rpm_runner pm'))
        (process_managers ap) (process_managers ap')"
      by (rule collect_work_forward [OF const ok _ round(2)]) (use assms(2) in \<open>simp add: consumers_ok_def\<close>)
    with round(1) show ?thesis
      by (intro all_past_mono) (simp add: positions_def list_all2_map1 list_all2_map2 list_all2_same list_all2_appendI)
  next
    case (pull k rp q rn w F w' F')
    have "(k, rp) \<in> set (projections ap)" using pull(2) by (rule map_of_SomeD)
    then have "projection_ok (cfg_ext N) log (rp_projection rp) (rp_runner rp)"
      using assms(2) by (auto simp: consumers_ok_def)
    from projection_catch_up_forward [OF const ok this pull(3)]
    have "list_all2 (\<lambda>a b. projection_position (rp_runner (snd a)) \<le> projection_position (rp_runner (snd b)))
        (projections ap) (projections ap')"
      unfolding pull(4) using update_first_le [OF pull(2), of "\<lambda>x. projection_position (rp_runner x)"] by simp
    with pull(1) show ?thesis
      by (intro all_past_mono) (simp add: positions_def list_all2_map1 list_all2_map2 list_all2_same list_all2_appendI)
  qed
qed

lemma live_inv_client:
  assumes "live_inv E log lv" and "consumers_ok E log ap" and "forward (live_app lv) ap"
  shows "live_inv E log (lv\<lparr>live_app := ap\<rparr>)"
proof -
  have "live_part log (all_past ap) items" if "live_part log (all_past (live_app lv)) items" for items
    using that assms(3) unfolding live_part_def forward_def by blast
  with assms show ?thesis
    by (auto simp: live_inv_def forward_def split: live_phase.splits stream_point.splits)
qed

subsection \<open>Actors\<close>

text \<open>The envelopes a live loop has still to dispatch go to dead-letter logs.\<close>

definition paths_ok :: "('w, 'a, 'p, 'q) live \<Rightarrow> bool" where
  "paths_ok lv \<longleftrightarrow>
     (case phase lv of
        Streaming items (Dispatching g work) \<Rightarrow> \<forall>(envelope, p) \<in> set work. log_name p
      | _ \<Rightarrow> True)"

lemma react_all_paths:
  "react_all E r pms = (pms', work) \<Longrightarrow> \<forall>(envelopes, p) \<in> set work. log_name p"
proof (induction pms arbitrary: pms' work)
  case (Cons pm pms)
  then show ?case by (auto simp: Let_def dead_letter_path_name split: prod.splits if_splits)
qed simp

lemma fan_out_pms_paths:
  assumes "fan_out_pms N r ap = (ap', work)"
  shows "\<forall>(envelope, p) \<in> set work. log_name p"
proof -
  obtain pms work' where re: "react_all (cfg_ext N) r (process_managers ap) = (pms, work')" by fastforce
  then have "work = flatten_work work'" using assms by (simp add: fan_out_pms_def)
  with react_all_paths [OF re] show ?thesis by (auto simp: flatten_work_def)
qed

lemma save_all_keeps:
  assumes "app_inv N J strm ap" and "timeouts ap = []"
  shows "keeps N J strm ap (save_all_checkpoints N ap)"
proof (rule keeps_env [OF assms])
  have "files (app_fs (save_all_checkpoints N ap)) p = files (app_fs ap) p" if "snapshot_name p" for p
    by (rule save_all_files) (use that names_differ(2) in blast)
  moreover have "io_fails (app_fs (save_all_checkpoints N ap)) = io_fails (app_fs ap)"
    using save_all_same_setting [of ap N] by (simp add: same_setting_def)
  ultimately show "snapshots_kept (app_fs ap) (app_fs (save_all_checkpoints N ap))"
    by (simp add: snapshots_kept_def)
qed (simp_all add: save_all_checkpoints_def)

lemma live_dispatch_one_keeps:
  assumes "cfg_setting N strm" and "app_inv N J strm ap" and "timeouts ap = []" and "log_name p"
    and "live_dispatch_one N p envelope ap = (r, ap')"
  shows "keeps N J strm ap ap'"
proof -
  obtain q ap1 where d: "dispatch_or_error N envelope ap = (q, ap1)" by fastforce
  note k = dispatch_or_error_keeps [OF assms(1-3) d]
  show ?thesis
  proof (cases q)
    case (Inr u)
    with assms(5) d k show ?thesis by (simp add: live_dispatch_one_def)
  next
    case (Inl err)
    obtain q2 ap2 where l: "dead_letter N p envelope err ap1 = (q2, ap2)" by fastforce
    have "keeps N J strm ap1 ap2"
      using dead_letter_keeps [OF _ _ _ l] keepsD [OF k] names_differ(1) assms(4) by blast
    then have "keeps N J strm ap ap2" by (rule keeps_trans [OF k])
    moreover have "ap' = ap2"
      using assms(5) d l Inl by (auto simp: live_dispatch_one_def split: sum.splits fault.splits)
    ultimately show ?thesis by simp
  qed
qed

lemma stream_step_keeps:
  assumes "cfg_setting N strm" and "app_inv N J strm (live_app lv)" and "timeouts (live_app lv) = []"
    and "phase lv = Streaming items pt" and "paths_ok lv"
  shows "keeps N J strm (live_app lv) (live_app (stream_step N cfg send items pt lv)) \<and>
    paths_ok (stream_step N cfg send items pt lv)"
proof (cases pt)
  case AtNext
  note save = save_all_keeps [OF assms(2,3)]
  show ?thesis
  proof (cases items)
    case Nil
    with AtNext save show ?thesis by (simp add: ended_step_def paths_ok_def)
  next
    case (Cons item its)
    show ?thesis
    proof (cases item)
      case (Inl e)
      with AtNext Cons save show ?thesis by (simp add: broken_step_def paths_ok_def)
    next
      case (Inr resp)
      have fan: "keeps N J strm (live_app lv) ap \<and> (\<forall>(envelope, p) \<in> set work. log_name p)"
        if f: "fan_out_pms N r (fan_out_projections N r (live_app lv)) = (ap, work)" for r ap work
      proof
        show "keeps N J strm (live_app lv) ap"
          using f by (intro keeps_env [OF assms(2,3)])
            (auto simp: fan_out_pms_def fan_out_projections_def split: prod.splits)
        show "\<forall>(envelope, p) \<in> set work. log_name p" by (rule fan_out_pms_paths [OF f])
      qed
      have same: "keeps N J strm (live_app lv) (live_app lv)" by (rule keeps_refl [OF assms(2,3)])
      from fan same AtNext Cons Inr show ?thesis
        by (auto simp: paths_ok_def Let_def split: option.splits sub_content.splits prod.splits)
    qed
  qed
next
  case (Dispatching g work)
  show ?thesis
  proof (cases work)
    case Nil
    with Dispatching keeps_refl [OF assms(2,3)] show ?thesis by (simp add: paths_ok_def)
  next
    case (Cons x rest)
    obtain envelope p where x: "x = (envelope, p)" by fastforce
    obtain q ap where d: "live_dispatch_one N p envelope (live_app lv) = (q, ap)" by fastforce
    have p: "log_name p" "\<forall>(envelope, p) \<in> set rest. log_name p"
      using assms(4,5) Dispatching Cons x by (simp_all add: paths_ok_def)
    from live_dispatch_one_keeps [OF assms(1-3) p(1) d] p(2) Dispatching Cons x d show ?thesis
      by (cases q) (simp_all add: paths_ok_def)
  qed
qed

lemma live_step_keeps:
  assumes "cfg_setting N strm" and "app_inv N J strm (live_app lv)" and "timeouts (live_app lv) = []"
    and "paths_ok lv"
  shows "keeps N J strm (live_app lv) (live_app (live_step N cfg send ev lv)) \<and>
    paths_ok (live_step N cfg send ev lv)"
proof (cases rule: live_step_cases [of N cfg send ev lv, case_names same connect wake stream stop tick])
  case same
  with assms(4) keeps_refl [OF assms(2,3)] show ?thesis by (simp add: paths_ok_def)
next
  case connect
  have "keeps N J strm (live_app lv) ((live_app lv)\<lparr>world := w\<rparr>)"
    if "es_subscribe_all_from (cfg_ext N) (cfg_rpc N) (client N) pos (world (live_app lv)) = (r, w)" for pos r w
    by (rule keeps_env [OF assms(2,3)]) (simp_all add: subscribe_grows [OF assms(1) that])
  with connect save_all_keeps [OF assms(2,3)] show ?thesis
    by (auto simp: connect_step_def paths_ok_def Let_def split: sum.splits prod.splits)
next
  case (wake saved)
  with keeps_refl [OF assms(2,3)] show ?thesis by (simp add: paths_ok_def)
next
  case (stream items pt)
  with stream_step_keeps [OF assms(1-3) stream(1) assms(4)] show ?thesis by simp
next
  case stop
  with save_all_keeps [OF assms(2,3)] keeps_refl [OF assms(2,3)] assms(4) show ?thesis
    by (auto simp: shutdown_step_def paths_ok_def split: live_phase.splits bool.splits)
next
  case (tick items pt)
  with save_all_keeps [OF assms(2,3)] assms(4) show ?thesis by (simp add: paths_ok_def)
qed

subsection \<open>The invariant of the system\<close>

lemma system_step_inv:
  assumes "cfg_setting N strm" and "live_setting N log" and "watch_ok send"
    and "\<And>w w'. G w w' \<Longrightarrow> grows strm w w'" and "exits_apart N J X"
    and "system_step N cfg send G X lv lv'"
    and "live_inv (cfg_ext N) log lv" and "app_inv N J strm (live_app lv)" and "timeouts (live_app lv) = []"
    and "paths_ok lv"
  shows "keeps N J strm (live_app lv) (live_app lv') \<and> live_inv (cfg_ext N) log lv' \<and> paths_ok lv'"
  using assms(6)
proof (cases rule: system_step.cases)
  case (loop ev)
  with live_step_keeps [OF assms(1,8-10)] live_step_inv [OF assms(2,3,7)] show ?thesis by simp
next
  case (client ap)
  have "keeps N J strm (live_app lv) ap"
    by (rule store_step_keeps [OF assms(1,4,5) client(2) assms(8,9)])
  moreover have "consumers_ok (cfg_ext N) log (live_app lv)" using assms(7) by (simp add: live_inv_def)
  note store_step_forward [OF assms(2) this client(2)]
  ultimately show ?thesis using client(1) live_inv_client [OF assms(7)] assms(10) by (simp add: paths_ok_def)
qed

lemma system_runs_inv:
  assumes "cfg_setting N strm" and "live_setting N log" and "watch_ok send"
    and "\<And>w w'. G w w' \<Longrightarrow> grows strm w w'" and "exits_apart N J X"
    and "app_inv N J strm ap" and "consumers_ok (cfg_ext N) log ap" and "timeouts ap = []"
    and "(system_step N cfg send G X)\<^sup>*\<^sup>* (live_start cfg0 ap) lv"
  shows "keeps N J strm ap (live_app lv) \<and> live_inv (cfg_ext N) log lv \<and> paths_ok lv"
  using assms(9)
proof (induction rule: rtranclp_induct)
  case base
  have "keeps N J strm ap ap" by (rule keeps_refl [OF assms(6,8)])
  with assms(7) show ?case by (simp add: live_inv_def live_start_def paths_ok_def)
next
  case (step lv1 lv2)
  then have k: "keeps N J strm ap (live_app lv1)" by simp
  have "keeps N J strm (live_app lv1) (live_app lv2) \<and> live_inv (cfg_ext N) log lv2 \<and> paths_ok lv2"
    using system_step_inv [OF assms(1-3,4,5) step(2)] step(3) keepsD [OF k] by blast
  with keeps_trans [OF k] show ?case by blast
qed

end
