(* ===== verification/System_Properties.thy ===== *)
theory System_Properties
  imports System Live_Properties
begin

text \<open>
  The invariant of the running system: live loop, clients of the store and other writers
  together.
\<close>

text \<open>
  C2. In every state of the running system, where clients use the store between any two steps of
  the live loop, other processes write to the server and actors in \<open>X\<close> that have seen an event exit
  idle, when their snapshots are in files of their own: every running actor in \<open>J\<close> and its
  snapshot is the fold of a prefix of its stream, every projection and process manager is the
  fold of a prefix of the log, whichever of the loop, a round and a pull moved it, streams are
  only appended to, and a position the loop has told its subscribers is one every consumer is
  past.
\<close>

theorem system_invariant:
  assumes "cfg_setting N strm" and "live_setting N log" and "watch_ok send"
    and "\<And>w w'. G w w' \<Longrightarrow> grows strm w w'" and "exits_apart N J X"
    and "app_inv N J strm ap" and "consumers_ok (cfg_ext N) log ap" and "timeouts ap = []"
    and "(system_step N cfg send G X)\<^sup>*\<^sup>* (live_start cfg ap) lv"
  shows "app_inv N J strm (live_app lv) \<and> consumers_ok (cfg_ext N) log (live_app lv) \<and>
    grows strm (world ap) (world (live_app lv)) \<and>
    (position lv = 0 \<or> all_past (live_app lv) (position lv))"
  using system_runs_inv [OF assms(1-3,4) assms(5-9)] by (simp add: keeps_def live_inv_def)

lemma live_sample_setting: "cfg_setting live_sample mem_stream"
proof -
  have "rpc_contract replay_rpc mem_stream"
    using mem_rpc_contract by (simp add: rpc_contract_def replay_rpc_def)
  moreover have "mem_stream (snd (mem_rng w)) sid = mem_stream w sid" for w sid
    by (simp add: mem_stream_def mem_rng_def)
  ultimately show ?thesis
    using env_ok counter_agg.adjacently_tagged_axioms
    by (simp add: cfg_setting_def live_sample_def sample_config_def replay_rpc_def)
qed

lemma same_setting_length: "same_setting ap ap' \<Longrightarrow> length (projections ap') = length (projections ap)"
  by (drule same_setting_shapes, drule arg_cong [where f = length]) simp

lemma update_first_length: "length (update_first k v m) = length m"
  by (induction k v m rule: update_first.induct) simp_all

lemma store_projection_length:
  assumes "store_projection N P tid ap = (r, ap')"
  shows "length (projections ap') = length (projections ap)"
  using assms by (cases rule: store_projection_cases) (simp_all add: update_first_length)

text \<open>The loop connects, a client pulls the projection, the loop handles its first event.\<close>

theorem system_invariant_witness:
  "\<exists>lv1 ap2 lv3. lv1 = live_step live_sample live_config_default open_channel Poll (live_start live_config_default sample_app) \<and>
     snd (store_projection live_sample TotalCounter 0 (live_app lv1)) = ap2 \<and>
     lv3 = live_step live_sample live_config_default open_channel Poll (lv1\<lparr>live_app := ap2\<rparr>) \<and>
     projections (live_app lv3) \<noteq> [] \<and>
     app_inv live_sample sample_instances mem_stream (live_app lv3) \<and> consumers_ok env (mem_global sample_world) (live_app lv3)"
proof -
  let ?lv0 = "live_start live_config_default sample_app"
  let ?lv1 = "live_step live_sample live_config_default open_channel Poll ?lv0"
  obtain r ap2 where p: "store_projection live_sample TotalCounter 0 (live_app ?lv1) = (r, ap2)" by fastforce
  let ?lv2 = "?lv1\<lparr>live_app := ap2\<rparr>"
  let ?lv3 = "live_step live_sample live_config_default open_channel Poll ?lv2"
  let ?step = "system_step live_sample live_config_default open_channel (\<lambda>w w'. w' = w) sample_instances"
  have "?step ?lv0 ?lv1" "?step ?lv2 ?lv3" by (rule system_step.loop)+
  moreover have "?step ?lv1 ?lv2" by (rule system_step.client [OF store_step.projection [OF p]])
  ultimately have run: "?step\<^sup>*\<^sup>* ?lv0 ?lv3" by (meson converse_rtranclp_into_rtranclp rtranclp.rtrancl_refl)
  have e: "exits_apart live_sample sample_instances sample_instances"
    using sample_exits_apart by (simp add: exits_apart_def snapshot_file_of_def live_sample_def)
  have a: "app_inv live_sample sample_instances mem_stream sample_app" by (simp add: app_inv_def disk_inv_empty)
  have c: "consumers_ok (cfg_ext live_sample) (mem_global sample_world) sample_app" using sample_consumers_ok by simp
  have t: "timeouts sample_app = []" by simp
  from system_invariant [OF live_sample_setting sample_live_setting open_channel_ok _ e a c t run]
  have "app_inv live_sample sample_instances mem_stream (live_app ?lv3) \<and> consumers_ok env (mem_global sample_world) (live_app ?lv3)"
    by simp
  moreover have "projections (live_app ?lv3) \<noteq> []"
    using same_setting_length [OF live_step_setting [of ?lv2 live_sample live_config_default open_channel Poll]]
      same_setting_length [OF live_step_setting [of ?lv0 live_sample live_config_default open_channel Poll]]
      store_projection_length [OF p] by (auto simp: live_start_def)
  ultimately show ?thesis using p by auto
qed

end
