(* ===== verification/Concurrent.thy ===== *)
theory Concurrent
  imports Store_Runs
begin

text \<open>
  Clients of a store that overlap: \<open>AggregateStore::get\<close> in its four steps, between which other
  calls run, and the actors as tasks of their own. A handle is the number of the actor task its
  channel leads to, so that a handle survives in the hands of a client when the cache has
  another one for the instance.
\<close>

subsection \<open>The state\<close>

record ('w, 'a) task =
  task_type :: nat
  task_id :: string
  task_context :: actor_context
  task_state :: "('w, 'a) actor_state"
  task_alive :: bool

definition task_key :: "('w, 'a) task \<Rightarrow> nat \<times> string" where
  "task_key r = (task_type r, task_id r)"

text \<open>
  Where a call of \<open>get\<close> is: before the look at the cache, after a miss, after the stale entry
  is gone, after the actor is spawned, and at its end.
\<close>

datatype get_phase = Looking | Missed | Evicted | Spawned nat | Got nat | Failed status

record ('w, 'a) pool =
  pool_world :: 'w
  pool_fs :: fs
  pool_cache :: "nat \<times> string \<Rightarrow> nat option"
  tasks :: "('w, 'a) task list"
  gets :: "((nat \<times> string) \<times> get_phase) list"

subsection \<open>The steps\<close>

definition is_alive :: "('w, 'a) pool \<Rightarrow> nat \<Rightarrow> bool" where
  "is_alive P h \<longleftrightarrow> task_alive (tasks P ! h)"

fun get_step ::
  "('w, 'a, 'c, 'e, 'err) config \<Rightarrow> nat \<times> string \<Rightarrow> get_phase \<Rightarrow> ('w, 'a) pool
    \<Rightarrow> get_phase \<times> ('w, 'a) pool" where
  "get_step N key Looking P =
     (case pool_cache P key of
        Some h \<Rightarrow> (if is_alive P h then (Got h, P) else (Missed, P))
      | None \<Rightarrow> (Missed, P))"
| "get_step N key Missed P = (Evicted, P\<lparr>pool_cache := (pool_cache P)(key := None)\<rparr>)"
| "get_step N key Evicted P =
     (case spawn_state (cfg_ext N) (types N (fst key)) (cfg_ops N) (cfg_base_dir N) (snd key)
             (pool_world P) (pool_fs P) of
        (Inl status, w) \<Rightarrow> (Failed status, P\<lparr>pool_world := w\<rparr>)
      | (Inr (K, st), w) \<Rightarrow>
          (Spawned (length (tasks P)),
           P\<lparr>pool_world := w, tasks := tasks P @ [\<lparr>task_type = fst key, task_id = snd key,
               task_context = K, task_state = st, task_alive = True\<rparr>]\<rparr>))"
| "get_step N key (Spawned h) P = (Got h, P\<lparr>pool_cache := (pool_cache P)(key \<mapsto> h)\<rparr>)"
| "get_step N key (Got h) P = (Got h, P)"
| "get_step N key (Failed status) P = (Failed status, P)"

text \<open>One turn of the actor behind a handle, on what its \<open>recv\<close> yields.\<close>

definition task_turn ::
  "('w, 'a, 'c, 'e, 'err) config \<Rightarrow> nat \<Rightarrow> 'c actor_message received \<Rightarrow> ('w, 'a) pool
    \<Rightarrow> ('a, 'e, 'err) reply option \<times> ('w, 'a) pool" where
  "task_turn N h m P =
     (let r = tasks P ! h
      in if is_alive P h then
           (case actor_step (cfg_ext N) (types N (task_type r)) (cfg_ops N) (new_v4 N) (task_context r) m
                   ((task_state r)\<lparr>store := pool_world P, disk := pool_fs P\<rparr>) of
              (rep, status, st) \<Rightarrow>
                (rep, P\<lparr>pool_world := store st, pool_fs := disk st, tasks := (tasks P)[h := r\<lparr>task_state := st,
                   task_alive := (case status of Running \<Rightarrow> True | _ \<Rightarrow> False)\<rparr>]\<rparr>))
         else (None, P))"

text \<open>
  What may happen next: a client calls \<open>get\<close>, a call moves on, a client sends a message on a
  handle it has, an actor of \<open>X\<close> that has seen an event exits, other processes act.
\<close>

inductive pool_step ::
  "('w, 'a, 'c, 'e, 'err) config \<Rightarrow> ('w \<Rightarrow> 'w \<Rightarrow> bool) \<Rightarrow> (nat \<times> string) set
    \<Rightarrow> ('w, 'a) pool \<Rightarrow> ('w, 'a) pool \<Rightarrow> bool" for N G X where
  call: "pool_step N G X P (P\<lparr>gets := gets P @ [(key, Looking)]\<rparr>)"
| moves: "t < length (gets P) \<Longrightarrow> gets P ! t = (key, ph) \<Longrightarrow> get_step N key ph P = (ph', P')
    \<Longrightarrow> pool_step N G X P (P'\<lparr>gets := (gets P')[t := (key, ph')]\<rparr>)"
| message: "h < length (tasks P) \<Longrightarrow> msg \<noteq> Shutdown \<Longrightarrow> task_turn N h (Message msg) P = (rep, P')
    \<Longrightarrow> pool_step N G X P P'"
| exits: "h < length (tasks P) \<Longrightarrow> task_key (tasks P ! h) \<in> X
    \<Longrightarrow> stream_version (task_state (tasks P ! h)) \<noteq> None \<Longrightarrow> task_turn N h m P = (rep, P')
    \<Longrightarrow> pool_step N G X P P'"
| others: "G (pool_world P) w \<Longrightarrow> pool_step N G X P (P\<lparr>pool_world := w\<rparr>)"

definition pool_init :: "'w \<Rightarrow> fs \<Rightarrow> ('w, 'a) pool" where
  "pool_init w F = \<lparr>pool_world = w, pool_fs = F, pool_cache = Map.empty, tasks = [], gets = []\<rparr>"

text \<open>One move of one call, and a call nothing interrupts.\<close>

definition pool_move :: "('w, 'a, 'c, 'e, 'err) config \<Rightarrow> nat \<Rightarrow> ('w, 'a) pool \<Rightarrow> ('w, 'a) pool" where
  "pool_move N t P =
     (case gets P ! t of (key, ph) \<Rightarrow>
        (case get_step N key ph P of (ph', P') \<Rightarrow> P'\<lparr>gets := (gets P')[t := (key, ph')]\<rparr>))"

definition get_alone ::
  "('w, 'a, 'c, 'e, 'err) config \<Rightarrow> nat \<times> string \<Rightarrow> ('w, 'a) pool \<Rightarrow> get_phase \<times> ('w, 'a) pool" where
  "get_alone N key P =
     (let (p1, P1) = get_step N key Looking P; (p2, P2) = get_step N key p1 P1;
          (p3, P3) = get_step N key p2 P2
      in get_step N key p3 P3)"

lemma pool_step_move: "t < length (gets P) \<Longrightarrow> pool_step N G X P (pool_move N t P)"
  unfolding pool_move_def by (auto split: prod.splits intro: pool_step.moves)

subsection \<open>Handles lead to the right actor\<close>

definition leads_to :: "('w, 'a, 'c, 'e, 'err) config \<Rightarrow> ('w, 'a) pool \<Rightarrow> nat \<Rightarrow> nat \<times> string \<Rightarrow> bool" where
  "leads_to N P h key \<longleftrightarrow> h < length (tasks P) \<and> task_key (tasks P ! h) = key \<and>
     task_context (tasks P ! h) = actor_context_of N (fst key) (snd key)"

definition well_typed :: "('w, 'a, 'c, 'e, 'err) config \<Rightarrow> ('w, 'a) pool \<Rightarrow> bool" where
  "well_typed N P \<longleftrightarrow>
     (\<forall>h < length (tasks P). leads_to N P h (task_key (tasks P ! h))) \<and>
     (\<forall>key h. pool_cache P key = Some h \<longrightarrow> leads_to N P h key) \<and>
     (\<forall>(key, ph) \<in> set (gets P). \<forall>h. ph = Spawned h \<or> ph = Got h \<longrightarrow> leads_to N P h key)"

lemma spawn_context:
  "spawn_state E A S base i w F = (Inr (K, st), w') \<Longrightarrow>
     K = \<lparr>stream_id = stream_uuid E (AGGREGATE_TYPE A) i, instance_id = i, base_dir = base\<rparr>"
  by (auto simp: spawn_state_def Let_def split: sum.splits prod.splits option.splits)

text \<open>Tasks are only added, and a turn keeps what a task is.\<close>

lemma leads_to_more:
  assumes "leads_to N P h key" and "tasks P' = tasks P @ rs"
  shows "leads_to N P' h key"
  using assms by (simp add: leads_to_def nth_append)

lemma leads_to_update:
  assumes "leads_to N P h key"
    and "tasks P' = (tasks P)[k := (tasks P ! k)\<lparr>task_state := st, task_alive := b\<rparr>]"
  shows "leads_to N P' h key"
  using assms by (cases "h = k") (auto simp: leads_to_def task_key_def)

lemma get_step_cases:
  assumes "get_step N key ph P = (ph', P')"
  obtains (hit) h where "ph = Looking" "pool_cache P key = Some h" "is_alive P h" "ph' = Got h" "P' = P"
  | (miss) "ph = Looking" "\<forall>h. pool_cache P key = Some h \<longrightarrow> \<not> is_alive P h" "ph' = Missed" "P' = P"
  | (evict) "ph = Missed" "ph' = Evicted" "P' = P\<lparr>pool_cache := (pool_cache P)(key := None)\<rparr>"
  | (fail) status w where "ph = Evicted" "ph' = Failed status" "P' = P\<lparr>pool_world := w\<rparr>"
      "spawn_state (cfg_ext N) (types N (fst key)) (cfg_ops N) (cfg_base_dir N) (snd key)
         (pool_world P) (pool_fs P) = (Inl status, w)"
  | (spawn) K st w where "ph = Evicted" "ph' = Spawned (length (tasks P))"
      "P' = P\<lparr>pool_world := w, tasks := tasks P @ [\<lparr>task_type = fst key, task_id = snd key,
               task_context = K, task_state = st, task_alive = True\<rparr>]\<rparr>"
      "spawn_state (cfg_ext N) (types N (fst key)) (cfg_ops N) (cfg_base_dir N) (snd key)
         (pool_world P) (pool_fs P) = (Inr (K, st), w)"
  | (insert) h where "ph = Spawned h" "ph' = Got h" "P' = P\<lparr>pool_cache := (pool_cache P)(key \<mapsto> h)\<rparr>"
  | (over) "ph' = ph" "P' = P" "(\<exists>h. ph = Got h) \<or> (\<exists>status. ph = Failed status)"
proof (cases ph)
  case Looking
  with assms hit miss show ?thesis by (auto split: option.splits if_splits)
next
  case Evicted
  obtain r w where s: "spawn_state (cfg_ext N) (types N (fst key)) (cfg_ops N) (cfg_base_dir N) (snd key)
      (pool_world P) (pool_fs P) = (r, w)" by fastforce
  show ?thesis
  proof (cases r)
    case (Inl status)
    show ?thesis by (rule fail [of status w]) (use Evicted Inl assms s in simp_all)
  next
    case (Inr a)
    then obtain K st where "r = Inr (K, st)" by (cases a) simp
    then show ?thesis by (intro spawn [of K st w]) (use Evicted assms s in simp_all)
  qed
next
  case (Spawned h)
  show ?thesis by (rule insert [of h]) (use Spawned assms in simp_all)
next
  case Missed
  show ?thesis by (rule evict) (use Missed assms in simp_all)
next
  case (Got h)
  show ?thesis by (rule over) (use Got assms in auto)
next
  case (Failed status)
  show ?thesis by (rule over) (use Failed assms in auto)
qed

lemma get_step_gets: "get_step N key ph P = (ph', P') \<Longrightarrow> gets P' = gets P"
  by (erule get_step_cases) simp_all

lemma task_turn_cases:
  assumes "task_turn N h m P = (rep, P')"
  obtains (gone) "\<not> is_alive P h" "rep = None" "P' = P"
  | (turn) status st where "is_alive P h"
      "actor_step (cfg_ext N) (types N (task_type (tasks P ! h))) (cfg_ops N) (new_v4 N)
         (task_context (tasks P ! h)) m
         ((task_state (tasks P ! h))\<lparr>store := pool_world P, disk := pool_fs P\<rparr>) = (rep, status, st)"
      "P' = P\<lparr>pool_world := store st, pool_fs := disk st, tasks := (tasks P)[h := (tasks P ! h)\<lparr>task_state := st,
         task_alive := (case status of Running \<Rightarrow> True | _ \<Rightarrow> False)\<rparr>]\<rparr>"
  using assms by (auto simp: task_turn_def Let_def split: if_splits prod.splits)

lemma well_typedD:
  assumes "well_typed N P"
  shows "h < length (tasks P) \<Longrightarrow> leads_to N P h (task_key (tasks P ! h))"
    and "pool_cache P key = Some h \<Longrightarrow> leads_to N P h key"
    and "(key, ph) \<in> set (gets P) \<Longrightarrow> ph = Spawned h \<or> ph = Got h \<Longrightarrow> leads_to N P h key"
  using assms unfolding well_typed_def by blast+

lemma well_typedI:
  assumes "\<And>h. h < length (tasks P) \<Longrightarrow> leads_to N P h (task_key (tasks P ! h))"
    and "\<And>key h. pool_cache P key = Some h \<Longrightarrow> leads_to N P h key"
    and "\<And>key ph h. (key, ph) \<in> set (gets P) \<Longrightarrow> ph = Spawned h \<or> ph = Got h \<Longrightarrow> leads_to N P h key"
  shows "well_typed N P"
  unfolding well_typed_def using assms by blast

lemma leads_to_gets [simp]: "leads_to N (P\<lparr>gets := g\<rparr>) h key = leads_to N P h key"
  by (simp add: leads_to_def)

text \<open>A step keeps what handles lead to, and what is new leads where it should.\<close>

lemma well_typed_mono:
  assumes "well_typed N P"
    and "\<And>h key. leads_to N P h key \<Longrightarrow> leads_to N P' h key"
    and "\<And>h. h < length (tasks P') \<Longrightarrow> h < length (tasks P) \<or> leads_to N P' h (task_key (tasks P' ! h))"
    and "\<And>key h. pool_cache P' key = Some h \<Longrightarrow> pool_cache P key = Some h \<or> leads_to N P' h key"
    and "\<And>key ph h. (key, ph) \<in> set (gets P') \<Longrightarrow> ph = Spawned h \<or> ph = Got h \<Longrightarrow>
      (key, ph) \<in> set (gets P) \<or> leads_to N P' h key"
  shows "well_typed N P'"
proof (rule well_typedI)
  fix h assume h: "h < length (tasks P')"
  have "leads_to N P' h (task_key (tasks P' ! h))" if "h < length (tasks P)"
  proof -
    have "leads_to N P' h (task_key (tasks P ! h))" using assms(2) well_typedD(1) [OF assms(1) that] by simp
    then show ?thesis by (simp add: leads_to_def)
  qed
  with assms(3) [OF h] show "leads_to N P' h (task_key (tasks P' ! h))" by blast
next
  fix key h assume "pool_cache P' key = Some h"
  with assms(2,4) well_typedD(2) [OF assms(1)] show "leads_to N P' h key" by blast
next
  fix key ph h assume "(key, ph) \<in> set (gets P')" "ph = Spawned h \<or> ph = Got h"
  with assms(2,5) well_typedD(3) [OF assms(1)] show "leads_to N P' h key" by blast
qed

lemma well_typed_gets:
  assumes "well_typed N P" and "\<And>h. ph = Spawned h \<or> ph = Got h \<Longrightarrow> leads_to N P h key"
  shows "well_typed N (P\<lparr>gets := (gets P)[t := (key, ph)]\<rparr>)"
proof (rule well_typed_mono [OF assms(1)])
  fix k q h assume x: "(k, q) \<in> set (gets (P\<lparr>gets := (gets P)[t := (key, ph)]\<rparr>))" "q = Spawned h \<or> q = Got h"
  then have "(k, q) \<in> set (gets P) \<or> (k, q) = (key, ph)"
    using set_update_subset_insert [of "gets P" t "(key, ph)"] by auto
  with assms(2) x(2)
  show "(k, q) \<in> set (gets P) \<or> leads_to N (P\<lparr>gets := (gets P)[t := (key, ph)]\<rparr>) h k" by auto
qed simp_all

lemma task_turn_well_typed:
  assumes "well_typed N P" and "task_turn N h m P = (rep, P')"
  shows "well_typed N P'"
  using assms(2)
proof (cases rule: task_turn_cases)
  case gone
  with assms(1) show ?thesis by simp
next
  case (turn status st)
  show ?thesis
  proof (rule well_typed_mono [OF assms(1)])
    show "leads_to N P k key \<Longrightarrow> leads_to N P' k key" for k key
      by (erule leads_to_update) (simp add: turn(3))
  qed (simp_all add: turn(3))
qed

lemma get_step_well_typed:
  assumes "well_typed N P" and "get_step N key ph P = (ph', P')"
    and "\<And>h. ph = Spawned h \<or> ph = Got h \<Longrightarrow> leads_to N P h key"
  shows "well_typed N P' \<and> (\<forall>h. ph' = Spawned h \<or> ph' = Got h \<longrightarrow> leads_to N P' h key)"
  using assms(2)
proof (cases rule: get_step_cases)
  case (hit h)
  with well_typedD(2) [OF assms(1) hit(2)] assms(1) show ?thesis by simp
next
  case (evict)
  have "well_typed N P'"
    by (rule well_typed_mono [OF assms(1)]) (simp_all add: evict leads_to_def split: if_splits)
  with evict show ?thesis by simp
next
  case (fail status w)
  have "well_typed N P'" by (rule well_typed_mono [OF assms(1)]) (simp_all add: fail leads_to_def)
  with fail show ?thesis by simp
next
  case (insert h)
  have l: "leads_to N P h key" using assms(3) insert(1) by simp
  have "well_typed N P'"
    by (rule well_typed_mono [OF assms(1)]) (use l in \<open>simp_all add: insert leads_to_def split: if_splits\<close>)
  with l insert show ?thesis by (simp add: leads_to_def)
next
  case (spawn K st w)
  have new: "leads_to N P' (length (tasks P)) key"
    using spawn_context [OF spawn(4)] by (simp add: spawn(3) leads_to_def task_key_def actor_context_of_def)
  have "well_typed N P'"
  proof (rule well_typed_mono [OF assms(1)])
    show "leads_to N P h k \<Longrightarrow> leads_to N P' h k" for h k
      by (erule leads_to_more) (simp add: spawn(3))
    fix h assume "h < length (tasks P')"
    then have "h < length (tasks P) \<or> h = length (tasks P)" by (auto simp: spawn(3))
    moreover have "task_key (tasks P' ! length (tasks P)) = key" using new by (simp add: leads_to_def)
    ultimately show "h < length (tasks P) \<or> leads_to N P' h (task_key (tasks P' ! h))" using new by auto
  qed (simp_all add: spawn(3))
  with new spawn(2) show ?thesis by simp
next
  case miss
  with assms(1) show ?thesis by simp
next
  case over
  with assms(1,3) show ?thesis by simp
qed

lemma pool_step_well_typed:
  assumes "pool_step N G X P P'" and "well_typed N P"
  shows "well_typed N P'"
  using assms(1)
proof (cases rule: pool_step.cases)
  case (call key)
  show ?thesis by (rule well_typed_mono [OF assms(2)]) (auto simp: call)
next
  case (moves t key ph ph' P1)
  have "(key, ph) \<in> set (gets P)" using moves(2,3) by (metis nth_mem)
  then have "leads_to N P h key" if "ph = Spawned h \<or> ph = Got h" for h
    using well_typedD(3) [OF assms(2)] that by blast
  from get_step_well_typed [OF assms(2) moves(4) this] have "well_typed N P1"
    "\<And>h. ph' = Spawned h \<or> ph' = Got h \<Longrightarrow> leads_to N P1 h key" by blast+
  then show ?thesis unfolding moves(1) by (rule well_typed_gets)
next
  case (others w)
  show ?thesis by (rule well_typed_mono [OF assms(2)]) (simp_all add: others leads_to_def)
next
  case (message h msg rep)
  from assms(2) message(3) show ?thesis by (rule task_turn_well_typed)
next
  case (exits h m rep)
  from assms(2) exits(4) show ?thesis by (rule task_turn_well_typed)
qed

lemma pool_runs_well_typed:
  "(pool_step N G X)\<^sup>*\<^sup>* P P' \<Longrightarrow> well_typed N P \<Longrightarrow> well_typed N P'"
  by (induction rule: rtranclp_induct) (blast intro: pool_step_well_typed)+

lemma well_typed_init [simp]: "well_typed N (pool_init w F)"
  by (simp add: well_typed_def pool_init_def)

subsection \<open>Every actor is a prefix of its stream\<close>

definition snapshots_ok ::
  "('w, 'a, 'c, 'e, 'err) config \<Rightarrow> (nat \<times> string) set \<Rightarrow> ('w \<Rightarrow> string \<Rightarrow> recorded_event list)
    \<Rightarrow> 'w \<Rightarrow> fs \<Rightarrow> bool" where
  "snapshots_ok N J strm w F \<longleftrightarrow> (\<forall>tid i. (tid, i) \<in> J \<longrightarrow>
     disk_inv (cfg_ext N) (types N tid) (cfg_base_dir N) i (stream_of N strm w tid i) F)"

definition task_ok ::
  "('w, 'a, 'c, 'e, 'err) config \<Rightarrow> (nat \<times> string) set \<Rightarrow> ('w \<Rightarrow> string \<Rightarrow> recorded_event list)
    \<Rightarrow> 'w \<Rightarrow> ('w, 'a) task \<Rightarrow> bool" where
  "task_ok N J strm w r \<longleftrightarrow> (task_alive r \<longrightarrow> task_key r \<in> J \<longrightarrow>
     (\<exists>es. prefix es (stream_of N strm w (task_type r) (task_id r)) \<and>
        synced (cfg_ext N) (types N (task_type r)) es (task_state r)))"

definition pool_inv ::
  "('w, 'a, 'c, 'e, 'err) config \<Rightarrow> (nat \<times> string) set \<Rightarrow> ('w \<Rightarrow> string \<Rightarrow> recorded_event list)
    \<Rightarrow> ('w, 'a) pool \<Rightarrow> bool" where
  "pool_inv N J strm P \<longleftrightarrow>
     snapshots_ok N J strm (pool_world P) (pool_fs P) \<and> (\<forall>r \<in> set (tasks P). task_ok N J strm (pool_world P) r)"

text \<open>One task, looked at as a store that has only it.\<close>

definition view :: "('w, 'a) pool \<Rightarrow> nat \<Rightarrow> ('w, 'a, unit, unit) app" where
  "view P h =
     (let r = tasks P ! h
      in \<lparr>world = pool_world P, app_fs = pool_fs P,
          cache = [task_key r \<mapsto> if task_alive r then Alive (task_context r) (task_state r) else Stale],
          projections = [], process_managers = [], timeouts = [], clock = None\<rparr>)"

lemma view_simps [simp]:
  "world (view P h) = pool_world P" "app_fs (view P h) = pool_fs P" "timeouts (view P h) = []"
  by (simp_all add: view_def Let_def)

lemma app_inv_view:
  assumes "well_typed N P" and "h < length (tasks P)"
  shows "app_inv N J strm (view P h) \<longleftrightarrow>
    snapshots_ok N J strm (pool_world P) (pool_fs P) \<and> task_ok N J strm (pool_world P) (tasks P ! h)"
proof -
  have "task_context (tasks P ! h) = actor_context_of N (task_type (tasks P ! h)) (task_id (tasks P ! h))"
    using well_typedD(1) [OF assms] by (simp add: leads_to_def task_key_def)
  then show ?thesis
    by (auto simp: app_inv_def snapshots_ok_def task_ok_def view_def task_key_def Let_def)
qed

lemma task_ok_grows: "task_ok N J strm w r \<Longrightarrow> grows strm w w' \<Longrightarrow> task_ok N J strm w' r"
  unfolding task_ok_def by (blast intro: prefix_order.trans stream_of_grows)

lemma snapshots_ok_grows: "snapshots_ok N J strm w F \<Longrightarrow> grows strm w w' \<Longrightarrow> snapshots_ok N J strm w' F"
  unfolding snapshots_ok_def by (blast intro: disk_inv_mono stream_of_grows)

lemma task_turn_view:
  assumes "h < length (tasks P)" and "task_turn N h (Message msg) P = (rep, P')"
  shows "call_actor N (task_type (tasks P ! h)) (task_id (tasks P ! h)) msg (view P h) = (rep, view P' h)"
  using assms(2)
proof (cases rule: task_turn_cases)
  case gone
  then show ?thesis by (simp add: call_actor_def view_def task_key_def is_alive_def Let_def)
next
  case (turn status st)
  then show ?thesis using assms(1)
    by (cases status) (simp_all add: call_actor_def view_def task_key_def is_alive_def Let_def)
qed

text \<open>An exit is the same whatever ends the loop.\<close>

definition ends_loop :: "'c actor_message received \<Rightarrow> bool" where
  "ends_loop m \<longleftrightarrow> (\<forall>msg. m = Message msg \<longrightarrow> msg = Shutdown)"

lemma actor_step_ends:
  "ends_loop m \<Longrightarrow> actor_step E A S rng K m st = (None, Exited, save_on_exit E A K st)"
  by (cases m) (auto simp: ends_loop_def)

lemma task_turn_inv:
  assumes "cfg_setting N strm" and "well_typed N P" and "pool_inv N J strm P" and "h < length (tasks P)"
    and "exits_apart N J X"
    and "ends_loop m \<Longrightarrow> task_key (tasks P ! h) \<in> X \<and> stream_version (task_state (tasks P ! h)) \<noteq> None"
    and "task_turn N h m P = (rep, P')"
  shows "pool_inv N J strm P' \<and> grows strm (pool_world P) (pool_world P')"
proof -
  let ?r = "tasks P ! h"
  have wt': "well_typed N P'" by (rule task_turn_well_typed [OF assms(2,7)])
  have len: "length (tasks P') = length (tasks P)"
    using assms(7) by (cases rule: task_turn_cases) simp_all
  have others: "\<forall>r \<in> set (tasks P'). r \<in> set (tasks P) \<or> r = tasks P' ! h"
    using assms(7) set_update_subset_insert [of "tasks P" h]
    by (cases rule: task_turn_cases) (auto simp: assms(4))
  have view: "app_inv N J strm (view P h)"
    using assms(3,4) by (simp add: app_inv_view [OF assms(2,4)] pool_inv_def)
  have "app_inv N J strm (view P' h) \<and> grows strm (pool_world P) (pool_world P')"
  proof (cases "ends_loop m")
    case False
    then obtain msg where message: "m = Message msg" "msg \<noteq> Shutdown" by (auto simp: ends_loop_def)
    with call_actor_inv [OF assms(1) view _ message(2) task_turn_view [OF assms(4)]] assms(7)
    show ?thesis by simp
  next
    case True
    have x: "task_key ?r \<in> X" "stream_version (task_state ?r) \<noteq> None" using assms(6) True by simp_all
    from assms(7) show ?thesis
    proof (cases rule: task_turn_cases)
      case gone
      with view show ?thesis by simp
    next
      case (turn status st)
      have exit: "status = Exited" "st = save_on_exit (cfg_ext N) (types N (task_type ?r)) (task_context ?r)
          ((task_state ?r)\<lparr>store := pool_world P, disk := pool_fs P\<rparr>)"
        using turn(2) by (simp_all add: actor_step_ends [OF True])
      have c: "cache (view P h) (task_type ?r, task_id ?r) = Some (Alive (task_context ?r) (task_state ?r))"
        using turn(1) by (simp add: view_def task_key_def is_alive_def Let_def)
      have "app_inv N J strm (actor_elapses N (task_type ?r) (task_id ?r) (view P h))"
        by (rule actor_elapses_keeps_inv [OF assms(1) view assms(5) _ c x(2)]) (use x(1) in \<open>simp add: task_key_def\<close>)
      moreover have "actor_elapses N (task_type ?r) (task_id ?r) (view P h) = view P' h"
        using turn(1,3) exit assms(4) c
        by (simp add: actor_elapses_def Let_def) (simp add: view_def task_key_def is_alive_def Let_def)
      ultimately show ?thesis using turn(3) exit by simp
    qed
  qed
  then have "snapshots_ok N J strm (pool_world P') (pool_fs P')" "task_ok N J strm (pool_world P') (tasks P' ! h)"
    and g: "grows strm (pool_world P) (pool_world P')"
    using app_inv_view [OF wt', of h J strm] assms(4) len by simp_all
  moreover have "task_ok N J strm (pool_world P') r" if "r \<in> set (tasks P)" for r
    by (rule task_ok_grows [OF _ g]) (use assms(3) that in \<open>simp add: pool_inv_def\<close>)
  ultimately show ?thesis using others g unfolding pool_inv_def by auto
qed

lemma get_step_inv:
  assumes "cfg_setting N strm" and "pool_inv N J strm P" and "get_step N key ph P = (ph', P')"
  shows "pool_inv N J strm P' \<and> grows strm (pool_world P) (pool_world P') \<and>
    (\<forall>h. ph' = Spawned h \<longrightarrow> task_alive (tasks P' ! h) \<and> (key \<in> J \<longrightarrow>
       synced (cfg_ext N) (types N (fst key)) (stream_of N strm (pool_world P') (fst key) (snd key))
         (task_state (tasks P' ! h))))"
proof -
  have grown: "pool_inv N J strm (P\<lparr>pool_world := w\<rparr>)" if "grows strm (pool_world P) w" for w
    using assms(2) that task_ok_grows snapshots_ok_grows unfolding pool_inv_def by fastforce
  have read: "grows strm (pool_world P) w" if
    "spawn_state (cfg_ext N) (types N (fst key)) (cfg_ops N) (cfg_base_dir N) (snd key) (pool_world P) (pool_fs P) = (r, w)"
    for r w
  proof -
    have "w = pool_world P \<or> (\<exists>sid v. w = snd (read_stream_op (cfg_ops N) sid v u64_MAX (pool_world P)))"
      using that by (auto simp: spawn_state_def Let_def split: sum.splits prod.splits option.splits)
        (metis snd_conv)+
    then show ?thesis
      using tracksD(4) [OF cfg_setting_tracks [OF assms(1)] surjective_pairing] grows_refl by metis
  qed
  show ?thesis
    using assms(3)
  proof (cases rule: get_step_cases)
    case (fail status w)
    with grown read [OF fail(4)] show ?thesis by simp
  next
    case (spawn K st w)
    note g = read [OF spawn(4)]
    have "synced (cfg_ext N) (types N (fst key)) (stream_of N strm w (fst key) (snd key)) st" if "key \<in> J"
    proof -
      have "store_contract (cfg_ext N) (cfg_ops N) (stream_uuid (cfg_ext N) (AGGREGATE_TYPE (types N (fst key))) (snd key))
          (\<lambda>w. stream_of N strm w (fst key) (snd key))"
        using actor_settingD(3) [OF cfg_setting_actor [OF assms(1), of "fst key" "snd key"]]
        by (simp add: actor_context_of_def)
      moreover have "disk_inv (cfg_ext N) (types N (fst key)) (cfg_base_dir N) (snd key)
          (stream_of N strm (pool_world P) (fst key) (snd key)) (pool_fs P)"
        using assms(2) that by (cases key) (simp add: pool_inv_def snapshots_ok_def)
      ultimately show ?thesis using spawn_spec(5) [OF _ _ spawn(4)] by blast
    qed
    with grown [OF g] g spawn show ?thesis by (auto simp: pool_inv_def task_ok_def task_key_def)
  next
    case over
    with assms(2) show ?thesis by auto
  qed (use assms(2) in \<open>simp_all add: pool_inv_def\<close>)
qed

lemma pool_step_inv:
  assumes "cfg_setting N strm" and "\<And>w w'. G w w' \<Longrightarrow> grows strm w w'" and "exits_apart N J X"
    and "pool_step N G X P P'" and "well_typed N P" and "pool_inv N J strm P"
  shows "pool_inv N J strm P' \<and> grows strm (pool_world P) (pool_world P')"
  using assms(4)
proof (cases rule: pool_step.cases)
  case (call key)
  with assms(6) show ?thesis by (simp add: pool_inv_def)
next
  case (moves t key ph ph' P1)
  from get_step_inv [OF assms(1,6) moves(4)] moves(1) show ?thesis by (simp add: pool_inv_def)
next
  case (message h msg rep)
  show ?thesis
    by (rule task_turn_inv [OF assms(1,5,6) message(1) assms(3) _ message(3)]) (use message(2) in \<open>simp add: ends_loop_def\<close>)
next
  case (exits h m rep)
  show ?thesis
    by (rule task_turn_inv [OF assms(1,5,6) exits(1) assms(3) _ exits(4)]) (use exits(2,3) in simp)
next
  case (others w)
  with assms(2) have g: "grows strm (pool_world P) w" by blast
  with assms(6) task_ok_grows snapshots_ok_grows others(1) show ?thesis
    unfolding pool_inv_def by fastforce
qed

lemma pool_runs_inv:
  assumes "cfg_setting N strm" and "\<And>w w'. G w w' \<Longrightarrow> grows strm w w'" and "exits_apart N J X"
    and "(pool_step N G X)\<^sup>*\<^sup>* P P'" and "well_typed N P" and "pool_inv N J strm P"
  shows "pool_inv N J strm P' \<and> grows strm (pool_world P) (pool_world P')"
  using assms(4)
proof (induction rule: rtranclp_induct)
  case base
  with assms(6) show ?case by simp
next
  case (step P1 P2)
  have "well_typed N P1" by (rule pool_runs_well_typed [OF step(1) assms(5)])
  from pool_step_inv [where G = G, OF assms(1) _ assms(3) step(2) this] assms(2) step(3)
  have "pool_inv N J strm P2 \<and> grows strm (pool_world P1) (pool_world P2)" by blast
  with step(3) grows_trans [of strm "pool_world P" "pool_world P1" "pool_world P2"] show ?case by simp
qed

subsection \<open>The store of whole operations\<close>

text \<open>A pool is a store for whoever goes through the cache.\<close>

definition task_slot :: "('w, 'a) task \<Rightarrow> ('w, 'a) slot" where
  "task_slot r = (if task_alive r then Alive (task_context r) (task_state r) else Stale)"

definition slot_of :: "('w, 'a) pool \<Rightarrow> nat \<times> string \<Rightarrow> ('w, 'a) slot option" where
  "slot_of P key = map_option (\<lambda>h. task_slot (tasks P ! h)) (pool_cache P key)"

definition represents :: "('w, 'a) pool \<Rightarrow> ('w, 'a, 'p, 'q) app \<Rightarrow> bool" where
  "represents P ap \<longleftrightarrow> world ap = pool_world P \<and> app_fs ap = pool_fs P \<and> cache ap = slot_of P"

lemma slot_of_evict [simp]:
  "slot_of (P\<lparr>pool_cache := (pool_cache P)(key := None)\<rparr>) = (slot_of P)(key := None)"
  "slot_of (P\<lparr>pool_world := w\<rparr>) = slot_of P"
  by (auto simp: slot_of_def fun_eq_iff)

lemma slot_of_spawn:
  assumes "\<And>k h. pool_cache P k = Some h \<Longrightarrow> h < length (tasks P)"
  shows "slot_of (P\<lparr>pool_world := w, tasks := tasks P @ [r], pool_cache := (pool_cache P)(key \<mapsto> length (tasks P))\<rparr>) =
    (slot_of P)(key \<mapsto> task_slot r)"
  using assms by (auto simp: slot_of_def fun_eq_iff nth_append map_option_case split: option.splits)

lemma get_alone_store:
  fixes P :: "('w, 'a) pool" and ap :: "('w, 'a, 'p, 'q) app"
  assumes "well_typed N P" and "represents P ap" and "get_alone N (tid, i) P = (ph, P')"
    and "store_get N tid i ap = (r, ap')"
  shows "represents P' ap' \<and>
    (case r of Inr _ \<Rightarrow> \<exists>h. ph = Got h \<and> pool_cache P' (tid, i) = Some h | Inl status \<Rightarrow> ph = Failed status)"
proof (cases "\<exists>h. pool_cache P (tid, i) = Some h \<and> is_alive P h")
  case True
  then obtain h where "pool_cache P (tid, i) = Some h" "is_alive P h" by blast
  with assms show ?thesis by (auto simp: get_alone_def store_get_def represents_def slot_of_def task_slot_def is_alive_def)
next
  case False
  let ?P1 = "P\<lparr>pool_cache := (pool_cache P)((tid, i) := None)\<rparr>"
  have bound: "pool_cache ?P1 k = Some h \<Longrightarrow> h < length (tasks P)" for k h
    using well_typedD(2) [OF assms(1), of k h] by (auto simp: leads_to_def split: if_splits)
  have two: "get_alone N (tid, i) P = (let (p3, P3) = get_step N (tid, i) Evicted ?P1 in get_step N (tid, i) p3 P3)"
    using False by (auto simp: get_alone_def split: option.splits)
  obtain q w where sp: "spawn_state (cfg_ext N) (types N tid) (cfg_ops N) (cfg_base_dir N) i
      (pool_world P) (pool_fs P) = (q, w)" by fastforce
  have c: "\<nexists>K st. cache ap (tid, i) = Some (Alive K st)"
    using False assms(2) by (auto simp: represents_def slot_of_def task_slot_def is_alive_def split: if_splits)
  show ?thesis
  proof (cases q)
    case (Inl status)
    have "ph = Failed status" "P' = ?P1\<lparr>pool_world := w\<rparr>"
      using assms(3) sp Inl by (simp_all add: two)
    moreover have "r = Inl status" "ap' = ap\<lparr>cache := (cache ap)((tid, i) := None), world := w\<rparr>"
      using assms(2,4) sp Inl c
      by (auto simp: store_get_def represents_def Let_def split: option.splits slot.splits)
    ultimately show ?thesis using assms(2) by (simp add: represents_def)
  next
    case (Inr a)
    then obtain K st where a: "q = Inr (K, st)" by (cases a) simp
    let ?r = "\<lparr>task_type = tid, task_id = i, task_context = K, task_state = st, task_alive = True\<rparr>"
    have "ph = Got (length (tasks P))" "P' = ?P1\<lparr>pool_world := w, tasks := tasks P @ [?r],
        pool_cache := (pool_cache ?P1)((tid, i) \<mapsto> length (tasks P))\<rparr>"
      using assms(3) sp a by (simp_all add: two)
    moreover have "r = Inr ()" "ap' = ap\<lparr>world := w, cache := (cache ap)((tid, i) \<mapsto> Alive K st)\<rparr>"
      using assms(2,4) sp a c
      by (auto simp: store_get_def represents_def Let_def split: option.splits slot.splits)
    moreover have "slot_of (?P1\<lparr>pool_world := w, tasks := tasks ?P1 @ [?r],
        pool_cache := (pool_cache ?P1)((tid, i) \<mapsto> length (tasks ?P1))\<rparr>) = (slot_of ?P1)((tid, i) \<mapsto> Alive K st)"
      using slot_of_spawn [where P = ?P1 and w = w and r = ?r and key = "(tid, i)"] bound by (simp add: task_slot_def)
    ultimately show ?thesis using assms(2) by (simp add: represents_def)
  qed
qed

lemma task_turn_store:
  fixes P :: "('w, 'a) pool" and ap :: "('w, 'a, 'p, 'q) app"
  assumes "well_typed N P" and "represents P ap" and "timeouts ap = []" and "pool_cache P (tid, i) = Some h"
    and "task_turn N h (Message msg) P = (rep, P')" and "call_actor N tid i msg ap = (rep', ap')"
  shows "represents P' ap' \<and> rep' = rep"
proof -
  have lead: "leads_to N P h (tid, i)" using well_typedD(2) [OF assms(1,4)] .
  have only: "k = (tid, i)" if "pool_cache P k = Some h" for k
    using well_typedD(2) [OF assms(1) that] lead by (simp add: leads_to_def)
  from assms(5) show ?thesis
  proof (cases rule: task_turn_cases)
    case gone
    with assms(2,4,6) show ?thesis by (auto simp: represents_def slot_of_def task_slot_def is_alive_def call_actor_def)
  next
    case (turn status st)
    have c: "cache ap (tid, i) = Some (Alive (task_context (tasks P ! h)) (task_state (tasks P ! h)))"
      using assms(2,4) turn(1) by (simp add: represents_def slot_of_def task_slot_def is_alive_def)
    have t: "task_type (tasks P ! h) = tid" "h < length (tasks P)"
      using lead by (auto simp: leads_to_def task_key_def)
    have "rep' = rep" "ap' = ap\<lparr>world := store st, app_fs := disk st, timeouts := [],
        cache := (cache ap)((tid, i) \<mapsto> (case status of Running \<Rightarrow> Alive (task_context (tasks P ! h)) st | _ \<Rightarrow> Stale))\<rparr>"
      using assms(2,3,6) c turn(2) t by (simp_all add: call_actor_def represents_def Let_def)
    moreover have "slot_of P' = (slot_of P)((tid, i) \<mapsto>
        (case status of Running \<Rightarrow> Alive (task_context (tasks P ! h)) st | _ \<Rightarrow> Stale))"
    proof
      fix k
      show "slot_of P' k = ((slot_of P)((tid, i) \<mapsto>
        (case status of Running \<Rightarrow> Alive (task_context (tasks P ! h)) st | _ \<Rightarrow> Stale))) k"
      proof (cases "k = (tid, i)")
        case True
        with assms(4) t show ?thesis by (cases status) (simp_all add: turn(3) slot_of_def task_slot_def is_alive_def)
      next
        case False
        then have "pool_cache P k \<noteq> Some h" using only by blast
        with False show ?thesis
          by (cases "pool_cache P k") (simp_all add: turn(3) slot_of_def task_slot_def is_alive_def)
      qed
    qed
    ultimately show ?thesis using assms(2) turn(3) by (simp add: represents_def)
  qed
qed

lemma get_alone_well_typed:
  assumes "well_typed N P" and "get_alone N key P = (ph, P')"
  shows "well_typed N P'"
proof -
  obtain p1 P1 where 1: "get_step N key Looking P = (p1, P1)" by fastforce
  obtain p2 P2 where 2: "get_step N key p1 P1 = (p2, P2)" by fastforce
  obtain p3 P3 where 3: "get_step N key p2 P2 = (p3, P3)" by fastforce
  have 4: "get_step N key p3 P3 = (ph, P')" using assms(2) 1 2 3 by (simp add: get_alone_def)
  note w1 = get_step_well_typed [OF assms(1) 1, simplified]
  have w2: "well_typed N P2 \<and> (\<forall>h. p2 = Spawned h \<or> p2 = Got h \<longrightarrow> leads_to N P2 h key)"
    by (rule get_step_well_typed [OF conjunct1 [OF w1] 2]) (use w1 in blast)
  have w3: "well_typed N P3 \<and> (\<forall>h. p3 = Spawned h \<or> p3 = Got h \<longrightarrow> leads_to N P3 h key)"
    by (rule get_step_well_typed [OF conjunct1 [OF w2] 3]) (use w2 in blast)
  show ?thesis using get_step_well_typed [OF conjunct1 [OF w3] 4] w3 by blast
qed

end
