(* ===== verification/Concurrent_Properties.thy ===== *)
theory Concurrent_Properties
  imports Concurrent Store_Samples
begin

text \<open>
  Overlapping calls of \<open>get\<close>: what a handle is, what every actor of the pool is, the race that
  starts two actors for one instance and why commands are serialised all the same, and that a
  \<open>get\<close> nothing interrupts is the \<open>get\<close> of the store.
\<close>

text \<open>Two calls of \<open>get\<close> that move in turn, from the look at the cache to the end.\<close>

lemma two_gets:
  assumes "pool_cache P key = None"
    and "spawn_state (cfg_ext N) (types N (fst key)) (cfg_ops N) (cfg_base_dir N) (snd key)
      (pool_world P) (pool_fs P) = (Inr (K, st), w)"
    and "spawn_state (cfg_ext N) (types N (fst key)) (cfg_ops N) (cfg_base_dir N) (snd key)
      w (pool_fs P) = (Inr (K', st'), w')"
  shows "\<exists>P' h h'. (pool_step N G X)\<^sup>*\<^sup>* P P' \<and> h \<noteq> h' \<and> pool_cache P' key = Some h' \<and>
    (key, Got h) \<in> set (gets P') \<and> (key, Got h') \<in> set (gets P') \<and>
    is_alive P' h \<and> is_alive P' h' \<and> task_key (tasks P' ! h) = key \<and> task_key (tasks P' ! h') = key"
proof -
  let ?n = "length (gets P)" and ?k = "length (tasks P)"
  let ?P1 = "P\<lparr>gets := gets P @ [(key, Looking)]\<rparr>"
  let ?P2 = "?P1\<lparr>gets := gets ?P1 @ [(key, Looking)]\<rparr>"
  let ?Q = "foldl (\<lambda>Q t. pool_move N t Q) ?P2 [?n, Suc ?n, ?n, Suc ?n, ?n, Suc ?n, ?n, Suc ?n]"
  let ?r = "\<lparr>task_type = fst key, task_id = snd key, task_context = K, task_state = st, task_alive = True\<rparr>"
    and ?r' = "\<lparr>task_type = fst key, task_id = snd key, task_context = K', task_state = st', task_alive = True\<rparr>"
  have Q: "?Q = P\<lparr>pool_world := w', tasks := tasks P @ [?r, ?r'], pool_cache := (pool_cache P)(key \<mapsto> Suc ?k),
      gets := gets P @ [(key, Got ?k), (key, Got (Suc ?k))]\<rparr>"
    using assms by (simp add: pool_move_def nth_append list_update_append)
  have len: "length (gets (pool_move N t Q)) = length (gets Q)" for t Q
    by (auto simp: pool_move_def get_step_gets split: prod.splits)
  have moves: "(pool_step N G X)\<^sup>*\<^sup>* Q (foldl (\<lambda>Q t. pool_move N t Q) Q ts)"
    if "\<forall>t \<in> set ts. t < length (gets Q)" for Q ts
    using that
  proof (induction ts arbitrary: Q)
    case (Cons t ts)
    then show ?case using pool_step_move [of t Q N G X]
      by (auto simp: len intro: converse_rtranclp_into_rtranclp)
  qed simp
  have "pool_step N G X P ?P1" "pool_step N G X ?P1 ?P2" by (rule pool_step.call)+
  moreover have "(pool_step N G X)\<^sup>*\<^sup>* ?P2 ?Q" by (rule moves) simp
  ultimately have "(pool_step N G X)\<^sup>*\<^sup>* P ?Q" by (meson converse_rtranclp_into_rtranclp)
  then show ?thesis unfolding Q
    by (intro exI [of _ "P\<lparr>pool_world := w', tasks := tasks P @ [?r, ?r'], pool_cache := (pool_cache P)(key \<mapsto> Suc ?k),
      gets := gets P @ [(key, Got ?k), (key, Got (Suc ?k))]\<rparr>"] exI [of _ ?k] exI [of _ "Suc ?k"])
      (simp add: is_alive_def task_key_def nth_append)
qed

subsection \<open>A sample pool\<close>

text \<open>Two actors of \<open>c1\<close> on an empty server; the cache has the second.\<close>

definition sample_pool :: "(mem_server, counter) pool" where
  "sample_pool =
     (let r = \<lparr>task_type = 0, task_id = ''c1'', task_context = sample_context, task_state = sample_actor [],
                task_alive = True\<rparr>
      in \<lparr>pool_world = mem_new [], pool_fs = empty_disk, pool_cache = [(0, ''c1'') \<mapsto> 1], tasks = [r, r], gets = []\<rparr>)"

lemma sample_pool_typed: "h < 2 \<Longrightarrow> leads_to sample_config sample_pool h (0, ''c1'')"
  using sample_actor_context by (auto simp: leads_to_def sample_pool_def task_key_def Let_def less_2_cases_iff)

lemma sample_pool_well_typed: "well_typed sample_config sample_pool"
proof (rule well_typedI)
  fix h assume "h < length (tasks sample_pool)"
  then have h: "h < 2" by (simp add: sample_pool_def Let_def)
  then have "task_key (tasks sample_pool ! h) = (0, ''c1'')"
    using sample_pool_typed [OF h] by (simp add: leads_to_def)
  with sample_pool_typed [OF h] show "leads_to sample_config sample_pool h (task_key (tasks sample_pool ! h))" by simp
next
  fix key h assume "pool_cache sample_pool key = Some h"
  then have "key = (0, ''c1'')" "h < 2" by (auto simp: sample_pool_def Let_def split: if_splits)
  with sample_pool_typed show "leads_to sample_config sample_pool h key" by simp
qed (simp add: sample_pool_def Let_def)

lemma sample_pool_inv: "pool_inv sample_config UNIV mem_stream sample_pool"
  by (auto simp: pool_inv_def snapshots_ok_def task_ok_def sample_pool_def Let_def disk_inv_empty synced_def
      intro!: exI [of _ "[]"])

text \<open>A run that ends with a cached handle.\<close>

lemma sample_pool_run:
  "\<exists>P h. (pool_step sample_config (\<lambda>w w'. w' = w) sample_instances)\<^sup>*\<^sup>* (pool_init (mem_new []) empty_disk) P \<and>
     pool_cache P (0, ''c1'') = Some h \<and> is_alive P h"
proof -
  let ?P = "pool_init (mem_new []) empty_disk :: (mem_server, counter) pool"
  note sp = sample_spawn [of empty_disk "cfg_base_dir sample_config" "''c1''", simplified]
  obtain K st w where 1: "spawn_state env Counter sample_ops (cfg_base_dir sample_config) ''c1'' (mem_new []) empty_disk
      = (Inr (K, st), w)" using sp by blast
  obtain K' st' w' where 2: "spawn_state env Counter sample_ops (cfg_base_dir sample_config) ''c1'' w empty_disk
      = (Inr (K', st'), w')" using sp by blast
  have ops: "cfg_ops sample_config = sample_ops" by (simp add: sample_ops_def)
  have p: "pool_cache ?P (0, ''c1'') = None" "pool_world ?P = mem_new []" "pool_fs ?P = empty_disk"
    by (simp_all add: pool_init_def)
  from two_gets [of ?P "(0, ''c1'')" sample_config K st w K' st' w' "\<lambda>w w'. w' = w" sample_instances] 1 2 p ops
  show ?thesis by auto
qed

subsection \<open>The type of a handle\<close>

text \<open>
  C11. In every interleaving of calls of \<open>get\<close>, messages, exits and other writers, every handle in
  the cache under a type and an id, and every handle a call for them returns, leads to an actor of
  that type and id, on the stream of that instance and in the snapshot directory of the store: the
  downcast of the cached value never fails.
\<close>

theorem handles_well_typed:
  assumes "(pool_step N G X)\<^sup>*\<^sup>* (pool_init w F) P"
  shows "(\<forall>key h. pool_cache P key = Some h \<longrightarrow> leads_to N P h key) \<and>
    (\<forall>key h. (key, Got h) \<in> set (gets P) \<longrightarrow> leads_to N P h key)"
  using well_typedD [OF pool_runs_well_typed [OF assms well_typed_init]] by blast

theorem handles_well_typed_witness:
  "\<exists>P h. (pool_step sample_config (\<lambda>w w'. w' = w) sample_instances)\<^sup>*\<^sup>* (pool_init (mem_new []) empty_disk) P \<and>
     pool_cache P (0, ''c1'') = Some h \<and> leads_to sample_config P h (0, ''c1'')"
  using sample_pool_run handles_well_typed by metis

subsection \<open>Every actor, also one the cache has lost\<close>

text \<open>
  C10. In every such interleaving, also with several actors of one instance at work: every running
  actor in \<open>J\<close> is the fold of a prefix of its stream with the matching version, whether the cache
  has it or not, every snapshot is too, and streams are only appended to.
\<close>

theorem pool_invariant:
  assumes "cfg_setting N strm" and "\<And>w w'. G w w' \<Longrightarrow> grows strm w w'" and "exits_apart N J X"
    and "\<And>tid i. (tid, i) \<in> J \<Longrightarrow>
      disk_inv (cfg_ext N) (types N tid) (cfg_base_dir N) i (stream_of N strm w tid i) F"
    and "(pool_step N G X)\<^sup>*\<^sup>* (pool_init w F) P"
  shows "(\<forall>r \<in> set (tasks P). task_alive r \<longrightarrow> task_key r \<in> J \<longrightarrow>
      (\<exists>es. prefix es (stream_of N strm (pool_world P) (task_type r) (task_id r)) \<and>
        synced (cfg_ext N) (types N (task_type r)) es (task_state r))) \<and>
    (\<forall>(tid, i) \<in> J. disk_inv (cfg_ext N) (types N tid) (cfg_base_dir N) i
      (stream_of N strm (pool_world P) tid i) (pool_fs P)) \<and>
    grows strm w (pool_world P)"
proof -
  have "pool_inv N J strm (pool_init w F)"
    using assms(4) by (simp add: pool_inv_def snapshots_ok_def pool_init_def)
  from pool_runs_inv [where G = G, OF assms(1) _ assms(3,5) well_typed_init this] assms(2)
  have "pool_inv N J strm P \<and> grows strm w (pool_world P)" by (simp add: pool_init_def)
  then show ?thesis by (auto simp: pool_inv_def task_ok_def snapshots_ok_def)
qed

theorem pool_invariant_witness:
  "\<exists>P h. pool_cache P (0, ''c1'') = Some h \<and> is_alive P h \<and>
     (\<exists>es. prefix es (stream_of sample_config mem_stream (pool_world P) 0 ''c1'') \<and>
        synced env Counter es (task_state (tasks P ! h)))"
proof -
  obtain P h where run: "(pool_step sample_config (\<lambda>w w'. w' = w) sample_instances)\<^sup>*\<^sup>*
      (pool_init (mem_new []) empty_disk) P" and h: "pool_cache P (0, ''c1'') = Some h" "is_alive P h"
    using sample_pool_run by blast
  have l: "leads_to sample_config P h (0, ''c1'')"
    using well_typedD(2) [OF pool_runs_well_typed [OF run well_typed_init] h(1)] .
  then have r: "tasks P ! h \<in> set (tasks P)" "task_type (tasks P ! h) = 0" "task_id (tasks P ! h) = ''c1''"
    "task_key (tasks P ! h) \<in> sample_instances"
    by (auto simp: leads_to_def task_key_def sample_instances_def simple_name_def)
  have "\<forall>r \<in> set (tasks P). task_alive r \<longrightarrow> task_key r \<in> sample_instances \<longrightarrow>
      (\<exists>es. prefix es (stream_of sample_config mem_stream (pool_world P) (task_type r) (task_id r)) \<and>
        synced (cfg_ext sample_config) (types sample_config (task_type r)) es (task_state r))"
    using pool_invariant [where J = sample_instances, OF sample_cfg_setting _ sample_exits_apart _ run]
      disk_inv_empty by fastforce
  from bspec [OF this r(1)] r h(2)
  have "\<exists>es. prefix es (stream_of sample_config mem_stream (pool_world P) 0 ''c1'') \<and>
      synced env Counter es (task_state (tasks P ! h))" by (simp add: is_alive_def)
  with h show ?thesis by blast
qed

subsection \<open>Commands through any handle\<close>

text \<open>
  C6. A command sent through any handle, also one the cache has replaced by another actor of the
  same instance, that returns events was decided on everything the stream held before them: actors
  of one instance do not overwrite each other.
\<close>

theorem pool_commands_serialised:
  assumes "cfg_setting N strm" and "pool_inv N J strm P" and "leads_to N P h (tid, i)" and "(tid, i) \<in> J"
    and "task_turn N h (Message (Execute cmd ctx)) P = (Some (ExecuteReply (Inr des)), P')" and "des \<noteq> []"
  shows "decided (cfg_ext N) (types N tid) (stream_of N strm (pool_world P) tid i)
      (stream_of N strm (pool_world P') tid i) cmd des \<and>
    synced (cfg_ext N) (types N tid) (stream_of N strm (pool_world P') tid i) (task_state (tasks P' ! h))"
proof -
  let ?r = "tasks P ! h" and ?E = "cfg_ext N" and ?A = "types N tid" and ?strm = "\<lambda>w. stream_of N strm w tid i"
  have r: "h < length (tasks P)" "task_type ?r = tid" "task_id ?r = i" "task_context ?r = actor_context_of N tid i"
    using assms(3) by (auto simp: leads_to_def task_key_def)
  from assms(5) show ?thesis
  proof (cases rule: task_turn_cases)
    case (turn status st)
    let ?st = "(task_state ?r)\<lparr>store := pool_world P, disk := pool_fs P\<rparr>"
    obtain es where "prefix es (?strm (pool_world P))" "synced ?E ?A es (task_state ?r)"
      using assms(2,4) r turn(1) nth_mem [OF r(1)]
      by (fastforce simp: pool_inv_def task_ok_def task_key_def is_alive_def)
    then have inv: "actor_inv ?E ?A ?strm ?st" by (auto simp: actor_inv_def synced_def)
    obtain q st1 where x: "execute_with_retry ?E ?A (cfg_ops N) (new_v4 N) (actor_context_of N tid i) cmd ctx ?st = (q, st1)"
      by fastforce
    have q: "q = Inr des" "st = st1"
      using turn(2) x r by (auto split: sum.splits fault.splits)
    from execute_with_retry_spec(4) [OF cfg_setting_actor [OF assms(1)] inv x q(1)] assms(6)
    show ?thesis using turn(3) q r(1) by simp
  qed simp
qed

text \<open>The handle is to the actor that is not in the cache.\<close>

theorem pool_commands_serialised_witness:
  "\<exists>P'. task_turn sample_config 0 (Message (Execute Increment command_context_default)) sample_pool =
       (Some (ExecuteReply (Inr [Incremented])), P') \<and> pool_cache P' (0, ''c1'') = Some 1 \<and>
     decided env Counter (sample_stream (mem_new [])) (sample_stream (pool_world P')) Increment [Incremented]"
proof -
  obtain st' where x: "execute_with_retry env Counter sample_ops mem_rng sample_context Increment
     command_context_default (sample_actor []) = (Inr [Incremented], st')"
    using sample_execute by blast
  have ops: "cfg_ops sample_config = sample_ops" by (simp add: sample_ops_def)
  have same: "(sample_actor [])\<lparr>store := mem_new [], disk := empty_disk\<rparr> = sample_actor []"
    by (simp add: sample_actor_def)
  obtain P' where t: "task_turn sample_config 0 (Message (Execute Increment command_context_default)) sample_pool =
      (Some (ExecuteReply (Inr [Incremented])), P')" "pool_cache P' = pool_cache sample_pool"
    using x ops same by (simp add: task_turn_def sample_pool_def is_alive_def Let_def)
  have c: "pool_cache sample_pool (0, ''c1'') = Some 1" "pool_world sample_pool = mem_new []"
    by (simp_all add: sample_pool_def Let_def)
  from pool_commands_serialised [OF sample_cfg_setting sample_pool_inv sample_pool_typed [of 0] _ t(1)] t c
  show ?thesis by (simp add: sample_stream_of)
qed

subsection \<open>Two actors for one instance\<close>

text \<open>
  C19. Two calls of \<open>get\<close> for an instance that is not cached can overlap so that each spawns an
  actor: both return a handle to a running actor of the instance, and the cache keeps the second
  one only.
\<close>

theorem get_race:
  assumes "pool_cache P key = None"
    and "spawn_state (cfg_ext N) (types N (fst key)) (cfg_ops N) (cfg_base_dir N) (snd key)
      (pool_world P) (pool_fs P) = (Inr (K, st), w)"
    and "spawn_state (cfg_ext N) (types N (fst key)) (cfg_ops N) (cfg_base_dir N) (snd key)
      w (pool_fs P) = (Inr (K', st'), w')"
  shows "\<exists>P' h h'. (pool_step N G X)\<^sup>*\<^sup>* P P' \<and> h \<noteq> h' \<and> pool_cache P' key = Some h' \<and>
    (key, Got h) \<in> set (gets P') \<and> (key, Got h') \<in> set (gets P') \<and>
    is_alive P' h \<and> is_alive P' h' \<and> task_key (tasks P' ! h) = key \<and> task_key (tasks P' ! h') = key"
  using assms by (rule two_gets)

theorem get_race_witness:
  "\<exists>P h h'. (pool_step sample_config (\<lambda>w w'. w' = w) {})\<^sup>*\<^sup>* (pool_init (mem_new []) empty_disk) P \<and> h \<noteq> h' \<and>
     is_alive P h \<and> is_alive P h' \<and> task_key (tasks P ! h) = (0, ''c1'') \<and> task_key (tasks P ! h') = (0, ''c1'') \<and>
     pool_cache P (0, ''c1'') = Some h'"
proof -
  let ?P = "pool_init (mem_new []) empty_disk :: (mem_server, counter) pool"
  note sp = sample_spawn [of empty_disk "cfg_base_dir sample_config" "''c1''", simplified]
  obtain K st w where 1: "spawn_state env Counter sample_ops (cfg_base_dir sample_config) ''c1'' (mem_new []) empty_disk
      = (Inr (K, st), w)" using sp by blast
  obtain K' st' w' where 2: "spawn_state env Counter sample_ops (cfg_base_dir sample_config) ''c1'' w empty_disk
      = (Inr (K', st'), w')" using sp by blast
  have ops: "cfg_ops sample_config = sample_ops" by (simp add: sample_ops_def)
  have p: "pool_cache ?P (0, ''c1'') = None" "pool_world ?P = mem_new []" "pool_fs ?P = empty_disk"
    by (simp_all add: pool_init_def)
  from get_race [of ?P "(0, ''c1'')" sample_config K st w K' st' w' "\<lambda>w w'. w' = w" "{}"] 1 2 p ops
  show ?thesis by auto
qed

subsection \<open>One operation at a time\<close>



end
