(* ===== verification/Live_History.thy ===== *)
theory Live_History
  imports Live_Properties
begin

text \<open>
  The history of the live loop: the envelopes it hands to the dispatcher over a run, across
  reconnections and redelivered events, against one pass of the managers over the log.
\<close>

subsection \<open>One pass over the log\<close>





subsection \<open>What a run hands to the dispatcher\<close>

text \<open>The envelope a step takes from the work of the current event.\<close>

definition handed_one :: "live_event \<Rightarrow> ('w, 'a, 'p, 'q) live \<Rightarrow> (command_envelope \<times> path) list" where
  "handed_one ev lv =
     (case (ev, phase lv) of
        (Poll, Streaming items (Dispatching g (x # work))) \<Rightarrow> [x]
      | _ \<Rightarrow> [])"

lemma handed_one_other [simp]: "ev \<noteq> Poll \<Longrightarrow> handed_one ev lv = []"
  by (cases ev) (simp_all add: handed_one_def)












subsection \<open>The property\<close>



end
