(* ===== verification/Unit_Tests.thy ===== *)
theory Unit_Tests
  imports Client Snapshot Errors Reference_Env Actor_Properties
begin

text \<open>
  The unit tests of the repository on the model: here those of \<^verbatim>\<open>command.rs\<close>, \<^verbatim>\<open>event.rs\<close>,
  \<^verbatim>\<open>aggregate.rs\<close>, \<^verbatim>\<open>error.rs\<close>, \<^verbatim>\<open>auth.rs\<close>, \<^verbatim>\<open>client.rs\<close>, \<^verbatim>\<open>snapshot.rs\<close> and \<^verbatim>\<open>storage.rs\<close>. A test
  is the conjunction of its assertions, and the lemma named after it shows that the model passes
  it. The random identifiers, the temporary directory and the working disk are arguments. Left
  out are tests of \<open>Debug\<close> output and \<open>clone\<close>, of concrete values of \<open>uuid\<close>, and that printed
  JSON has no such field; where a test looks at the version of an identifier, the model says that
  it is the one drawn.
\<close>

subsection \<open>The texts of the tests\<close>

text \<open>
  What \<open>serde_json\<close> makes of the literals the tests give it; \<open>from_slice\<close> reads valid UTF-8 as
  \<open>from_str\<close> does. \<open>tonic\<close> accepts the header values of the tests.
\<close>

definition metadata_text :: string where
  "metadata_text = ''{\"aggregate_type\":\"counter\",\"instance_id\":\"c-1\",\"actor\":\"u1\"}''"

definition partial_text :: string where
  "partial_text = ''{\"aggregate_type\":\"counter\"}''"

definition legacy_text :: string where
  "legacy_text = ''{\"actor\":\"old-user\",\"correlation_id\":\"old-corr\",\"metadata\":null}''"

definition corrupt_text :: string where
  "corrupt_text = ''this is not valid json!!!''"

definition invalid_text :: string where
  "invalid_text = ''not valid json!!!''"

definition texts_ok :: "ext \<Rightarrow> bool" where
  "texts_ok E \<longleftrightarrow> ext_ok E \<and>
     json_from_str E ''{}'' = Inr (JObject []) \<and> json_from_str E ''null'' = Inr JNull \<and>
     json_from_str E metadata_text = Inr (json_object
       [(''aggregate_type'', JString ''counter''), (''instance_id'', JString ''c-1''), (''actor'', JString ''u1'')]) \<and>
     json_from_str E partial_text = Inr (json_object [(''aggregate_type'', JString ''counter'')]) \<and>
     json_from_str E legacy_text = Inr (json_object
       [(''actor'', JString ''old-user''), (''correlation_id'', JString ''old-corr''), (''metadata'', JNull)]) \<and>
     (\<exists>e. json_from_slice E corrupt_text = Inl e) \<and> (\<exists>e. json_from_str E invalid_text = Inl e) \<and>
     (\<forall>bs. utf8_valid bs \<longrightarrow> json_from_slice E bs = json_from_str E bs) \<and>
     metadata_value_ok E ''Bearer abc'' \<and> metadata_value_ok E ''Bearer xyz'' \<and> metadata_value_ok E ''Bearer abc123''"

lemmas json_simps = json_object_def json_wf_object byte_in_def

subsection \<open>The context of a command\<close>

definition default_context_has_no_fields_set :: bool where
  "default_context_has_no_fields_set \<longleftrightarrow>
     (let ctx = command_context_default
      in ctx_actor ctx = None \<and> ctx_correlation_id ctx = None \<and> ctx_metadata ctx = None \<and>
         ctx_source_device ctx = None)"

definition builder_sets_actor :: bool where
  "builder_sets_actor \<longleftrightarrow> ctx_actor (with_actor ''user-1'' command_context_default) = Some ''user-1''"

definition builder_sets_correlation_id :: bool where
  "builder_sets_correlation_id \<longleftrightarrow>
     ctx_correlation_id (with_correlation_id ''corr-99'' command_context_default) = Some ''corr-99''"

definition builder_sets_metadata :: bool where
  "builder_sets_metadata \<longleftrightarrow>
     (let meta = json_object [(''key'', JString ''value'')]
      in ctx_metadata (with_metadata meta command_context_default) = Some meta)"

definition builder_chains_all_fields :: bool where
  "builder_chains_all_fields \<longleftrightarrow>
     (let ctx = with_source_device ''phone-42'' (with_metadata (json_object [(''source'', JString ''test'')])
            (with_correlation_id ''req-abc'' (with_actor ''admin'' command_context_default)))
      in ctx_actor ctx = Some ''admin'' \<and> ctx_correlation_id ctx = Some ''req-abc'' \<and>
         ctx_metadata ctx = Some (json_object [(''source'', JString ''test'')]) \<and>
         ctx_source_device ctx = Some ''phone-42'')"

definition builder_sets_source_device :: bool where
  "builder_sets_source_device \<longleftrightarrow>
     ctx_source_device (with_source_device ''device-abc'' command_context_default) = Some ''device-abc''"

definition builder_accepts_string_owned :: bool where
  "builder_accepts_string_owned \<longleftrightarrow>
     (let ctx = with_source_device ''laptop-01'' (with_correlation_id ''id-007''
            (with_actor ''svc-payments'' command_context_default))
      in ctx_actor ctx = Some ''svc-payments'' \<and> ctx_correlation_id ctx = Some ''id-007'' \<and>
         ctx_source_device ctx = Some ''laptop-01'')"

lemma builder_tests_pass:
  default_context_has_no_fields_set builder_sets_actor builder_sets_correlation_id builder_sets_metadata
  builder_chains_all_fields builder_sets_source_device builder_accepts_string_owned
  by (simp_all add: default_context_has_no_fields_set_def builder_sets_actor_def builder_sets_correlation_id_def
      builder_sets_metadata_def builder_chains_all_fields_def builder_sets_source_device_def
      builder_accepts_string_owned_def command_context_default_def with_actor_def with_correlation_id_def
      with_metadata_def with_source_device_def Let_def)

text \<open>A value printed and parsed again (\<open>to_string\<close>, then \<open>from_str\<close>).\<close>

definition reparsed :: "ext \<Rightarrow> json \<Rightarrow> json option" where
  "reparsed E v = (case json_to_vec E v of
     Inl _ \<Rightarrow> None
   | Inr text \<Rightarrow> (case json_from_str E text of Inl _ \<Rightarrow> None | Inr v' \<Rightarrow> Some v'))"

lemma reparsed_wf: "ext_ok E \<Longrightarrow> json_wf v \<Longrightarrow> reparsed E v = Some v"
  by (erule (1) ext_ok_json) (simp add: reparsed_def)

definition command_context_serde_roundtrip :: "ext \<Rightarrow> bool" where
  "command_context_serde_roundtrip E \<longleftrightarrow>
     (let ctx = with_source_device ''device-xyz'' (with_metadata (json_object [(''key'', JString ''value'')])
            (with_correlation_id ''corr-1'' (with_actor ''user-1'' command_context_default)))
      in case Option.bind (reparsed E (context_to_value ctx)) context_from_value of
           None \<Rightarrow> False
         | Some deserialized \<Rightarrow>
             ctx_actor deserialized = ctx_actor ctx \<and> ctx_correlation_id deserialized = ctx_correlation_id ctx \<and>
             ctx_metadata deserialized = ctx_metadata ctx \<and> ctx_source_device deserialized = ctx_source_device ctx)"

lemma command_context_serde_roundtrip_passes: "ext_ok E \<Longrightarrow> command_context_serde_roundtrip E"
  by (simp add: command_context_serde_roundtrip_def Let_def context_to_value_def json_object_def opt_to_value_def
      with_source_device_def with_metadata_def with_correlation_id_def with_actor_def command_context_default_def
      reparsed_wf byte_in_def context_from_value_def opt_from_value_def opt_json_from_value_def)

definition deserialize_legacy_json_without_source_device :: "ext \<Rightarrow> bool" where
  "deserialize_legacy_json_without_source_device E \<longleftrightarrow>
     (case Option.bind (ok (json_from_str E legacy_text)) context_from_value of
        None \<Rightarrow> False
      | Some ctx \<Rightarrow> ctx_actor ctx = Some ''old-user'' \<and> ctx_source_device ctx = None)"

lemma deserialize_legacy_passes: "texts_ok E \<Longrightarrow> deserialize_legacy_json_without_source_device E"
  by (simp add: deserialize_legacy_json_without_source_device_def texts_ok_def json_object_def context_from_value_def
      opt_from_value_def opt_json_from_value_def)

definition command_envelope_serde_roundtrip :: "ext \<Rightarrow> bool" where
  "command_envelope_serde_roundtrip E \<longleftrightarrow>
     (let envelope = \<lparr>env_aggregate_type = ''counter'', env_instance_id = ''c-1'',
            env_command = json_object [(''type'', JString ''Increment'')],
            env_context = with_actor ''saga'' command_context_default\<rparr>
      in case Option.bind (reparsed E (envelope_to_value envelope)) envelope_from_value of
           None \<Rightarrow> False
         | Some deserialized \<Rightarrow>
             env_aggregate_type deserialized = env_aggregate_type envelope \<and>
             env_instance_id deserialized = env_instance_id envelope \<and>
             env_command deserialized = env_command envelope \<and>
             ctx_actor (env_context deserialized) = ctx_actor (env_context envelope))"

lemma command_envelope_serde_roundtrip_passes: "ext_ok E \<Longrightarrow> command_envelope_serde_roundtrip E"
  by (simp add: command_envelope_serde_roundtrip_def Let_def envelope_to_value_def context_to_value_def json_object_def
      opt_to_value_def with_actor_def command_context_default_def reparsed_wf byte_in_def envelope_from_value_def
      context_from_value_def opt_from_value_def opt_json_from_value_def)


subsection \<open>Events\<close>

definition stream_uuid_is_deterministic :: "ext \<Rightarrow> bool" where
  "stream_uuid_is_deterministic E \<longleftrightarrow>
     (let a = stream_uuid E ''counter'' ''c-1''; b = stream_uuid E ''counter'' ''c-1'' in a = b)"

definition test_metadata :: "string option \<Rightarrow> string option \<Rightarrow> string option \<Rightarrow> event_metadata" where
  "test_metadata actor correlation device =
     \<lparr>md_aggregate_type = ''counter'', md_instance_id = ''c-1'', md_actor = actor,
      md_correlation_id = correlation, md_source_device = device\<rparr>"

definition event_metadata_includes_present_fields :: "ext \<Rightarrow> bool" where
  "event_metadata_includes_present_fields E \<longleftrightarrow>
     (case reparsed E (metadata_to_value (test_metadata (Some ''user-1'') (Some ''corr-1'') (Some ''dev-1''))) of
        None \<Rightarrow> False
      | Some parsed \<Rightarrow>
          value_get parsed ''actor'' = Some (JString ''user-1'') \<and>
          value_get parsed ''correlation_id'' = Some (JString ''corr-1'') \<and>
          value_get parsed ''source_device'' = Some (JString ''dev-1''))"

text \<open>The derived reader of the metadata, which only tests call.\<close>

definition metadata_from_value :: "json \<Rightarrow> event_metadata option" where
  "metadata_from_value v =
     (case as_object v of
        None \<Rightarrow> None
      | Some m \<Rightarrow>
          (case (map_of m ''aggregate_type'', map_of m ''instance_id'', opt_from_value (map_of m ''actor''),
                 opt_from_value (map_of m ''correlation_id''), opt_from_value (map_of m ''source_device'')) of
             (Some (JString t), Some (JString i), Some a, Some c, Some d) \<Rightarrow>
               Some \<lparr>md_aggregate_type = t, md_instance_id = i, md_actor = a, md_correlation_id = c,
                     md_source_device = d\<rparr>
           | _ \<Rightarrow> None))"

lemma metadata_from_to [simp]: "metadata_from_value (metadata_to_value m) = Some m"
  by (cases m; cases "md_actor m"; cases "md_correlation_id m"; cases "md_source_device m")
    (simp_all add: metadata_from_value_def metadata_to_value_def opt_field_def as_object_json_object
      opt_from_value_def)

definition event_metadata_serde_roundtrip :: "ext \<Rightarrow> bool" where
  "event_metadata_serde_roundtrip E \<longleftrightarrow>
     (let meta = \<lparr>md_aggregate_type = ''order'', md_instance_id = ''o-42'', md_actor = Some ''admin'',
            md_correlation_id = None, md_source_device = Some ''laptop''\<rparr>
      in case Option.bind (reparsed E (metadata_to_value meta)) metadata_from_value of
           None \<Rightarrow> False
         | Some roundtripped \<Rightarrow>
             md_aggregate_type roundtripped = ''order'' \<and> md_instance_id roundtripped = ''o-42'' \<and>
             md_actor roundtripped = Some ''admin'' \<and> md_correlation_id roundtripped = None \<and>
             md_source_device roundtripped = Some ''laptop'')"

lemma metadata_tests_pass:
  assumes "ext_ok E"
  shows "stream_uuid_is_deterministic E" and "event_metadata_includes_present_fields E"
    and "event_metadata_serde_roundtrip E"
proof -
  have r: "reparsed E (metadata_to_value m) = Some (metadata_to_value m)" if "metadata_wf m" for m
    using reparsed_wf [OF assms json_wf_metadata [OF that]] .
  show "stream_uuid_is_deterministic E" by (simp add: stream_uuid_is_deterministic_def)
  show "event_metadata_includes_present_fields E"
    by (simp add: event_metadata_includes_present_fields_def test_metadata_def r metadata_wf_def byte_in_def)
  show "event_metadata_serde_roundtrip E"
    by (simp add: event_metadata_serde_roundtrip_def r metadata_wf_def byte_in_def)
qed

subsection \<open>The encoder\<close>

text \<open>The event encoded under a context; the identifier is the one \<open>rng\<close> yields.\<close>

definition encoded :: "('s \<Rightarrow> uuid \<times> 's) \<Rightarrow> 's \<Rightarrow> counter_event \<Rightarrow> command_context \<Rightarrow> proposed_event_data option" where
  "encoded rng s event ctx =
     (case fst (encode_domain_event Counter rng event ctx ''counter'' ''c-1'' s) of
        Inl _ \<Rightarrow> None | Inr proposed \<Rightarrow> Some proposed)"

definition encode_incremented_produces_correct_event_type_and_metadata ::
  "('s \<Rightarrow> uuid \<times> 's) \<Rightarrow> 's \<Rightarrow> bool" where
  "encode_incremented_produces_correct_event_type_and_metadata rng s \<longleftrightarrow>
     (case encoded rng s Incremented command_context_default of
        None \<Rightarrow> False
      | Some proposed \<Rightarrow>
          pd_event_type proposed = ''Incremented'' \<and>
          md_aggregate_type (pd_metadata proposed) = ''counter'' \<and>
          md_instance_id (pd_metadata proposed) = ''c-1'' \<and> pd_event_id proposed = fst (rng s))"

definition encode_fieldless_variant_produces_empty_object_or_null_payload ::
  "('s \<Rightarrow> uuid \<times> 's) \<Rightarrow> 's \<Rightarrow> bool" where
  "encode_fieldless_variant_produces_empty_object_or_null_payload rng s \<longleftrightarrow>
     (case encoded rng s Incremented command_context_default of
        None \<Rightarrow> False
      | Some proposed \<Rightarrow> is_null (pd_payload proposed) \<or> pd_payload proposed = JObject [])"

definition encode_variant_with_data_includes_payload :: "('s \<Rightarrow> uuid \<times> 's) \<Rightarrow> 's \<Rightarrow> bool" where
  "encode_variant_with_data_includes_payload rng s \<longleftrightarrow>
     (case encoded rng s (Added 42) command_context_default of
        None \<Rightarrow> False
      | Some proposed \<Rightarrow>
          pd_event_type proposed = ''Added'' \<and>
          value_get (pd_payload proposed) ''amount'' = Some (JNumber (PosInt 42)))"

definition encode_populates_all_optional_metadata_fields :: "('s \<Rightarrow> uuid \<times> 's) \<Rightarrow> 's \<Rightarrow> bool" where
  "encode_populates_all_optional_metadata_fields rng s \<longleftrightarrow>
     (case encoded rng s Incremented (with_source_device ''d1'' (with_correlation_id ''c1''
             (with_actor ''u1'' command_context_default))) of
        None \<Rightarrow> False
      | Some proposed \<Rightarrow>
          md_actor (pd_metadata proposed) = Some ''u1'' \<and>
          md_correlation_id (pd_metadata proposed) = Some ''c1'' \<and>
          md_source_device (pd_metadata proposed) = Some ''d1'')"

definition encode_omits_none_optional_metadata_fields :: "('s \<Rightarrow> uuid \<times> 's) \<Rightarrow> 's \<Rightarrow> bool" where
  "encode_omits_none_optional_metadata_fields rng s \<longleftrightarrow>
     (case encoded rng s Incremented command_context_default of
        None \<Rightarrow> False
      | Some proposed \<Rightarrow>
          md_actor (pd_metadata proposed) = None \<and> md_correlation_id (pd_metadata proposed) = None \<and>
          md_source_device (pd_metadata proposed) = None)"

lemma encode_tests_pass:
  "encode_incremented_produces_correct_event_type_and_metadata rng s"
  "encode_fieldless_variant_produces_empty_object_or_null_payload rng s"
  "encode_variant_with_data_includes_payload rng s"
  "encode_populates_all_optional_metadata_fields rng s"
  "encode_omits_none_optional_metadata_fields rng s"
  by (auto simp: encode_incremented_produces_correct_event_type_and_metadata_def
      encode_fieldless_variant_produces_empty_object_or_null_payload_def
      encode_variant_with_data_includes_payload_def encode_populates_all_optional_metadata_fields_def
      encode_omits_none_optional_metadata_fields_def encoded_def encode_domain_event_def Counter_def
      json_object_def metadata_of_context_def command_context_default_def with_source_device_def
      with_correlation_id_def with_actor_def is_null_def Let_def split: prod.splits)

subsection \<open>The decoder\<close>

definition make_recorded_event_with_metadata :: "ext \<Rightarrow> uuid \<Rightarrow> string \<Rightarrow> recorded_event" where
  "make_recorded_event_with_metadata E event_id metadata_json =
     \<lparr>re_event_id = uuid_to_string E event_id,
      re_stream_id = uuid_to_string E (stream_uuid E ''counter'' ''c-1''),
      re_stream_version = 3, re_global_position = 42, re_event_type = ''Incremented'',
      re_metadata = metadata_json, re_payload = ''{}'', re_recorded_at = 1700000000000\<rparr>"

definition decode_well_formed_recorded_event_returns_some :: "ext \<Rightarrow> uuid \<Rightarrow> bool" where
  "decode_well_formed_recorded_event_returns_some E event_id \<longleftrightarrow>
     (case decode_stored_event E (make_recorded_event_with_metadata E event_id metadata_text) of
        None \<Rightarrow> False
      | Some stored \<Rightarrow>
          se_aggregate_type stored = ''counter'' \<and> se_instance_id stored = ''c-1'' \<and>
          se_stream_version stored = 3 \<and> se_global_position stored = 42 \<and>
          se_event_type stored = ''Incremented'' \<and> se_recorded_at stored = 1700000000000 \<and>
          Some (se_stream_id stored) =
            uuid_parse E (uuid_to_string E (stream_uuid E ''counter'' ''c-1'')))"

definition decode_empty_json_object_returns_none :: "ext \<Rightarrow> uuid \<Rightarrow> bool" where
  "decode_empty_json_object_returns_none E event_id \<longleftrightarrow>
     decode_stored_event E (make_recorded_event_with_metadata E event_id ''{}'') = None"

definition decode_invalid_json_returns_none :: "ext \<Rightarrow> uuid \<Rightarrow> uuid \<Rightarrow> bool" where
  "decode_invalid_json_returns_none E event_id sid \<longleftrightarrow>
     decode_stored_event E
       \<lparr>re_event_id = uuid_to_string E event_id, re_stream_id = uuid_to_string E sid,
        re_stream_version = 0, re_global_position = 0, re_event_type = ''Test'',
        re_metadata = [char_of (0xFF :: nat), char_of (0xFE :: nat)], re_payload = [],
        re_recorded_at = 0\<rparr> = None"

definition decode_missing_instance_id_returns_none :: "ext \<Rightarrow> uuid \<Rightarrow> bool" where
  "decode_missing_instance_id_returns_none E event_id \<longleftrightarrow>
     decode_stored_event E (make_recorded_event_with_metadata E event_id partial_text) = None"

lemma texts_utf8 [simp]:
  "from_utf8 metadata_text = Some metadata_text" "from_utf8 partial_text = Some partial_text"
  "from_utf8 ''{}'' = Some ''{}''" "from_utf8 [char_of (0xFF :: nat), char_of (0xFE :: nat)] = None"
  by (simp_all add: from_utf8_def metadata_text_def partial_text_def byte_in_def)

lemma decode_tests_pass:
  assumes "texts_ok E"
  shows "decode_well_formed_recorded_event_returns_some E u" and "decode_empty_json_object_returns_none E u"
    and "decode_invalid_json_returns_none E u v" and "decode_missing_instance_id_returns_none E u"
proof -
  note t = assms [unfolded texts_ok_def json_object_def] and u = ext_ok_uuid [of E]
  show "decode_well_formed_recorded_event_returns_some E u"
    using t u by (simp add: decode_well_formed_recorded_event_returns_some_def decode_stored_event_def
        make_recorded_event_with_metadata_def nonempty_str_field_def decode_payload_def)
  show "decode_empty_json_object_returns_none E u" "decode_missing_instance_id_returns_none E u"
    using t by (simp_all add: decode_empty_json_object_returns_none_def decode_stored_event_def
        decode_missing_instance_id_returns_none_def make_recorded_event_with_metadata_def nonempty_str_field_def)
  show "decode_invalid_json_returns_none E u v"
    by (simp add: decode_invalid_json_returns_none_def decode_stored_event_def del: of_nat_numeral)
qed

subsection \<open>Aggregates\<close>

definition handle_increment :: bool where
  "handle_increment \<longleftrightarrow> counter_handle (agg_default Counter) Increment = Inr [Incremented]"

definition handle_decrement_nonzero :: bool where
  "handle_decrement_nonzero \<longleftrightarrow> counter_handle \<lparr>counter_value = 5\<rparr> Decrement = Inr [Decremented]"

definition handle_decrement_at_zero :: bool where
  "handle_decrement_at_zero \<longleftrightarrow> counter_handle (agg_default Counter) Decrement = Inl AlreadyZero"

definition handle_add :: bool where
  "handle_add \<longleftrightarrow> counter_handle (agg_default Counter) (Add 5) = Inr [Added 5]"

definition apply_incremented :: bool where
  "apply_incremented \<longleftrightarrow> counter_value (counter_apply (agg_default Counter) Incremented) = 1"

definition apply_decremented :: bool where
  "apply_decremented \<longleftrightarrow> counter_value (counter_apply \<lparr>counter_value = 3\<rparr> Decremented) = 2"

definition apply_added :: bool where
  "apply_added \<longleftrightarrow> counter_value (counter_apply (agg_default Counter) (Added 5)) = 5"

definition handle_then_apply_roundtrip :: bool where
  "handle_then_apply_roundtrip \<longleftrightarrow>
     (case counter_handle (agg_default Counter) Increment of
        Inl _ \<Rightarrow> False
      | Inr events \<Rightarrow> counter_value (foldl counter_apply (agg_default Counter) events) = 1)"

lemma aggregate_tests_pass:
  handle_increment handle_decrement_nonzero handle_decrement_at_zero handle_add
  apply_incremented apply_decremented apply_added handle_then_apply_roundtrip
  by (simp_all add: handle_increment_def handle_decrement_nonzero_def handle_decrement_at_zero_def handle_add_def
      apply_incremented_def apply_decremented_def apply_added_def handle_then_apply_roundtrip_def Counter_def)

subsection \<open>Errors\<close>

text \<open>\<open>str::contains\<close>.\<close>

definition contains :: "string \<Rightarrow> string \<Rightarrow> bool" where
  "contains s t \<longleftrightarrow> sublist t s"

datatype test_domain_error = TestDomainError

definition test_domain_error_to_string :: "test_domain_error \<Rightarrow> string" where
  "test_domain_error_to_string e = ''test domain error''"

abbreviation shown :: "ext \<Rightarrow> test_domain_error execute_error \<Rightarrow> string" where
  "shown E \<equiv> execute_error_to_string E test_domain_error_to_string"

definition execute_error_domain_displays_inner :: "ext \<Rightarrow> bool" where
  "execute_error_domain_displays_inner E \<longleftrightarrow> shown E (Domain TestDomainError) = ''test domain error''"

definition execute_error_wrong_expected_version_display_message :: "ext \<Rightarrow> bool" where
  "execute_error_wrong_expected_version_display_message E \<longleftrightarrow>
     shown E WrongExpectedVersion = ''wrong expected version: retries exhausted''"

definition execute_error_io_from_conversion :: "ext \<Rightarrow> bool" where
  "execute_error_io_from_conversion E \<longleftrightarrow>
     contains (shown E (Io (io_error_new NotFound ''file missing''))) ''file missing''"

definition execute_error_actor_gone_display :: "ext \<Rightarrow> bool" where
  "execute_error_actor_gone_display E \<longleftrightarrow> shown E ActorGone = ''aggregate actor is no longer running''"

definition state_error_io_from_conversion :: "ext \<Rightarrow> bool" where
  "state_error_io_from_conversion E \<longleftrightarrow>
     contains (state_error_to_string E (StateIo (io_error_new PermissionDenied ''access denied''))) ''access denied''"

definition state_error_actor_gone_display :: "ext \<Rightarrow> bool" where
  "state_error_actor_gone_display E \<longleftrightarrow>
     state_error_to_string E StateActorGone = ''aggregate actor is no longer running''"

definition execute_error_wrong_expected_version_display :: "ext \<Rightarrow> bool" where
  "execute_error_wrong_expected_version_display E \<longleftrightarrow> shown E WrongExpectedVersion \<noteq> []"

definition execute_error_transport_display :: "ext \<Rightarrow> bool" where
  "execute_error_transport_display E \<longleftrightarrow>
     (let msg = shown E (Transport (status_new GInternal ''boom''))
      in contains msg ''boom'' \<or> contains msg ''gRPC'')"

definition state_error_transport_display :: "ext \<Rightarrow> bool" where
  "state_error_transport_display E \<longleftrightarrow>
     (let msg = state_error_to_string E (StateTransport (status_new GUnavailable ''server down''))
      in contains msg ''server down'' \<or> contains msg ''gRPC'')"

lemma contains_append: "contains (s @ t) t" "contains (t @ s) t"
  by (simp_all add: contains_def)

lemma grpc_text: "contains (''gRPC transport error: '' @ s) ''gRPC''"
  using contains_append(2) [of "''gRPC''" "'' transport error: '' @ s"] by simp

lemma execute_error_tests_pass:
  "execute_error_domain_displays_inner E" "execute_error_wrong_expected_version_display_message E"
  "execute_error_io_from_conversion E" "execute_error_actor_gone_display E"
  "execute_error_wrong_expected_version_display E" "execute_error_transport_display E"
  unfolding execute_error_domain_displays_inner_def execute_error_wrong_expected_version_display_message_def
    execute_error_io_from_conversion_def execute_error_actor_gone_display_def
    execute_error_wrong_expected_version_display_def execute_error_transport_display_def
    execute_error_to_string_def test_domain_error_to_string_def io_error_new_def execute_error.case io_error.simps
    Let_def
  by (simp, simp, rule contains_append, simp, simp, rule disjI2, rule grpc_text)

lemma state_error_tests_pass:
  "state_error_io_from_conversion E" "state_error_actor_gone_display E" "state_error_transport_display E"
  unfolding state_error_io_from_conversion_def state_error_actor_gone_display_def state_error_transport_display_def
    state_error_to_string_def io_error_new_def state_error.case io_error.simps Let_def
  by (rule contains_append, simp, rule disjI2, rule grpc_text)

subsection \<open>Authorization\<close>

definition non_empty_token_inserts_bearer_header :: "ext \<Rightarrow> bool" where
  "non_empty_token_inserts_bearer_header E \<longleftrightarrow>
     (case bearer_call E (Some ''abc'') [] of
        Inl _ \<Rightarrow> False
      | Inr result \<Rightarrow> map_of result ''authorization'' = Some ''Bearer abc'')"

definition empty_token_omits_authorization_header :: "ext \<Rightarrow> bool" where
  "empty_token_omits_authorization_header E \<longleftrightarrow>
     (case bearer_call E (Some []) [] of
        Inl _ \<Rightarrow> False
      | Inr result \<Rightarrow> map_of result ''authorization'' = None)"

definition token_mutation_visible_on_next_call :: "ext \<Rightarrow> bool" where
  "token_mutation_visible_on_next_call E \<longleftrightarrow>
     (case (bearer_call E (Some ''abc'') [], bearer_call E (Some ''xyz'') []) of
        (Inr first, Inr second) \<Rightarrow>
          map_of first ''authorization'' = Some ''Bearer abc'' \<and>
          map_of second ''authorization'' = Some ''Bearer xyz''
      | _ \<Rightarrow> False)"

definition connect_with_token_non_empty_token_injects_bearer_header :: "ext \<Rightarrow> bool" where
  "connect_with_token_non_empty_token_injects_bearer_header E \<longleftrightarrow>
     (case bearer_call E (Some ''abc123'') [] of
        Inl _ \<Rightarrow> False
      | Inr result \<Rightarrow> map_of result ''authorization'' = Some ''Bearer abc123'')"

definition connect_with_token_empty_token_omits_authorization :: "ext \<Rightarrow> bool" where
  "connect_with_token_empty_token_omits_authorization E \<longleftrightarrow>
     (case bearer_call E (Some []) [] of
        Inl _ \<Rightarrow> False
      | Inr result \<Rightarrow> map_of result ''authorization'' = None)"

lemma auth_tests_pass:
  assumes "texts_ok E"
  shows "non_empty_token_inserts_bearer_header E" and "empty_token_omits_authorization_header E"
    and "token_mutation_visible_on_next_call E"
    and "connect_with_token_non_empty_token_injects_bearer_header E"
    and "connect_with_token_empty_token_omits_authorization E"
  using assms
  by (simp_all add: non_empty_token_inserts_bearer_header_def empty_token_omits_authorization_header_def
      token_mutation_visible_on_next_call_def connect_with_token_non_empty_token_injects_bearer_header_def
      connect_with_token_empty_token_omits_authorization_def bearer_call_def texts_ok_def)

subsection \<open>The client\<close>

definition test_proposed :: "uuid \<Rightarrow> json \<Rightarrow> string option \<Rightarrow> proposed_event_data" where
  "test_proposed event_id payload actor =
     \<lparr>pd_event_id = event_id, pd_event_type = ''Incremented'', pd_payload = payload,
      pd_metadata = test_metadata actor None None\<rparr>"

definition to_proto_event_roundtrip_payload_and_metadata :: "ext \<Rightarrow> uuid \<Rightarrow> bool" where
  "to_proto_event_roundtrip_payload_and_metadata E event_id \<longleftrightarrow>
     (let proposed = test_proposed event_id (json_object [(''amount'', JNumber (PosInt 42))]) (Some ''user-1'');
          proto = to_proto_event E proposed
      in pe_event_id proto = uuid_to_string E event_id \<and> pe_event_type proto = ''Incremented'' \<and>
         json_from_slice E (pe_payload proto) = Inr (json_object [(''amount'', JNumber (PosInt 42))]) \<and>
         (case Option.bind (ok (json_from_slice E (pe_metadata proto))) metadata_from_value of
            None \<Rightarrow> False
          | Some meta_decoded \<Rightarrow>
              md_aggregate_type meta_decoded = ''counter'' \<and> md_instance_id meta_decoded = ''c-1'' \<and>
              md_actor meta_decoded = Some ''user-1'' \<and> md_correlation_id meta_decoded = None))"

definition to_proto_event_null_payload_serializes_as_null :: "ext \<Rightarrow> uuid \<Rightarrow> bool" where
  "to_proto_event_null_payload_serializes_as_null E event_id \<longleftrightarrow>
     json_from_slice E (pe_payload (to_proto_event E (test_proposed event_id JNull None))) = Inr JNull"

definition expected_version_any_converts_to_proto :: bool where
  "expected_version_any_converts_to_proto \<longleftrightarrow> ev_kind (to_proto Any) = Some KAny"

definition expected_version_no_stream_converts_to_proto :: bool where
  "expected_version_no_stream_converts_to_proto \<longleftrightarrow> ev_kind (to_proto NoStream) = Some KNoStream"

definition expected_version_exact_converts_to_proto :: bool where
  "expected_version_exact_converts_to_proto \<longleftrightarrow> ev_kind (to_proto (Exact 5)) = Some (KExact 5)"

lemma client_tests_pass:
  assumes "texts_ok E"
  shows "to_proto_event_roundtrip_payload_and_metadata E u" and "to_proto_event_null_payload_serializes_as_null E u"
proof -
  have E: "ext_ok E" "\<And>bs. utf8_valid bs \<Longrightarrow> json_from_slice E bs = json_from_str E bs"
    using assms by (simp_all add: texts_ok_def)
  have r: "json_from_slice E (unwrap_or_default (json_to_vec E v)) = Inr v" if "json_wf v" for v
    using E(1) that by (rule ext_ok_json) (simp add: E(2))
  have w: "metadata_wf (test_metadata (Some ''user-1'') None None)"
    by (simp add: metadata_wf_def test_metadata_def byte_in_def)
  have "json_wf (json_object [(''amount'', JNumber (PosInt 42))])" by (simp add: json_object_def byte_in_def)
  note a = r [OF this] and m = r [OF json_wf_metadata [OF w]]
  show "to_proto_event_roundtrip_payload_and_metadata E u"
    by (simp add: to_proto_event_roundtrip_payload_and_metadata_def to_proto_event_def test_proposed_def Let_def a m)
      (simp add: test_metadata_def)
  show "to_proto_event_null_payload_serializes_as_null E u"
    by (simp add: to_proto_event_null_payload_serializes_as_null_def to_proto_event_def test_proposed_def r)
qed

lemma expected_version_tests_pass:
  expected_version_any_converts_to_proto expected_version_no_stream_converts_to_proto
  expected_version_exact_converts_to_proto
  by (simp_all add: expected_version_any_converts_to_proto_def expected_version_no_stream_converts_to_proto_def
      expected_version_exact_converts_to_proto_def)

subsection \<open>Snapshots\<close>

text \<open>A new temporary directory on a disk on which every operation works.\<close>

definition fresh :: "fs \<Rightarrow> path \<Rightarrow> bool" where
  "fresh F dir \<longleftrightarrow> dir_exists F dir \<and> (\<forall>op p. io_fails F op p = None) \<and>
     (\<forall>p. ancestor dir p \<longrightarrow> files F p = None)"

definition snapshot_path_returns_expected_path :: bool where
  "snapshot_path_returns_expected_path \<longleftrightarrow>
     snapshot_path (path_of ''/data/myapp'') ''counter'' ''c-1'' =
       path_of ''/data/myapp/snapshots/counter/c-1/snapshot.json''"

definition save_then_load_roundtrips :: "ext \<Rightarrow> fs \<Rightarrow> path \<Rightarrow> bool" where
  "save_then_load_roundtrips E F dir \<longleftrightarrow>
     (let snap = \<lparr>snap_state = \<lparr>counter_value = 42\<rparr>, snap_stream_version = 7\<rparr>
      in case save_snapshot E Counter dir ''c-1'' snap F of
           (Inl _, _) \<Rightarrow> False
         | (Inr _, F1) \<Rightarrow>
             (case load_snapshot E Counter dir ''c-1'' F1 of
                Inr (Some loaded) \<Rightarrow>
                  counter_value (snap_state loaded) = 42 \<and> snap_stream_version loaded = 7
              | _ \<Rightarrow> False))"

definition load_nonexistent_returns_none :: "ext \<Rightarrow> fs \<Rightarrow> path \<Rightarrow> bool" where
  "load_nonexistent_returns_none E F dir \<longleftrightarrow> load_snapshot E Counter dir ''no-such-id'' F = Inr None"

text \<open>What \<open>create_dir_all\<close> of the parent and \<open>write\<close> leave (\<open>None\<close> when one of them fails).\<close>

definition planted :: "path \<Rightarrow> bytes \<Rightarrow> fs \<Rightarrow> fs option" where
  "planted path bs F =
     (case path_parent path of
        None \<Rightarrow> None
      | Some d \<Rightarrow>
          (case create_dir_all d F of
             (Inl _, _) \<Rightarrow> None
           | (Inr _, F1) \<Rightarrow> (case fs_write path bs F1 of (Inl _, _) \<Rightarrow> None | (Inr _, F2) \<Rightarrow> Some F2)))"

definition load_corrupt_json_returns_none :: "ext \<Rightarrow> fs \<Rightarrow> path \<Rightarrow> bool" where
  "load_corrupt_json_returns_none E F dir \<longleftrightarrow>
     (case planted (snapshot_path dir ''counter'' ''c-bad'') corrupt_text F of
        None \<Rightarrow> False
      | Some F1 \<Rightarrow> load_snapshot E Counter dir ''c-bad'' F1 = Inr None)"

definition save_uses_atomic_temp_rename :: "ext \<Rightarrow> fs \<Rightarrow> path \<Rightarrow> bool" where
  "save_uses_atomic_temp_rename E F dir \<longleftrightarrow>
     (let snap = \<lparr>snap_state = \<lparr>counter_value = 10\<rparr>, snap_stream_version = 3\<rparr>;
          final_path = snapshot_path dir ''counter'' ''c-atomic'';
          tmp_path = with_extension ''json.tmp'' final_path
      in case save_snapshot E Counter dir ''c-atomic'' snap F of
           (Inl _, _) \<Rightarrow> False
         | (Inr _, F1) \<Rightarrow> files F1 final_path \<noteq> None \<and> files F1 tmp_path = None)"

lemma planted_works:
  assumes "fresh F dir" and "path_parent p = Some d"
  shows "\<exists>F'. planted p bs F = Some F' \<and> files F' = (files F)(p \<mapsto> bs) \<and> io_fails F' = io_fails F"
proof -
  have io: "io_fails F op q = None" for op q using assms(1) by (simp add: fresh_def)
  obtain F1 where c: "create_dir_all d F = (Inr (), F1)" "io_fails F1 = io_fails F" "files F1 = files F"
    using io by (auto simp: create_dir_all_def)
  with dir_created [of d F] have "parent_exists F1 p" using assms(2) by (simp add: parent_exists_def)
  with c io show ?thesis using assms(2) by (auto simp: planted_def fs_write_def)
qed

lemma ancestor_snapshot_path:
  "simple_name ty \<Longrightarrow> simple_name i \<Longrightarrow> ancestor dir (snapshot_path dir ty i)"
  by (simp add: snapshot_path_simple ancestor_def)

lemma counter_snapshot_saved:
  assumes "ext_ok E" and "fresh F dir"
  shows "\<exists>F'. save_snapshot E Counter dir i sn F = (Inr (), F') \<and> load_snapshot E Counter dir i F' = Inr (Some sn) \<and>
    files F' (snapshot_path dir ''counter'' i) \<noteq> None \<and>
    files F' (with_extension ''json.tmp'' (snapshot_path dir ''counter'' i)) = None"
proof -
  obtain v where v: "state_to_value Counter (snap_state sn) = Inr v" "json_wf v"
    using counter_agg.state_value [of "snap_state sn"] by blast
  then have "json_wf (json_object [(''state'', v), (''stream_version'', JNumber (PosInt (snap_stream_version sn)))])"
    by (intro json_wf_object) (auto simp: byte_in_def)
  with assms(1) obtain bs where bs: "snapshot_bytes E Counter sn = Inr bs"
    by (rule ext_ok_pretty) (simp add: snapshot_bytes_def snapshot_to_value_def v)
  obtain r F' where s: "save_snapshot E Counter dir i sn F = (r, F')" by fastforce
  have io: "io_fails F op q = None" for op q using assms(2) by (simp add: fresh_def)
  have "r = Inr ()" by (rule snapshot_save_succeeds [OF s bs io])
  with s have s': "save_snapshot E Counter dir i sn F = (Inr (), F')" by simp
  have n: "AGGREGATE_TYPE Counter = ''counter''" by (simp add: Counter_def)
  from snapshot_file.save_Inr [OF s'] snapshot_tmp_path [of dir "''counter''" i]
  have f: "files F' (snapshot_path dir ''counter'' i) \<noteq> None"
    "files F' (with_extension ''json.tmp'' (snapshot_path dir ''counter'' i)) = None" unfolding n by auto
  have "io_fails F' OpRead (snapshot_path dir ''counter'' i) = None" using snapshot_file.save_Inr [OF s'] io by auto
  with snapshot_file.save_Inr [OF s'] snapshot_value_roundtrip [OF counter_snapshot_good [OF assms(1)]]
  have "load_snapshot E Counter dir i F' = Inr (Some sn)"
    unfolding load_snapshot_def fs_read_def n by fastforce
  with s' f show ?thesis by blast
qed

lemma snapshot_tests_pass:
  assumes "texts_ok E" and "fresh F dir"
  shows "save_then_load_roundtrips E F dir" and "load_nonexistent_returns_none E F dir"
    and "load_corrupt_json_returns_none E F dir" and "save_uses_atomic_temp_rename E F dir"
proof -
  have E: "ext_ok E" and c: "\<exists>e. json_from_slice E corrupt_text = Inl e" using assms(1) by (simp_all add: texts_ok_def)
  show "save_then_load_roundtrips E F dir"
    using counter_snapshot_saved [OF E assms(2), of "''c-1''" "\<lparr>snap_state = \<lparr>counter_value = 42\<rparr>, snap_stream_version = 7\<rparr>"]
    by (auto simp: save_then_load_roundtrips_def)
  show "save_uses_atomic_temp_rename E F dir"
    using counter_snapshot_saved [OF E assms(2), of "''c-atomic''" "\<lparr>snap_state = \<lparr>counter_value = 10\<rparr>, snap_stream_version = 3\<rparr>"]
    by (auto simp: save_uses_atomic_temp_rename_def)
  have "files F (snapshot_path dir ''counter'' ''no-such-id'') = None"
    using assms(2) ancestor_snapshot_path [of "''counter''" "''no-such-id''" dir] by (simp add: fresh_def simple_name_def)
  then show "load_nonexistent_returns_none E F dir"
    using assms(2) by (simp add: load_nonexistent_returns_none_def load_snapshot_def fs_read_def Counter_def fresh_def
        io_error_new_def)
  obtain d where d: "path_parent (snapshot_path dir ''counter'' ''c-bad'') = Some d"
    using snapshot_path_parent [of dir "''counter''" "''c-bad''"] by auto
  show "load_corrupt_json_returns_none E F dir"
    using planted_works [OF assms(2) d, of corrupt_text] c assms(2)
    by (auto simp: load_corrupt_json_returns_none_def load_snapshot_def fs_read_def Counter_def fresh_def)
qed

lemma snapshot_path_test_passes: snapshot_path_returns_expected_path
  by (simp add: snapshot_path_returns_expected_path_def snapshot_path_def path_of_def path_join_def)

subsection \<open>The layout\<close>

definition base_dir_returns_root :: "path \<Rightarrow> bool" where
  "base_dir_returns_root tmp \<longleftrightarrow> sl_base_dir (stream_layout_new tmp) = tmp"

definition snapshots_dir_returns_base_dir_slash_snapshots :: "path \<Rightarrow> bool" where
  "snapshots_dir_returns_base_dir_slash_snapshots tmp \<longleftrightarrow>
     snapshots_dir (stream_layout_new tmp) = path_join tmp ''snapshots''"

definition projections_dir_returns_base_dir_slash_projections :: "path \<Rightarrow> bool" where
  "projections_dir_returns_base_dir_slash_projections tmp \<longleftrightarrow>
     projections_dir (stream_layout_new tmp) = path_join tmp ''projections''"

definition process_managers_dir_returns_base_dir_slash_process_managers :: "path \<Rightarrow> bool" where
  "process_managers_dir_returns_base_dir_slash_process_managers tmp \<longleftrightarrow>
     process_managers_dir (stream_layout_new tmp) = path_join tmp ''process_managers''"

lemma layout_tests_pass:
  "base_dir_returns_root tmp" "snapshots_dir_returns_base_dir_slash_snapshots tmp"
  "projections_dir_returns_base_dir_slash_projections tmp"
  "process_managers_dir_returns_base_dir_slash_process_managers tmp"
  by (simp_all add: base_dir_returns_root_def snapshots_dir_returns_base_dir_slash_snapshots_def
      projections_dir_returns_base_dir_slash_projections_def stream_layout_new_def snapshots_dir_def
      projections_dir_def process_managers_dir_returns_base_dir_slash_process_managers_def process_managers_dir_def)

subsection \<open>Concrete parsers and a directory\<close>

text \<open>The reference functions, with a parser that knows the literals of the tests.\<close>

definition test_parse :: "string \<Rightarrow> string + json" where
  "test_parse s =
     (if s = ''{}'' then Inr (JObject [])
      else if s = ''null'' then Inr JNull
      else if s = metadata_text then Inr (json_object
        [(''aggregate_type'', JString ''counter''), (''instance_id'', JString ''c-1''), (''actor'', JString ''u1'')])
      else if s = partial_text then Inr (json_object [(''aggregate_type'', JString ''counter'')])
      else if s = legacy_text then Inr (json_object
        [(''actor'', JString ''old-user''), (''correlation_id'', JString ''old-corr''), (''metadata'', JNull)])
      else env_parse s)"

definition test_env :: ext where
  "test_env = env\<lparr>json_from_str := test_parse, json_from_slice := test_parse\<rparr>"

lemma enc_no_brace: "enc v \<noteq> CHR ''{'' # s"
  by (cases v rule: enc.cases) simp_all

lemma enc_no_null: "enc v \<noteq> ''null''"
  by (cases v rule: enc.cases) simp_all

lemma test_parse_enc [simp]: "test_parse (enc v) = Inr v"
  using enc_no_brace [of v] enc_no_null [of v] by (simp add: test_parse_def metadata_text_def partial_text_def legacy_text_def)

lemma test_env_ok: "texts_ok test_env"
proof -
  have "ext_ok test_env"
    using env_ok by (auto simp: ext_ok_def json_roundtrips_def test_env_def env_def)
  moreover have "\<exists>e. test_parse corrupt_text = Inl e"
    by (simp add: test_parse_def corrupt_text_def metadata_text_def partial_text_def legacy_text_def env_parse_def
        eval_nat_numeral)
  moreover have "\<exists>e. test_parse invalid_text = Inl e"
    by (simp add: test_parse_def invalid_text_def metadata_text_def partial_text_def legacy_text_def env_parse_def
        eval_nat_numeral)
  moreover have "metadata_value_ok test_env ''Bearer abc''" "metadata_value_ok test_env ''Bearer xyz''"
    "metadata_value_ok test_env ''Bearer abc123''" by (simp_all add: test_env_def env_def byte_in_def)
  ultimately show ?thesis
    by (simp add: texts_ok_def)
      (simp add: test_env_def test_parse_def metadata_text_def partial_text_def legacy_text_def)
qed

definition temp_disk :: "path \<Rightarrow> fs" where
  "temp_disk dir = empty_disk\<lparr>dirs := (\<lambda>p. ancestor p dir)\<rparr>"

lemma temp_disk_fresh: "fresh (temp_disk dir) dir"
  by (simp add: fresh_def temp_disk_def empty_disk_def dir_exists_def ancestor_def)

lemma tests_pass_on_an_empty_disk:
  "save_then_load_roundtrips test_env (temp_disk (path_of ''/tmp/x'')) (path_of ''/tmp/x'') \<and>
   load_corrupt_json_returns_none test_env (temp_disk (path_of ''/tmp/x'')) (path_of ''/tmp/x'') \<and>
   decode_well_formed_recorded_event_returns_some test_env 5"
  using snapshot_tests_pass [OF test_env_ok temp_disk_fresh] decode_tests_pass [OF test_env_ok] by blast

subsection \<open>The variants of the client\<close>

text \<open>\<open>EsClient::from_inner\<close> and \<open>is_auth\<close>, which only tests use.\<close>

definition from_inner :: es_client where
  "from_inner = Plain"

definition is_auth :: "es_client \<Rightarrow> bool" where
  "is_auth c = (case c of Plain \<Rightarrow> False | Auth \<Rightarrow> True)"

definition mock_auth_client :: es_client where
  "mock_auth_client = Auth"

definition from_inner_creates_plain_variant :: bool where
  "from_inner_creates_plain_variant \<longleftrightarrow> \<not> is_auth from_inner"

definition connect_with_token_creates_auth_variant :: bool where
  "connect_with_token_creates_auth_variant \<longleftrightarrow> is_auth mock_auth_client"

lemma variant_tests_pass: from_inner_creates_plain_variant connect_with_token_creates_auth_variant
  by (simp_all add: from_inner_creates_plain_variant_def connect_with_token_creates_auth_variant_def is_auth_def
      from_inner_def mock_auth_client_def)

end
