(* ===== verification/Unit_Tests_Projection.thy ===== *)
theory Unit_Tests_Projection
  imports Unit_Tests Projection
begin

text \<open>
  The unit tests of \<^verbatim>\<open>src/projection.rs\<close> on the model, as in \<^verbatim>\<open>Unit_Tests\<close>. The fixtures that
  \<^verbatim>\<open>projection.rs\<close>, \<^verbatim>\<open>process_manager.rs\<close> and \<^verbatim>\<open>live.rs\<close> each repeat are here once.
\<close>

subsection \<open>Fixtures\<close>

record event_counter =
  counted :: u64

definition event_counter_apply :: "event_counter \<Rightarrow> stored_event \<Rightarrow> event_counter" where
  "event_counter_apply s event = s\<lparr>counted := counted s + 1\<rparr>"

definition EventCounter :: "event_counter projection" where
  "EventCounter =
     \<lparr>NAME = ''event-counter'', proj_default = \<lparr>counted = 0\<rparr>, proj_apply = event_counter_apply,
      proj_to_value = (\<lambda>s. Inr (json_object [(''count'', JNumber (PosInt (counted s)))])),
      proj_from_value = (\<lambda>v. case field_from_value u64_from_value ''count'' v of
         Inl e \<Rightarrow> Inl e | Inr n \<Rightarrow> Inr \<lparr>counted = n\<rparr>)\<rparr>"

text \<open>The \<open>expect\<close> on the serialisation of the metadata never fires.\<close>

definition make_recorded_event :: "ext \<Rightarrow> uuid \<Rightarrow> u64 \<Rightarrow> u64 \<Rightarrow> recorded_event" where
  "make_recorded_event E event_id gp version =
     \<lparr>re_event_id = uuid_to_string E event_id,
      re_stream_id = uuid_to_string E (stream_uuid E ''counter'' ''c-1''),
      re_stream_version = version, re_global_position = gp, re_event_type = ''Incremented'',
      re_metadata = unwrap_or_default (json_to_vec E (json_object
        [(''aggregate_type'', JString ''counter''), (''instance_id'', JString ''c-1'')])),
      re_payload = ''{}'', re_recorded_at = 1700000000000\<rparr>"

definition event_response :: "ext \<Rightarrow> uuid \<Rightarrow> u64 \<Rightarrow> u64 \<Rightarrow> status + subscribe_response" where
  "event_response E event_id gp version =
     Inr \<lparr>content = Some (Event (make_recorded_event E event_id gp version))\<rparr>"

definition caught_up_response :: "status + subscribe_response" where
  "caught_up_response = Inr \<lparr>content = Some CaughtUp\<rparr>"

text \<open>An event of another system, without the metadata of the crate.\<close>

definition foreign_event :: "ext \<Rightarrow> uuid \<Rightarrow> uuid \<Rightarrow> u64 \<Rightarrow> recorded_event" where
  "foreign_event E event_id sid gp =
     \<lparr>re_event_id = uuid_to_string E event_id, re_stream_id = uuid_to_string E sid,
      re_stream_version = 0, re_global_position = gp, re_event_type = ''SomeEvent'',
      re_metadata = ''{}'', re_payload = ''{}'', re_recorded_at = 1700000000000\<rparr>"

lemma make_recorded_event_position [simp]: "re_global_position (make_recorded_event E u gp v) = gp"
  by (simp add: make_recorded_event_def)

lemma foreign_event_position [simp]: "re_global_position (foreign_event E u v gp) = gp"
  by (simp add: foreign_event_def)

text \<open>The first decodes, the second does not.\<close>

lemma decode_make_recorded_event:
  assumes "texts_ok E"
  shows "\<exists>s. decode_stored_event E (make_recorded_event E u gp v) = Some s \<and>
    se_aggregate_type s = ''counter'' \<and> se_instance_id s = ''c-1'' \<and> se_event_type s = ''Incremented''"
proof -
  let ?m = "json_object [(''aggregate_type'', JString ''counter''), (''instance_id'', JString ''c-1'')]"
  have E: "ext_ok E" "json_from_str E ''{}'' = Inr (JObject [])" using assms by (simp_all add: texts_ok_def)
  have "json_wf ?m" by (simp add: json_object_def byte_in_def)
  with E(1) obtain bs where "json_to_vec E ?m = Inr bs" "utf8_valid bs" "json_from_str E bs = Inr ?m"
    by (rule ext_ok_json)
  with E(2) ext_ok_uuid [OF E(1)] show ?thesis
    by (simp add: decode_stored_event_def make_recorded_event_def from_utf8_def nonempty_str_field_def json_object_def
        decode_payload_def byte_in_def)
qed

lemma decode_foreign_event: "texts_ok E \<Longrightarrow> decode_stored_event E (foreign_event E u v gp) = None"
  by (simp add: decode_stored_event_def foreign_event_def texts_ok_def nonempty_str_field_def)

lemma counter_consumes:
  assumes "texts_ok E"
  shows "apply_recorded_event E EventCounter (make_recorded_event E u gp v) (x, pos) =
      (if gp < pos then (x, pos) else (x\<lparr>counted := counted x + 1\<rparr>, gp + 1))"
    and "apply_recorded_event E EventCounter (foreign_event E u w gp) (x, pos) =
      (if gp < pos then (x, pos) else (x, gp + 1))"
  using decode_make_recorded_event [OF assms, of u gp v] decode_foreign_event [OF assms, of u w gp]
  by (auto simp: apply_recorded_event_def EventCounter_def event_counter_apply_def)

subsection \<open>The trait and the checkpoint\<close>

definition projection_trait_has_no_subscriptions_method :: "uuid \<Rightarrow> uuid \<Rightarrow> bool" where
  "projection_trait_has_no_subscriptions_method event_id sid \<longleftrightarrow>
     (let stored = \<lparr>se_event_id = event_id, se_stream_id = sid, se_aggregate_type = ''counter'',
            se_instance_id = ''c-1'', se_stream_version = 0, se_global_position = 0,
            se_event_type = ''Incremented'', se_payload = JObject [], se_metadata = JObject [],
            se_recorded_at = 1700000000000\<rparr>
      in counted (proj_apply EventCounter (proj_default EventCounter) stored) = 1)"

text \<open>The checkpoint as \<open>serde_json\<close> prints and reads it.\<close>

definition reparsed_checkpoint :: "ext \<Rightarrow> event_counter projection_checkpoint \<Rightarrow> json option" where
  "reparsed_checkpoint E ck =
     Option.bind (ok (checkpoint_to_value (proj_to_value EventCounter (pc_state ck)) (pc_last_global_position ck)))
       (reparsed E)"

definition checkpoint_serializes_with_last_global_position :: "ext \<Rightarrow> bool" where
  "checkpoint_serializes_with_last_global_position E \<longleftrightarrow>
     (case reparsed_checkpoint E \<lparr>pc_state = \<lparr>counted = 5\<rparr>, pc_last_global_position = 42\<rparr> of
        None \<Rightarrow> False
      | Some parsed \<Rightarrow>
          Option.bind (value_get parsed ''state'') (\<lambda>s. value_get s ''count'') = Some (JNumber (PosInt 5)) \<and>
          value_get parsed ''last_global_position'' = Some (JNumber (PosInt 42)))"

definition checkpoint_default_has_position_zero :: bool where
  "checkpoint_default_has_position_zero \<longleftrightarrow>
     counted (pc_state (checkpoint_default EventCounter)) = 0 \<and>
     pc_last_global_position (checkpoint_default EventCounter) = 0"

definition checkpoint_serde_roundtrip :: "ext \<Rightarrow> bool" where
  "checkpoint_serde_roundtrip E \<longleftrightarrow>
     (case reparsed_checkpoint E \<lparr>pc_state = \<lparr>counted = 7\<rparr>, pc_last_global_position = 99\<rparr> of
        None \<Rightarrow> False
      | Some v \<Rightarrow>
          field_from_value (proj_from_value EventCounter) ''state'' v = Inr \<lparr>counted = 7\<rparr> \<and>
          field_from_value u64_from_value ''last_global_position'' v = Inr 99)"

lemma checkpoint_tests_pass:
  assumes "ext_ok E"
  shows "projection_trait_has_no_subscriptions_method u v" and "checkpoint_serializes_with_last_global_position E"
    and checkpoint_default_has_position_zero and "checkpoint_serde_roundtrip E"
proof -
  have r: "reparsed_checkpoint E \<lparr>pc_state = \<lparr>counted = n\<rparr>, pc_last_global_position = p\<rparr> =
      Some (json_object [(''state'', json_object [(''count'', JNumber (PosInt n))]),
        (''last_global_position'', JNumber (PosInt p))])" for n p
    unfolding reparsed_checkpoint_def checkpoint_to_value_def
    by (simp add: EventCounter_def, rule reparsed_wf [OF assms]) (simp add: json_object_def byte_in_def)
  show "projection_trait_has_no_subscriptions_method u v" checkpoint_default_has_position_zero
    by (simp_all add: projection_trait_has_no_subscriptions_method_def EventCounter_def event_counter_apply_def
        checkpoint_default_has_position_zero_def checkpoint_default_def)
  show "checkpoint_serializes_with_last_global_position E"
    by (simp add: checkpoint_serializes_with_last_global_position_def r json_object_def)
  show "checkpoint_serde_roundtrip E"
    by (simp add: checkpoint_serde_roundtrip_def r json_object_def field_from_value_def EventCounter_def)
qed

subsection \<open>The file\<close>

definition projection_save_then_load_roundtrips :: "ext \<Rightarrow> fs \<Rightarrow> path \<Rightarrow> bool" where
  "projection_save_then_load_roundtrips E F dir \<longleftrightarrow>
     (let ck = \<lparr>pc_state = \<lparr>counted = 7\<rparr>, pc_last_global_position = 99\<rparr>
      in case save_checkpoint E EventCounter dir ck F of
           (Inl _, _) \<Rightarrow> False
         | (Inr _, F1) \<Rightarrow> load_checkpoint E EventCounter dir F1 = Inr (Some ck))"

definition load_from_empty_dir_returns_none :: "ext \<Rightarrow> fs \<Rightarrow> path \<Rightarrow> bool" where
  "load_from_empty_dir_returns_none E F dir \<longleftrightarrow> load_checkpoint E EventCounter dir F = Inr None"

definition corrupt_file_returns_none :: "ext \<Rightarrow> fs \<Rightarrow> path \<Rightarrow> bool" where
  "corrupt_file_returns_none E F dir \<longleftrightarrow>
     (case fs_write (path_join dir ''checkpoint.json'') invalid_text F of
        (Inl _, _) \<Rightarrow> False
      | (Inr _, F1) \<Rightarrow> load_checkpoint E EventCounter dir F1 = Inr None)"

definition save_creates_parent_dir :: "ext \<Rightarrow> fs \<Rightarrow> path \<Rightarrow> bool" where
  "save_creates_parent_dir E F dir \<longleftrightarrow>
     (let nested = path_join (path_join dir ''nested'') ''subdir'';
          ck = \<lparr>pc_state = \<lparr>counted = 3\<rparr>, pc_last_global_position = 10\<rparr>
      in case save_checkpoint E EventCounter nested ck F of
           (Inl _, _) \<Rightarrow> False
         | (Inr _, F1) \<Rightarrow> load_checkpoint E EventCounter nested F1 = Inr (Some ck))"

lemma checkpoint_parent: "path_parent (checkpoint_path dir) = Some dir"
  by (simp add: checkpoint_path_def path_join_simple path_parent_def)

lemma checkpoint_in: "ancestor dir (checkpoint_path dir)"
  by (simp add: checkpoint_path_def path_join_simple ancestor_def)

lemma counter_checkpoint_good: "ext_ok E \<Longrightarrow> projection_good E EventCounter ck"
  by (cases "pc_state ck")
    (simp add: projection_good_def EventCounter_def json_object_def byte_in_def field_from_value_def)

lemma counter_checkpoint_saved:
  assumes "ext_ok E" and "\<forall>op p. io_fails F op p = None"
  shows "\<exists>F'. save_checkpoint E EventCounter dir ck F = (Inr (), F') \<and>
    load_checkpoint E EventCounter dir F' = Inr (Some ck)"
proof -
  let ?v = "json_object [(''count'', JNumber (PosInt (counted (pc_state ck))))]"
  have "json_wf ?v" by (simp add: json_object_def byte_in_def)
  from pretty_bytes_good [OF assms(1) refl this] obtain bs where "checkpoint_bytes E EventCounter ck = Inr bs"
    by (auto simp: checkpoint_bytes_def EventCounter_def)
  then have "fst (save_checkpoint E EventCounter dir ck F) = Inr ()"
    using write_and_rename_succeeds [OF _ checkpoint_tmp_parent] assms(2) by (simp add: save_checkpoint_def)
  then obtain F' where s: "save_checkpoint E EventCounter dir ck F = (Inr (), F')" by (metis prod.collapse)
  with projection_file.save_load [OF s counter_checkpoint_good [OF assms(1)]] assms(2) show ?thesis by simp
qed

lemma invalid_utf8 [simp]: "from_utf8 invalid_text = Some invalid_text"
  by (simp add: from_utf8_def invalid_text_def byte_in_def)

lemma projection_file_tests_pass:
  assumes "texts_ok E" and "fresh F dir"
  shows "projection_save_then_load_roundtrips E F dir" and "load_from_empty_dir_returns_none E F dir"
    and "corrupt_file_returns_none E F dir" and "save_creates_parent_dir E F dir"
proof -
  have E: "ext_ok E" and io: "\<forall>op p. io_fails F op p = None" and d: "dir_exists F dir"
    using assms by (simp_all add: texts_ok_def fresh_def)
  note s = counter_checkpoint_saved [OF E io]
  show "projection_save_then_load_roundtrips E F dir"
    using s [of dir "\<lparr>pc_state = \<lparr>counted = 7\<rparr>, pc_last_global_position = 99\<rparr>"]
    by (auto simp: projection_save_then_load_roundtrips_def)
  show "save_creates_parent_dir E F dir"
    using s [of "path_join (path_join dir ''nested'') ''subdir''" "\<lparr>pc_state = \<lparr>counted = 3\<rparr>, pc_last_global_position = 10\<rparr>"]
    by (auto simp: save_creates_parent_dir_def Let_def)
  show "load_from_empty_dir_returns_none E F dir"
    using assms(2) checkpoint_in [of dir] io
    by (simp add: load_from_empty_dir_returns_none_def fresh_def projection_file.load_missing)
  obtain e where "json_from_str E invalid_text = Inl e" using assms(1) by (auto simp: texts_ok_def)
  with d io checkpoint_parent [of dir] show "corrupt_file_returns_none E F dir"
    by (simp add: corrupt_file_returns_none_def fs_write_def parent_exists_def checkpoint_path_def [symmetric]
        load_checkpoint_def read_checkpoint_def fs_read_to_string_def fs_read_def)
qed

subsection \<open>The stream\<close>

definition catch_up_fresh_checkpoint_with_two_events :: "ext \<Rightarrow> uuid \<Rightarrow> uuid \<Rightarrow> bool" where
  "catch_up_fresh_checkpoint_with_two_events E u v \<longleftrightarrow>
     (case process_stream E EventCounter [event_response E u 0 0, event_response E v 1 1, caught_up_response]
             (checkpoint_default EventCounter) of
        (Inl _, _) \<Rightarrow> False
      | (Inr _, ck) \<Rightarrow> counted (pc_state ck) = 2 \<and> pc_last_global_position ck = 2)"

definition second_catch_up_with_only_caught_up_leaves_count_unchanged :: "ext \<Rightarrow> bool" where
  "second_catch_up_with_only_caught_up_leaves_count_unchanged E \<longleftrightarrow>
     (case process_stream E EventCounter [caught_up_response]
             \<lparr>pc_state = \<lparr>counted = 2\<rparr>, pc_last_global_position = 2\<rparr> of
        (Inl _, _) \<Rightarrow> False
      | (Inr _, ck) \<Rightarrow> counted (pc_state ck) = 2 \<and> pc_last_global_position ck = 2)"

definition recorded_event_with_empty_metadata_is_skipped :: "ext \<Rightarrow> uuid \<Rightarrow> uuid \<Rightarrow> bool" where
  "recorded_event_with_empty_metadata_is_skipped E u v \<longleftrightarrow>
     (case process_stream E EventCounter
             [Inr \<lparr>content = Some (Event (foreign_event E u v 5))\<rparr>, caught_up_response]
             (checkpoint_default EventCounter) of
        (Inl _, _) \<Rightarrow> False
      | (Inr _, ck) \<Rightarrow> counted (pc_state ck) = 0 \<and> pc_last_global_position ck = 6)"

definition apply_recorded_event_skips_already_processed_positions :: "ext \<Rightarrow> uuid \<Rightarrow> uuid \<Rightarrow> uuid \<Rightarrow> bool" where
  "apply_recorded_event_skips_already_processed_positions E u v w \<longleftrightarrow>
     (let c0 = (proj_default EventCounter, 5);
          c1 = apply_recorded_event E EventCounter (make_recorded_event E u 3 3) c0;
          c2 = apply_recorded_event E EventCounter (make_recorded_event E v 5 5) c1;
          c3 = apply_recorded_event E EventCounter (make_recorded_event E w 10 10) c2
      in counted (fst c1) = 0 \<and> snd c1 = 5 \<and> counted (fst c2) = 1 \<and> snd c2 = 6 \<and>
         counted (fst c3) = 2 \<and> snd c3 = 11)"

definition checkpoint_save_load_roundtrip_via_process_stream :: "ext \<Rightarrow> fs \<Rightarrow> path \<Rightarrow> uuid \<Rightarrow> uuid \<Rightarrow> bool" where
  "checkpoint_save_load_roundtrip_via_process_stream E F dir u v \<longleftrightarrow>
     (case process_stream E EventCounter [event_response E u 0 0, event_response E v 1 1, caught_up_response]
             (checkpoint_default EventCounter) of
        (Inl _, _) \<Rightarrow> False
      | (Inr _, ck) \<Rightarrow>
          (case save_checkpoint E EventCounter (path_join dir ''event-counter'') ck F of
             (Inl _, _) \<Rightarrow> False
           | (Inr _, F1) \<Rightarrow>
               (case load_checkpoint E EventCounter (path_join dir ''event-counter'') F1 of
                  Inr (Some loaded) \<Rightarrow> counted (pc_state loaded) = 2 \<and> pc_last_global_position loaded = 2
                | _ \<Rightarrow> False)))"

lemma counter_default [simp]: "checkpoint_default EventCounter = \<lparr>pc_state = \<lparr>counted = 0\<rparr>, pc_last_global_position = 0\<rparr>"
  "proj_default EventCounter = \<lparr>counted = 0\<rparr>"
  by (simp_all add: checkpoint_default_def EventCounter_def)

lemma two_counted:
  assumes "texts_ok E"
  shows "process_stream E EventCounter [event_response E u 0 0, event_response E v 1 1, caught_up_response]
    (checkpoint_default EventCounter) = (Inr (), \<lparr>pc_state = \<lparr>counted = 2\<rparr>, pc_last_global_position = 2\<rparr>)"
  by (simp add: event_response_def caught_up_response_def counter_consumes [OF assms])

lemma stream_tests_pass:
  assumes "texts_ok E"
  shows "catch_up_fresh_checkpoint_with_two_events E u v"
    and "second_catch_up_with_only_caught_up_leaves_count_unchanged E"
    and "recorded_event_with_empty_metadata_is_skipped E u v"
    and "apply_recorded_event_skips_already_processed_positions E u v w"
  using two_counted [OF assms, of u v]
  by (simp_all add: catch_up_fresh_checkpoint_with_two_events_def caught_up_response_def
      second_catch_up_with_only_caught_up_leaves_count_unchanged_def recorded_event_with_empty_metadata_is_skipped_def
      apply_recorded_event_skips_already_processed_positions_def counter_consumes [OF assms])

lemma stream_saved_test_passes:
  assumes "texts_ok E" and "fresh F dir"
  shows "checkpoint_save_load_roundtrip_via_process_stream E F dir u v"
proof -
  have "ext_ok E" "\<forall>op p. io_fails F op p = None" using assms by (simp_all add: texts_ok_def fresh_def)
  from counter_checkpoint_saved [OF this, of "path_join dir ''event-counter''"
      "\<lparr>pc_state = \<lparr>counted = 2\<rparr>, pc_last_global_position = 2\<rparr>"] two_counted [OF assms(1), of u v]
  show ?thesis by (auto simp: checkpoint_save_load_roundtrip_via_process_stream_def)
qed

subsection \<open>The runner behind its trait object\<close>

text \<open>The set-up of these tests: the directory is made, the runner opened; the client is never used.\<close>

definition opened_runner :: "ext \<Rightarrow> fs \<Rightarrow> path \<Rightarrow> (event_counter projection_runner \<times> fs) option" where
  "opened_runner E F dir =
     (case create_dir_all (path_join dir ''event-counter'') F of
        (Inl _, _) \<Rightarrow> None
      | (Inr _, F1) \<Rightarrow>
          (case projection_runner_new E EventCounter (path_join dir ''event-counter'') F1 of
             Inl _ \<Rightarrow> None
           | Inr runner \<Rightarrow> Some (runner, F1)))"

definition projection_catch_up_apply_event_decodes_and_advances_position ::
  "ext \<Rightarrow> fs \<Rightarrow> path \<Rightarrow> uuid \<Rightarrow> bool" where
  "projection_catch_up_apply_event_decodes_and_advances_position E F dir u \<longleftrightarrow>
     (case opened_runner E F dir of
        None \<Rightarrow> False
      | Some (runner, _) \<Rightarrow>
          (let runner1 = projection_apply_event E EventCounter (make_recorded_event E u 5 0) runner
           in projection_position runner1 = 6 \<and> counted (projection_state_any runner1) = 1))"

definition projection_catch_up_position_starts_at_zero :: "ext \<Rightarrow> fs \<Rightarrow> path \<Rightarrow> bool" where
  "projection_catch_up_position_starts_at_zero E F dir \<longleftrightarrow>
     (case opened_runner E F dir of None \<Rightarrow> False | Some (runner, _) \<Rightarrow> projection_position runner = 0)"

definition projection_catch_up_state_any_returns_cloned_state :: "ext \<Rightarrow> fs \<Rightarrow> path \<Rightarrow> uuid \<Rightarrow> uuid \<Rightarrow> bool" where
  "projection_catch_up_state_any_returns_cloned_state E F dir u v \<longleftrightarrow>
     (case opened_runner E F dir of
        None \<Rightarrow> False
      | Some (runner, _) \<Rightarrow>
          counted (projection_state_any
            (projection_apply_event E EventCounter (make_recorded_event E v 1 1)
              (projection_apply_event E EventCounter (make_recorded_event E u 0 0) runner))) = 2)"

definition projection_catch_up_save_persists_checkpoint :: "ext \<Rightarrow> fs \<Rightarrow> path \<Rightarrow> uuid \<Rightarrow> bool" where
  "projection_catch_up_save_persists_checkpoint E F dir u \<longleftrightarrow>
     (case opened_runner E F dir of
        None \<Rightarrow> False
      | Some (runner, F1) \<Rightarrow>
          (case projection_save E EventCounter
                  (projection_apply_event E EventCounter (make_recorded_event E u 0 0) runner) F1 of
             (Inl _, _) \<Rightarrow> False
           | (Inr _, F2) \<Rightarrow>
               (case load_checkpoint E EventCounter (path_join dir ''event-counter'') F2 of
                  Inr (Some loaded) \<Rightarrow> counted (pc_state loaded) = 1 \<and> pc_last_global_position loaded = 1
                | _ \<Rightarrow> False)))"

lemma ancestor_trans: "ancestor p q \<Longrightarrow> ancestor q r \<Longrightarrow> ancestor p r"
  by (auto simp: ancestor_def)

lemma ancestor_join: "path_of s = \<lparr>is_absolute = False, comps = [s]\<rparr> \<Longrightarrow> ancestor dir (path_join dir s)"
  by (simp add: path_join_simple ancestor_def)

lemma opened_runner_fresh:
  assumes "fresh F dir"
  shows "\<exists>F1. opened_runner E F dir = Some (\<lparr>checkpoint = checkpoint_default EventCounter,
      checkpoint_dir = path_join dir ''event-counter''\<rparr>, F1) \<and> (\<forall>op p. io_fails F1 op p = None)"
proof -
  let ?d = "path_join dir ''event-counter''"
  have io: "\<forall>op p. io_fails F op p = None" using assms by (simp add: fresh_def)
  then obtain F1 where c: "create_dir_all ?d F = (Inr (), F1)" "io_fails F1 = io_fails F" "files F1 = files F"
    by (auto simp: create_dir_all_def)
  have "ancestor dir ?d" by (rule ancestor_join) (simp add: path_of_def)
  with checkpoint_in [of ?d] assms have "files F1 (checkpoint_path ?d) = None"
    by (auto simp: fresh_def c dest: ancestor_trans)
  with c io have "load_checkpoint E EventCounter ?d F1 = Inr None" by (simp add: projection_file.load_missing)
  with c io show ?thesis by (simp add: opened_runner_def projection_runner_new_def)
qed

lemma runner_tests_pass:
  assumes "texts_ok E" and "fresh F dir"
  shows "projection_catch_up_apply_event_decodes_and_advances_position E F dir u"
    and "projection_catch_up_position_starts_at_zero E F dir"
    and "projection_catch_up_state_any_returns_cloned_state E F dir u v"
    and "projection_catch_up_save_persists_checkpoint E F dir u"
proof -
  obtain F1 where o: "opened_runner E F dir = Some (\<lparr>checkpoint = checkpoint_default EventCounter,
      checkpoint_dir = path_join dir ''event-counter''\<rparr>, F1)" and io: "\<forall>op p. io_fails F1 op p = None"
    using opened_runner_fresh [OF assms(2)] by blast
  note n = counter_consumes [OF assms(1)]
  show "projection_catch_up_apply_event_decodes_and_advances_position E F dir u"
    by (simp add: projection_catch_up_apply_event_decodes_and_advances_position_def o projection_apply_event_def n
        projection_position_def projection_state_any_def)
  show "projection_catch_up_position_starts_at_zero E F dir"
    by (simp add: projection_catch_up_position_starts_at_zero_def o projection_position_def)
  show "projection_catch_up_state_any_returns_cloned_state E F dir u v"
    by (simp add: projection_catch_up_state_any_returns_cloned_state_def o projection_apply_event_def n
        projection_state_any_def)
  have "ext_ok E" using assms(1) by (simp add: texts_ok_def)
  from counter_checkpoint_saved [OF this io, of "path_join dir ''event-counter''"
      "\<lparr>pc_state = \<lparr>counted = 1\<rparr>, pc_last_global_position = 1\<rparr>"]
  show "projection_catch_up_save_persists_checkpoint E F dir u"
    by (auto simp: projection_catch_up_save_persists_checkpoint_def o projection_apply_event_def n projection_save_def)
qed

end
