(* ===== verification/Unit_Tests_Process_Manager.thy ===== *)
theory Unit_Tests_Process_Manager
  imports Unit_Tests_Projection Process_Manager
begin

text \<open>
  The unit tests of \<^verbatim>\<open>src/process_manager.rs\<close> on the model, with the fixtures of
  \<^verbatim>\<open>Unit_Tests_Projection\<close>.
\<close>

subsection \<open>The trait and the checkpoint\<close>

definition process_manager_trait_has_no_subscriptions_method :: "uuid \<Rightarrow> uuid \<Rightarrow> bool" where
  "process_manager_trait_has_no_subscriptions_method event_id sid \<longleftrightarrow>
     (let stored = \<lparr>se_event_id = event_id, se_stream_id = sid, se_aggregate_type = ''counter'',
            se_instance_id = ''c-1'', se_stream_version = 0, se_global_position = 0,
            se_event_type = ''Incremented'', se_payload = JObject [], se_metadata = JObject [],
            se_recorded_at = 1700000000000\<rparr>;
          (saga, envelopes) = react EchoSaga (pm_default EchoSaga) stored
      in length envelopes = 1 \<and> env_aggregate_type (envelopes ! 0) = ''target'' \<and>
         env_instance_id (envelopes ! 0) = ''c-1'' \<and>
         value_get (env_command (envelopes ! 0)) ''source_event_type'' = Some (JString ''Incremented'') \<and>
         events_seen saga = 1)"

definition checkpoint_serialization_roundtrip :: "ext \<Rightarrow> bool" where
  "checkpoint_serialization_roundtrip E \<longleftrightarrow>
     (case Option.bind (ok (checkpoint_to_value (pm_to_value EchoSaga \<lparr>events_seen = 5\<rparr>) 42)) (reparsed E) of
        None \<Rightarrow> False
      | Some parsed \<Rightarrow>
          Option.bind (value_get parsed ''state'') (\<lambda>s. value_get s ''events_seen'') = Some (JNumber (PosInt 5)) \<and>
          value_get parsed ''last_global_position'' = Some (JNumber (PosInt 42)) \<and>
          field_from_value (pm_from_value EchoSaga) ''state'' parsed = Inr \<lparr>events_seen = 5\<rparr> \<and>
          field_from_value u64_from_value ''last_global_position'' parsed = Inr 42)"

definition pm_checkpoint_default_has_position_zero :: bool where
  "pm_checkpoint_default_has_position_zero \<longleftrightarrow>
     events_seen (pmc_state (pm_checkpoint_default EchoSaga)) = 0 \<and>
     pmc_last_global_position (pm_checkpoint_default EchoSaga) = 0"

lemma saga_default [simp]:
  "pm_checkpoint_default EchoSaga = \<lparr>pmc_state = \<lparr>events_seen = 0\<rparr>, pmc_last_global_position = 0\<rparr>"
  "pm_default EchoSaga = \<lparr>events_seen = 0\<rparr>"
  by (simp_all add: pm_checkpoint_default_def EchoSaga_def)

lemma pm_checkpoint_tests_pass:
  assumes "ext_ok E"
  shows "process_manager_trait_has_no_subscriptions_method u v" and "checkpoint_serialization_roundtrip E"
    and pm_checkpoint_default_has_position_zero
proof -
  let ?v = "json_object [(''state'', json_object [(''events_seen'', JNumber (PosInt 5))]),
        (''last_global_position'', JNumber (PosInt 42))]"
  show "process_manager_trait_has_no_subscriptions_method u v" pm_checkpoint_default_has_position_zero
    by (simp_all add: process_manager_trait_has_no_subscriptions_method_def EchoSaga_def echo_react_def json_object_def
        pm_checkpoint_default_has_position_zero_def pm_checkpoint_default_def Let_def)
  have "reparsed E ?v = Some ?v" by (rule reparsed_wf [OF assms]) (simp add: json_object_def byte_in_def)
  then have "Option.bind (ok (checkpoint_to_value (pm_to_value EchoSaga \<lparr>events_seen = 5\<rparr>) 42)) (reparsed E) = Some ?v"
    by (simp add: checkpoint_to_value_def EchoSaga_def)
  then show "checkpoint_serialization_roundtrip E"
    by (simp add: checkpoint_serialization_roundtrip_def json_object_def field_from_value_def EchoSaga_def)
qed

subsection \<open>The file\<close>

definition pm_save_then_load_roundtrips :: "ext \<Rightarrow> fs \<Rightarrow> path \<Rightarrow> bool" where
  "pm_save_then_load_roundtrips E F dir \<longleftrightarrow>
     (let ck = \<lparr>pmc_state = \<lparr>events_seen = 7\<rparr>, pmc_last_global_position = 99\<rparr>
      in case save_pm_checkpoint E EchoSaga dir ck F of
           (Inl _, _) \<Rightarrow> False
         | (Inr _, F1) \<Rightarrow> load_pm_checkpoint E EchoSaga dir F1 = Inr (Some ck))"

definition pm_load_from_empty_dir_returns_none :: "ext \<Rightarrow> fs \<Rightarrow> path \<Rightarrow> bool" where
  "pm_load_from_empty_dir_returns_none E F dir \<longleftrightarrow> load_pm_checkpoint E EchoSaga dir F = Inr None"

definition pm_corrupt_file_returns_none :: "ext \<Rightarrow> fs \<Rightarrow> path \<Rightarrow> bool" where
  "pm_corrupt_file_returns_none E F dir \<longleftrightarrow>
     (case fs_write (path_join dir ''checkpoint.json'') invalid_text F of
        (Inl _, _) \<Rightarrow> False
      | (Inr _, F1) \<Rightarrow> load_pm_checkpoint E EchoSaga dir F1 = Inr None)"

lemma saga_good: "ext_ok E \<Longrightarrow> pm_good E EchoSaga ck"
  by (cases "pmc_state ck") (simp add: pm_good_def EchoSaga_def json_object_def byte_in_def field_from_value_def)

lemma pm_file_tests_pass:
  assumes "texts_ok E" and "fresh F dir"
  shows "pm_save_then_load_roundtrips E F dir" and "pm_load_from_empty_dir_returns_none E F dir"
    and "pm_corrupt_file_returns_none E F dir"
proof -
  have E: "ext_ok E" and io: "\<forall>op p. io_fails F op p = None" and d: "dir_exists F dir"
    using assms by (simp_all add: texts_ok_def fresh_def)
  let ?ck = "\<lparr>pmc_state = \<lparr>events_seen = 7\<rparr>, pmc_last_global_position = 99\<rparr>"
  have "json_wf (json_object [(''events_seen'', JNumber (PosInt 7))])" by (simp add: json_object_def byte_in_def)
  from pretty_bytes_good [OF E refl this] obtain bs where "pm_checkpoint_bytes E EchoSaga ?ck = Inr bs"
    by (auto simp: pm_checkpoint_bytes_def EchoSaga_def)
  then have "fst (save_pm_checkpoint E EchoSaga dir ?ck F) = Inr ()"
    using write_and_rename_succeeds [OF _ checkpoint_tmp_parent] io by (simp add: save_pm_checkpoint_def)
  then obtain F' where s: "save_pm_checkpoint E EchoSaga dir ?ck F = (Inr (), F')" by (metis prod.collapse)
  from pm_file.save_load [OF s saga_good [OF E]] s io show "pm_save_then_load_roundtrips E F dir"
    by (simp add: pm_save_then_load_roundtrips_def)
  show "pm_load_from_empty_dir_returns_none E F dir"
    using assms(2) checkpoint_in [of dir] io
    by (simp add: pm_load_from_empty_dir_returns_none_def fresh_def pm_file.load_missing)
  obtain e where "json_from_str E invalid_text = Inl e" using assms(1) by (auto simp: texts_ok_def)
  with d io checkpoint_parent [of dir] show "pm_corrupt_file_returns_none E F dir"
    by (simp add: pm_corrupt_file_returns_none_def fs_write_def parent_exists_def checkpoint_path_def [symmetric]
        load_pm_checkpoint_def read_checkpoint_def fs_read_to_string_def fs_read_def)
qed

subsection \<open>The stream\<close>

definition catch_up_with_one_valid_event_returns_one_envelope :: "ext \<Rightarrow> uuid \<Rightarrow> bool" where
  "catch_up_with_one_valid_event_returns_one_envelope E u \<longleftrightarrow>
     (case pm_process_stream E EchoSaga [event_response E u 0 0, caught_up_response] []
             (pm_checkpoint_default EchoSaga) of
        (Inl _, _) \<Rightarrow> False
      | (Inr envelopes, ck) \<Rightarrow>
          length envelopes = 1 \<and> env_aggregate_type (envelopes ! 0) = ''target'' \<and>
          env_instance_id (envelopes ! 0) = ''c-1'' \<and> events_seen (pmc_state ck) = 1 \<and>
          pmc_last_global_position ck = 1)"

definition second_catch_up_with_saved_checkpoint_returns_empty :: "ext \<Rightarrow> uuid \<Rightarrow> bool" where
  "second_catch_up_with_saved_checkpoint_returns_empty E u \<longleftrightarrow>
     (case pm_process_stream E EchoSaga [event_response E u 0 0, caught_up_response] []
             (pm_checkpoint_default EchoSaga) of
        (Inl _, _) \<Rightarrow> False
      | (Inr envelopes, ck) \<Rightarrow>
          length envelopes = 1 \<and>
          (case pm_process_stream E EchoSaga [caught_up_response] [] ck of
             (Inl _, _) \<Rightarrow> False
           | (Inr envelopes2, ck2) \<Rightarrow>
               envelopes2 = [] \<and> events_seen (pmc_state ck2) = 1 \<and> pmc_last_global_position ck2 = 1))"

definition non_es_events_skipped_returns_empty :: "ext \<Rightarrow> uuid \<Rightarrow> uuid \<Rightarrow> bool" where
  "non_es_events_skipped_returns_empty E u v \<longleftrightarrow>
     (case pm_process_stream E EchoSaga
             [Inr \<lparr>content = Some (Event (foreign_event E u v 5))\<rparr>, caught_up_response] []
             (pm_checkpoint_default EchoSaga) of
        (Inl _, _) \<Rightarrow> False
      | (Inr envelopes, ck) \<Rightarrow>
          envelopes = [] \<and> events_seen (pmc_state ck) = 0 \<and> pmc_last_global_position ck = 6)"

definition react_recorded_event_skips_already_processed_positions :: "ext \<Rightarrow> uuid \<Rightarrow> uuid \<Rightarrow> uuid \<Rightarrow> bool" where
  "react_recorded_event_skips_already_processed_positions E u v w \<longleftrightarrow>
     (let c0 = (pm_default EchoSaga, 5);
          (c1, envelopes1) = react_recorded_event E EchoSaga (make_recorded_event E u 3 3) c0;
          (c2, envelopes2) = react_recorded_event E EchoSaga (make_recorded_event E v 5 5) c1;
          (c3, envelopes3) = react_recorded_event E EchoSaga (make_recorded_event E w 10 10) c2
      in envelopes1 = [] \<and> events_seen (fst c1) = 0 \<and> snd c1 = 5 \<and>
         length envelopes2 = 1 \<and> events_seen (fst c2) = 1 \<and> snd c2 = 6 \<and>
         length envelopes3 = 1 \<and> events_seen (fst c3) = 2 \<and> snd c3 = 11)"

text \<open>What the saga sends for an event of the fixtures when it has seen \<open>n\<close>.\<close>

definition echo_envelope :: "u64 \<Rightarrow> command_envelope" where
  "echo_envelope n =
     \<lparr>env_aggregate_type = ''target'', env_instance_id = ''c-1'',
      env_command = json_object [(''source_event_type'', JString ''Incremented'')],
      env_context = with_correlation_id (''echo-'' @ decimal (unat n)) command_context_default\<rparr>"

lemma echo_envelope_simps [simp]:
  "env_aggregate_type (echo_envelope n) = ''target''" "env_instance_id (echo_envelope n) = ''c-1''"
  by (simp_all add: echo_envelope_def)

lemma saga_consumes:
  assumes "texts_ok E"
  shows "react_recorded_event E EchoSaga (make_recorded_event E u gp v) (x, pos) =
      (if gp < pos then ((x, pos), [])
       else ((x\<lparr>events_seen := events_seen x + 1\<rparr>, gp + 1), [echo_envelope (events_seen x + 1)]))"
proof -
  obtain s where "decode_stored_event E (make_recorded_event E u gp v) = Some s"
    "se_aggregate_type s = ''counter''" "se_instance_id s = ''c-1''" "se_event_type s = ''Incremented''"
    using decode_make_recorded_event [OF assms] by blast
  then show ?thesis
    by (simp add: react_recorded_event_def EchoSaga_def echo_react_def Let_def echo_envelope_def)
qed

lemma saga_skips:
  assumes "texts_ok E"
  shows "react_recorded_event E EchoSaga (foreign_event E u w gp) (x, pos) =
      (if gp < pos then ((x, pos), []) else ((x, gp + 1), []))"
  using decode_foreign_event [OF assms, of u w gp] by (simp add: react_recorded_event_def)

lemma pm_stream_tests_pass:
  assumes "texts_ok E"
  shows "catch_up_with_one_valid_event_returns_one_envelope E u"
    and "second_catch_up_with_saved_checkpoint_returns_empty E u"
    and "non_es_events_skipped_returns_empty E u v"
    and "react_recorded_event_skips_already_processed_positions E u v w"
proof -
  note n = saga_consumes [OF assms] and s = saga_skips [OF assms]
  show "catch_up_with_one_valid_event_returns_one_envelope E u" "second_catch_up_with_saved_checkpoint_returns_empty E u"
    by (simp_all add: catch_up_with_one_valid_event_returns_one_envelope_def event_response_def caught_up_response_def
        second_catch_up_with_saved_checkpoint_returns_empty_def n)
  show "non_es_events_skipped_returns_empty E u v"
    by (simp add: non_es_events_skipped_returns_empty_def caught_up_response_def s)
  show "react_recorded_event_skips_already_processed_positions E u v w"
    by (simp add: react_recorded_event_skips_already_processed_positions_def n)
qed

subsection \<open>The runner behind its trait object\<close>

definition opened_pm_runner :: "ext \<Rightarrow> fs \<Rightarrow> path \<Rightarrow> echo_saga pm_runner option" where
  "opened_pm_runner E F dir =
     (case create_dir_all (path_join dir ''echo-saga'') F of
        (Inl _, _) \<Rightarrow> None
      | (Inr _, F1) \<Rightarrow> ok (pm_runner_new E EchoSaga (path_join dir ''echo-saga'') F1))"

definition pm_catch_up_react_event_decodes_and_advances_position :: "ext \<Rightarrow> fs \<Rightarrow> path \<Rightarrow> uuid \<Rightarrow> bool" where
  "pm_catch_up_react_event_decodes_and_advances_position E F dir u \<longleftrightarrow>
     (case opened_pm_runner E F dir of
        None \<Rightarrow> False
      | Some runner \<Rightarrow>
          (let (runner1, envelopes) = pm_react_event E EchoSaga (make_recorded_event E u 5 0) runner
           in length envelopes = 1 \<and> env_aggregate_type (envelopes ! 0) = ''target'' \<and> pm_position runner1 = 6))"

definition pm_catch_up_position_starts_at_zero :: "ext \<Rightarrow> fs \<Rightarrow> path \<Rightarrow> bool" where
  "pm_catch_up_position_starts_at_zero E F dir \<longleftrightarrow>
     (case opened_pm_runner E F dir of None \<Rightarrow> False | Some runner \<Rightarrow> pm_position runner = 0)"

definition pm_catch_up_react_event_skips_non_es_events :: "ext \<Rightarrow> fs \<Rightarrow> path \<Rightarrow> uuid \<Rightarrow> uuid \<Rightarrow> bool" where
  "pm_catch_up_react_event_skips_non_es_events E F dir u v \<longleftrightarrow>
     (case opened_pm_runner E F dir of
        None \<Rightarrow> False
      | Some runner \<Rightarrow>
          (let (runner1, envelopes) = pm_react_event E EchoSaga (foreign_event E u v 3) runner
           in envelopes = [] \<and> pm_position runner1 = 4))"

lemma opened_pm_runner_fresh:
  assumes "fresh F dir"
  shows "opened_pm_runner E F dir = Some \<lparr>pm_checkpoint = pm_checkpoint_default EchoSaga,
      pm_checkpoint_dir = path_join dir ''echo-saga''\<rparr>"
proof -
  let ?d = "path_join dir ''echo-saga''"
  have io: "\<forall>op p. io_fails F op p = None" using assms by (simp add: fresh_def)
  then obtain F1 where c: "create_dir_all ?d F = (Inr (), F1)" "io_fails F1 = io_fails F" "files F1 = files F"
    by (auto simp: create_dir_all_def)
  have "ancestor dir ?d" by (rule ancestor_join) (simp add: path_of_def)
  with checkpoint_in [of ?d] assms have "files F1 (checkpoint_path ?d) = None"
    by (auto simp: fresh_def c dest: ancestor_trans)
  with c io have "load_pm_checkpoint E EchoSaga ?d F1 = Inr None" by (simp add: pm_file.load_missing)
  with c show ?thesis by (simp add: opened_pm_runner_def pm_runner_new_def)
qed

lemma pm_runner_tests_pass:
  assumes "texts_ok E" and "fresh F dir"
  shows "pm_catch_up_react_event_decodes_and_advances_position E F dir u"
    and "pm_catch_up_position_starts_at_zero E F dir"
    and "pm_catch_up_react_event_skips_non_es_events E F dir u v"
proof -
  note o = opened_pm_runner_fresh [OF assms(2), of E]
  show "pm_catch_up_react_event_decodes_and_advances_position E F dir u"
    by (simp add: pm_catch_up_react_event_decodes_and_advances_position_def o pm_react_event_def pm_position_def
        saga_consumes [OF assms(1)])
  show "pm_catch_up_position_starts_at_zero E F dir"
    by (simp add: pm_catch_up_position_starts_at_zero_def o pm_position_def)
  show "pm_catch_up_react_event_skips_non_es_events E F dir u v"
    by (simp add: pm_catch_up_react_event_skips_non_es_events_def o pm_react_event_def pm_position_def
        saga_skips [OF assms(1)])
qed

subsection \<open>Dead letters\<close>

text \<open>The derived reader of an entry, and \<open>str::trim\<close> on ASCII white space.\<close>

definition dead_letter_from_value :: "json \<Rightarrow> dead_letter_entry option" where
  "dead_letter_from_value v =
     (case as_object v of
        None \<Rightarrow> None
      | Some m \<Rightarrow>
          (case (Option.bind (map_of m ''envelope'') envelope_from_value, map_of m ''error'', map_of m ''ts'') of
             (Some envelope, Some (JString err), Some (JNumber (PosInt ts))) \<Rightarrow>
               Some \<lparr>dl_envelope = envelope, dl_error = err, dl_ts = ts\<rparr>
           | _ \<Rightarrow> None))"

definition white :: "char \<Rightarrow> bool" where
  "white c \<longleftrightarrow> byte_in 9 13 c \<or> c = CHR '' ''"

definition trim :: "string \<Rightarrow> string" where
  "trim s = rev (dropWhile white (rev (dropWhile white s)))"

text \<open>\<open>to_string\<close> puts no white space around a value.\<close>

definition prints_trimmed :: "ext \<Rightarrow> bool" where
  "prints_trimmed E \<longleftrightarrow> (\<forall>v bs. json_to_vec E v = Inr bs \<longrightarrow> trim bs = bs)"

definition dead_letter_append_creates_readable_jsonl :: "ext \<Rightarrow> u64 \<Rightarrow> fs \<Rightarrow> path \<Rightarrow> bool" where
  "dead_letter_append_creates_readable_jsonl E now F dir \<longleftrightarrow>
     (let path = path_join dir ''dead_letters.jsonl'';
          envelope = \<lparr>env_aggregate_type = ''target'', env_instance_id = ''t-1'',
            env_command = json_object [(''action'', JString ''test'')],
            env_context = command_context_default\<rparr>
      in case append_dead_letter E (Some now) path envelope ''test error'' F of
           (Inl _, _) \<Rightarrow> False
         | (Inr _, F1) \<Rightarrow>
             (case fs_read_to_string path F1 of
                Inl _ \<Rightarrow> False
              | Inr contents \<Rightarrow>
                  (case Option.bind (ok (json_from_str E (trim contents))) dead_letter_from_value of
                     None \<Rightarrow> False
                   | Some entry \<Rightarrow>
                       dl_error entry = ''test error'' \<and> env_aggregate_type (dl_envelope entry) = ''target'')))"

lemma trim_newline: "trim bs = bs \<Longrightarrow> trim (bs @ [char_of (10 :: nat)]) = bs"
proof -
  assume t: "trim bs = bs"
  have w: "white (char_of (10 :: nat))" by (simp add: white_def byte_in_def)
  show ?thesis
  proof (cases "\<forall>c \<in> set bs. white c")
    case True
    then have "bs = []" using t by (cases bs) (auto simp: trim_def dropWhile_eq_Nil_conv [THEN iffD2])
    with w show ?thesis by (simp add: trim_def)
  next
    case False
    then have "dropWhile white (bs @ [char_of (10 :: nat)]) = dropWhile white bs @ [char_of (10 :: nat)]"
      by (auto intro: dropWhile_append1)
    with w t show ?thesis by (simp add: trim_def)
  qed
qed

lemma utf8_append: "utf8_valid s \<Longrightarrow> utf8_valid t \<Longrightarrow> utf8_valid (s @ t)"
proof (induction s rule: utf8_valid.induct)
  case (2 a bs)
  consider "byte_in 0 127 a" | "\<not> byte_in 0 127 a" "byte_in 194 223 a"
    | "\<not> byte_in 0 127 a" "\<not> byte_in 194 223 a" "byte_in 224 239 a"
    | "\<not> byte_in 0 127 a" "\<not> byte_in 194 223 a" "\<not> byte_in 224 239 a" by blast
  then show ?case
  proof cases
    case 1
    with 2 show ?thesis by simp
  next
    case c: 2
    with 2 show ?thesis by (cases bs) simp_all
  next
    case 3
    show ?thesis
    proof (cases "\<exists>b c r. bs = b # c # r")
      case True
      then obtain b c r where "bs = b # c # r" by blast
      with 2 3 show ?thesis by simp
    next
      case False
      with 2 3 show ?thesis by (cases bs; cases "tl bs") auto
    qed
  next
    case 4
    show ?thesis
    proof (cases "\<exists>b c d r. bs = b # c # d # r")
      case True
      then obtain b c d r where "bs = b # c # d # r" by blast
      with 2 4 show ?thesis by (cases "byte_in 240 244 a") simp_all
    next
      case False
      then have "bs = [] \<or> (\<exists>b. bs = [b]) \<or> (\<exists>b c. bs = [b, c])" by (metis list.exhaust)
      then have "\<not> utf8_valid (a # bs)" using 4 by auto
      with "2.prems"(1) show ?thesis by simp
    qed
  qed
qed simp

text \<open>A first entry is one line that reads back.\<close>

lemma append_dead_letter_read:
  assumes "ext_ok E" and "prints_trimmed E" and "\<forall>op q. io_fails F op q = None" and "files F p = None"
    and "path_parent p = Some d" and "json_wf (envelope_to_value envelope)" and "utf8_valid err"
    and "envelope_from_value (envelope_to_value envelope) = Some envelope"
  shows "\<exists>F' contents v. append_dead_letter E (Some now) p envelope err F = (Inr (), F') \<and>
    fs_read_to_string p F' = Inr contents \<and> json_from_str E (trim contents) = Inr v \<and>
    dead_letter_from_value v = Some \<lparr>dl_envelope = envelope, dl_error = err, dl_ts = now\<rparr>"
proof -
  let ?v = "dead_letter_to_value \<lparr>dl_envelope = envelope, dl_error = err, dl_ts = now\<rparr>"
  have io: "io_fails F op q = None" for op q using assms(3) by simp
  have "json_wf ?v" unfolding dead_letter_to_value_def
    by (rule json_wf_object) (use assms(6,7) in \<open>auto simp: byte_in_def\<close>)
  with assms(1) obtain bs where bs: "json_to_vec E ?v = Inr bs" "utf8_valid bs" "json_from_str E bs = Inr ?v"
    by (rule ext_ok_json)
  obtain F1 where c: "create_dir_all d F = (Inr (), F1)" "io_fails F1 = io_fails F" "files F1 = files F"
    using io by (auto simp: create_dir_all_def)
  with dir_created [of d F] assms(5) have "parent_exists F1 p" by (simp add: parent_exists_def)
  then have a: "append_dead_letter E (Some now) p envelope err F =
      (Inr (), F1\<lparr>files := (files F1)(p \<mapsto> bs @ [char_of (10 :: nat)])\<rparr>)"
    using bs(1) assms(4,5) c io by (simp add: append_dead_letter_def fs_append_line_def Let_def)
  have "utf8_valid (bs @ [char_of (10 :: nat)])" using bs(2) by (rule utf8_append) (simp add: byte_in_def)
  moreover have "trim (bs @ [char_of (10 :: nat)]) = bs"
    using assms(2) bs(1) by (intro trim_newline) (simp add: prints_trimmed_def)
  ultimately have r: "fs_read_to_string p (F1\<lparr>files := (files F1)(p \<mapsto> bs @ [char_of (10 :: nat)])\<rparr>) =
      Inr (bs @ [char_of (10 :: nat)])" "json_from_str E (trim (bs @ [char_of (10 :: nat)])) = Inr ?v"
    using c io bs(3) by (simp_all add: fs_read_to_string_def fs_read_def from_utf8_def)
  have "dead_letter_from_value ?v = Some \<lparr>dl_envelope = envelope, dl_error = err, dl_ts = now\<rparr>"
    using assms(8) by (simp add: dead_letter_to_value_def dead_letter_from_value_def json_object_def)
  with a r show ?thesis by blast
qed

lemma dead_letter_test_passes:
  assumes "texts_ok E" and "prints_trimmed E" and "fresh F dir"
  shows "dead_letter_append_creates_readable_jsonl E now F dir"
proof -
  let ?env = "\<lparr>env_aggregate_type = ''target'', env_instance_id = ''t-1'',
      env_command = json_object [(''action'', JString ''test'')], env_context = command_context_default\<rparr>"
  let ?p = "path_join dir ''dead_letters.jsonl''"
  have E: "ext_ok E" "\<forall>op q. io_fails F op q = None" using assms(1,3) by (simp_all add: texts_ok_def fresh_def)
  have p: "path_parent ?p = Some dir" "ancestor dir ?p"
    by (simp_all add: path_join_simple path_parent_def ancestor_def)
  then have "files F ?p = None" using assms(3) by (simp add: fresh_def)
  moreover have "json_wf (envelope_to_value ?env)" "envelope_from_value (envelope_to_value ?env) = Some ?env"
    by (simp_all add: envelope_to_value_def context_to_value_def command_context_default_def opt_to_value_def
        json_object_def byte_in_def envelope_from_value_def context_from_value_def opt_from_value_def
        opt_json_from_value_def)
  moreover have "utf8_valid ''test error''" by (simp add: byte_in_def)
  ultimately obtain F' contents v where "append_dead_letter E (Some now) ?p ?env ''test error'' F = (Inr (), F')"
    "fs_read_to_string ?p F' = Inr contents" "json_from_str E (trim contents) = Inr v"
    "dead_letter_from_value v = Some \<lparr>dl_envelope = ?env, dl_error = ''test error'', dl_ts = now\<rparr>"
    using append_dead_letter_read [OF E(1) assms(2) E(2) _ p(1)] by blast
  then show ?thesis by (simp add: dead_letter_append_creates_readable_jsonl_def)
qed

text \<open>The reference printer has no white space in it.\<close>

lemma no_white_bits: "c \<in> set (word_text w) \<Longrightarrow> \<not> white c" "c \<in> set (char_text d) \<Longrightarrow> \<not> white c"
  by (auto simp: word_text_def char_text_def bits_of_def white_def byte_in_def split: if_splits)

lemma no_white_str: "c \<in> set (enc_str s) \<Longrightarrow> \<not> white c"
  by (induction s) (auto simp: white_def byte_in_def dest: no_white_bits(2) [unfolded white_def byte_in_def])

lemma no_white_enc:
  "c \<in> set (enc v) \<Longrightarrow> \<not> white c" "c \<in> set (encs vs) \<Longrightarrow> \<not> white c" "c \<in> set (encm m) \<Longrightarrow> \<not> white c"
  by (induction v and vs and m rule: enc_encs_encm.induct)
    (auto dest: no_white_bits no_white_str simp: white_def byte_in_def split: if_splits)

lemma dropWhile_none: "\<forall>c \<in> set s. \<not> P c \<Longrightarrow> dropWhile P s = s"
  by (cases s) auto

lemma test_env_trimmed: "prints_trimmed test_env"
  using no_white_enc(1) by (auto simp: prints_trimmed_def test_env_def env_def trim_def dropWhile_none)

lemma dead_letter_test_passes_on_an_empty_disk:
  "dead_letter_append_creates_readable_jsonl test_env 7 (temp_disk (path_of ''/tmp/x'')) (path_of ''/tmp/x'')"
  by (rule dead_letter_test_passes [OF test_env_ok test_env_trimmed temp_disk_fresh])

end
