(* ===== verification/Unit_Tests_Live.thy ===== *)
theory Unit_Tests_Live
  imports Unit_Tests_Process_Manager Live_Correct
begin

text \<open>
  The unit tests of \<^verbatim>\<open>src/live.rs\<close> on the model, with the fixtures of the tests before. The
  client of these stores is never used, so the transport, the server and the types of the
  configuration are arbitrary.
\<close>

subsection \<open>The handle\<close>

text \<open>Configuration and handle as the tests build them: no task, \<open>receivers\<close> kept beside the handle.\<close>

definition live_config_default_values :: bool where
  "live_config_default_values \<longleftrightarrow>
     checkpoint_interval live_config_default = 5 * 1000 \<and>
     reconnect_base_delay live_config_default = 1 * 1000 \<and>
     reconnect_max_delay live_config_default = 30 * 1000"

definition test_handle :: "nat \<Rightarrow> ('w, 'a, 'p, 'q) app \<Rightarrow> ('w, 'a, 'p, 'q) live" where
  "test_handle n ap =
     \<lparr>live_app = ap, phase = Connecting, backoff_delay = 0, caught_up = False, position = 0,
      receivers = n, shutdown_seen = False\<rparr>"

definition is_caught_up_returns_false_initially :: "('w, 'a, 'p, 'q) app \<Rightarrow> bool" where
  "is_caught_up_returns_false_initially ap \<longleftrightarrow> \<not> is_caught_up (test_handle 0 ap)"

definition is_caught_up_returns_true_after_flag_set :: "('w, 'a, 'p, 'q) app \<Rightarrow> bool" where
  "is_caught_up_returns_true_after_flag_set ap \<longleftrightarrow> is_caught_up ((test_handle 0 ap)\<lparr>caught_up := True\<rparr>)"

definition shutdown_with_no_task_returns_ok :: "('w, 'a, 'p, 'q) app \<Rightarrow> bool" where
  "shutdown_with_no_task_returns_ok ap \<longleftrightarrow> fst (live_shutdown True (test_handle 0 ap)) = Some (Inr ())"

definition subscribe_returns_receiver_with_initial_value_zero :: "('w, 'a, 'p, 'q) app \<Rightarrow> bool" where
  "subscribe_returns_receiver_with_initial_value_zero ap \<longleftrightarrow> fst (live_subscribe (test_handle 1 ap)) = 0"

text \<open>\<open>position_tx.send\<close>; what a receiver borrows is the current position.\<close>

definition position_send :: "watch_send \<Rightarrow> u64 \<Rightarrow> ('w, 'a, 'p, 'q) live \<Rightarrow> ('w, 'a, 'p, 'q) live" where
  "position_send send v lv = lv\<lparr>position := send (receivers lv) (position lv) v\<rparr>"

definition subscribe_multiple_times_returns_independent_receivers :: "watch_send \<Rightarrow> ('w, 'a, 'p, 'q) app \<Rightarrow> bool" where
  "subscribe_multiple_times_returns_independent_receivers send ap \<longleftrightarrow>
     (let (first, lv1) = live_subscribe (test_handle 1 ap);
          (second, lv2) = live_subscribe lv1
      in first = 0 \<and> second = 0 \<and> position (position_send send 42 lv2) = 42)"

definition subscribe_on_cloned_handle_shares_same_channel :: "watch_send \<Rightarrow> ('w, 'a, 'p, 'q) app \<Rightarrow> bool" where
  "subscribe_on_cloned_handle_shares_same_channel send ap \<longleftrightarrow>
     (let (value, lv) = live_subscribe (test_handle 1 ap)
      in value = 0 \<and> position (position_send send 99 lv) = 99)"

definition shutdown_twice_returns_ok :: "('w, 'a, 'p, 'q) app \<Rightarrow> bool" where
  "shutdown_twice_returns_ok ap \<longleftrightarrow>
     (let lv = (test_handle 0 ap)\<lparr>phase := Returned (Inr ())\<rparr>;
          (first, taken) = live_shutdown False lv
      in first = Some (Inr ()) \<and> fst (live_shutdown taken lv) = Some (Inr ()))"

lemma handle_tests_pass:
  live_config_default_values "is_caught_up_returns_false_initially ap" "is_caught_up_returns_true_after_flag_set ap"
  "shutdown_with_no_task_returns_ok ap" "subscribe_returns_receiver_with_initial_value_zero ap"
  "shutdown_twice_returns_ok ap"
  by (simp_all add: live_config_default_values_def live_config_default_def is_caught_up_returns_false_initially_def
      is_caught_up_returns_true_after_flag_set_def shutdown_with_no_task_returns_ok_def is_caught_up_def
      subscribe_returns_receiver_with_initial_value_zero_def shutdown_twice_returns_ok_def test_handle_def
      live_shutdown_def join_task_def)

text \<open>With a receiver, \<open>send\<close> stores the new value.\<close>

definition watch_delivers :: "watch_send \<Rightarrow> bool" where
  "watch_delivers send \<longleftrightarrow> (\<forall>n old new. 0 < n \<longrightarrow> send n old new = new)"

lemma channel_tests_pass:
  assumes "watch_delivers send"
  shows "subscribe_multiple_times_returns_independent_receivers send ap"
    and "subscribe_on_cloned_handle_shares_same_channel send ap"
  using assms
  by (simp_all add: subscribe_multiple_times_returns_independent_receivers_def position_send_def test_handle_def
      subscribe_on_cloned_handle_shares_same_channel_def watch_delivers_def)

subsection \<open>The stores of the tests\<close>

definition mock_config :: "ext \<Rightarrow> path \<Rightarrow> ('w, 'a, 'c, 'e, 'err) config \<Rightarrow> ('w, 'a, 'c, 'e, 'err) config" where
  "mock_config E base N = N\<lparr>cfg_ext := E, client := Plain, cfg_base_dir := base, dispatchers := Map.empty\<rparr>"

definition mock_store_with_projection ::
  "ext \<Rightarrow> path \<Rightarrow> 'w \<Rightarrow> fs \<Rightarrow> u64 \<Rightarrow> ('w, 'a, event_counter, echo_saga) app option" where
  "mock_store_with_projection E base w F now =
     (case projection_runner_new E EventCounter
             (path_join (path_join base ''projections'') ''event-counter'') F of
        Inl _ \<Rightarrow> None
      | Inr runner \<Rightarrow>
          Some \<lparr>world = w, app_fs = F, cache = Map.empty,
            projections = [(''event-counter'',
              \<lparr>rp_type = 0, rp_projection = EventCounter, rp_runner = runner\<rparr>)],
            process_managers = [], timeouts = [], clock = Some now\<rparr>)"

definition mock_store_with_projection_and_pm ::
  "ext \<Rightarrow> path \<Rightarrow> 'w \<Rightarrow> fs \<Rightarrow> u64 \<Rightarrow> ('w, 'a, event_counter, echo_saga) app option" where
  "mock_store_with_projection_and_pm E base w F now =
     (case projection_runner_new E EventCounter
             (path_join (path_join base ''projections'') ''event-counter'') F of
        Inl _ \<Rightarrow> None
      | Inr proj_runner \<Rightarrow>
          (case pm_runner_new E EchoSaga (path_join (path_join base ''process_managers'') ''echo-saga'') F of
             Inl _ \<Rightarrow> None
           | Inr pm_runner \<Rightarrow>
               Some \<lparr>world = w, app_fs = F, cache = Map.empty,
                 projections = [(''event-counter'',
                   \<lparr>rp_type = 0, rp_projection = EventCounter, rp_runner = proj_runner\<rparr>)],
                 process_managers = [\<lparr>rpm_manager = EchoSaga, rpm_runner = pm_runner\<rparr>],
                 timeouts = [], clock = Some now\<rparr>))"

text \<open>
  A whole call of \<open>process_stream_with_dispatch\<close>, in at most \<open>n\<close> of its steps: it returns when the
  stream is at its end, or at an error.
\<close>

fun process_stream_with_dispatch ::
  "nat \<Rightarrow> ('w, 'a, 'c, 'e, 'err) config \<Rightarrow> watch_send \<Rightarrow> ('w, 'a, 'p, 'q) live \<Rightarrow> ('w, 'a, 'p, 'q) live" where
  "process_stream_with_dispatch 0 N send lv = lv"
| "process_stream_with_dispatch (Suc n) N send lv =
     (case phase lv of
        Streaming [] AtNext \<Rightarrow> lv
      | Streaming (Inl e # items) AtNext \<Rightarrow> lv
      | Streaming items pt \<Rightarrow>
          process_stream_with_dispatch n N send (stream_step N live_config_default send items pt lv)
      | _ \<Rightarrow> lv)"

definition returned_ended :: "('w, 'a, 'p, 'q) live \<Rightarrow> bool" where
  "returned_ended lv \<longleftrightarrow> phase lv = Streaming [] AtNext"

fun at_error :: "live_phase \<Rightarrow> bool" where
  "at_error (Streaming (Inl e # items) AtNext) = True"
| "at_error _ = False"

definition processed ::
  "('w, 'a, 'c, 'e, 'err) config \<Rightarrow> watch_send \<Rightarrow> nat \<Rightarrow> sub_stream \<Rightarrow> ('w, 'a, 'p, 'q) app \<Rightarrow> ('w, 'a, 'p, 'q) live" where
  "processed N send rxs items ap =
     process_stream_with_dispatch 20 N send ((test_handle rxs ap)\<lparr>phase := Streaming items AtNext\<rparr>)"

definition counter_state :: "('w, 'a, event_counter, 'q) app \<Rightarrow> event_counter option" where
  "counter_state ap =
     map_option (\<lambda>rp. projection_state_any (rp_runner rp)) (map_of (projections ap) ''event-counter'')"

subsection \<open>Streams\<close>

definition live_loop_processes_events_and_fans_out_to_projections ::
  "ext \<Rightarrow> ('w, 'a, 'c, 'e, 'err) config \<Rightarrow> watch_send \<Rightarrow> path \<Rightarrow> 'w \<Rightarrow> fs \<Rightarrow> u64 \<Rightarrow> uuid \<Rightarrow> uuid \<Rightarrow> bool" where
  "live_loop_processes_events_and_fans_out_to_projections E N send base w F now u v \<longleftrightarrow>
     (case mock_store_with_projection E base w F now of
        None \<Rightarrow> False
      | Some ap \<Rightarrow>
          (let lv = processed (mock_config E base N) send 0
                 [event_response E u 0 0, event_response E v 1 1, caught_up_response] ap
           in returned_ended lv \<and> caught_up lv \<and>
              (case counter_state (live_app lv) of None \<Rightarrow> False | Some s \<Rightarrow> counted s = 2)))"

text \<open>Where the test looks for the error in the printed entry, the entry is read back.\<close>

definition live_loop_dispatches_pm_envelopes_dead_letters_unknown_type ::
  "ext \<Rightarrow> ('w, 'a, 'c, 'e, 'err) config \<Rightarrow> watch_send \<Rightarrow> path \<Rightarrow> 'w \<Rightarrow> fs \<Rightarrow> u64 \<Rightarrow> uuid \<Rightarrow> bool" where
  "live_loop_dispatches_pm_envelopes_dead_letters_unknown_type E N send base w F now u \<longleftrightarrow>
     (case mock_store_with_projection_and_pm E base w F now of
        None \<Rightarrow> False
      | Some ap \<Rightarrow>
          (let lv = processed (mock_config E base N) send 0 [event_response E u 0 0, caught_up_response] ap;
               path = path_join (path_join (path_join base ''process_managers'') ''echo-saga'') ''dead_letters.jsonl''
           in returned_ended lv \<and>
              (case fs_read_to_string path (app_fs (live_app lv)) of
                 Inl _ \<Rightarrow> False
               | Inr contents \<Rightarrow>
                   (case Option.bind (ok (json_from_str E (trim contents))) dead_letter_from_value of
                      None \<Rightarrow> False
                    | Some entry \<Rightarrow> dl_error entry = ''unknown aggregate type: target''))))"

text \<open>The checkpoint file of the counter, read as text and parsed.\<close>

definition saved_value :: "ext \<Rightarrow> path \<Rightarrow> fs \<Rightarrow> json option" where
  "saved_value E base F =
     (case fs_read_to_string (path_join (path_join (path_join base ''projections'') ''event-counter'')
             ''checkpoint.json'') F of
        Inl _ \<Rightarrow> None
      | Inr contents \<Rightarrow> ok (json_from_str E contents))"

definition live_loop_saves_checkpoints_on_shutdown ::
  "ext \<Rightarrow> ('w, 'a, 'c, 'e, 'err) config \<Rightarrow> watch_send \<Rightarrow> path \<Rightarrow> 'w \<Rightarrow> fs \<Rightarrow> u64 \<Rightarrow> uuid \<Rightarrow> uuid \<Rightarrow> bool" where
  "live_loop_saves_checkpoints_on_shutdown E N send base w F now u v \<longleftrightarrow>
     (case mock_store_with_projection E base w F now of
        None \<Rightarrow> False
      | Some ap \<Rightarrow>
          (let lv = processed (mock_config E base N) send 0
                 [event_response E u 0 0, event_response E v 1 1, caught_up_response] ap;
               ap1 = save_all_checkpoints (mock_config E base N) (live_app lv)
           in returned_ended lv \<and>
              (case saved_value E base (app_fs ap1) of
                 None \<Rightarrow> False
               | Some parsed \<Rightarrow>
                   value_get parsed ''last_global_position'' = Some (JNumber (PosInt 2)) \<and>
                   Option.bind (value_get parsed ''state'') (\<lambda>s. value_get s ''count'') = Some (JNumber (PosInt 2)))))"

definition min_global_position_with_no_projections_returns_zero :: "'w \<Rightarrow> fs \<Rightarrow> u64 \<Rightarrow> bool" where
  "min_global_position_with_no_projections_returns_zero w F now \<longleftrightarrow>
     min_global_position (\<lparr>world = w, app_fs = F, cache = Map.empty, projections = [],
       process_managers = [], timeouts = [], clock = Some now\<rparr> :: ('w, counter, event_counter, echo_saga) app) = 0"

definition min_global_position_returns_min_of_projections_and_pms ::
  "ext \<Rightarrow> ('w, 'a, 'c, 'e, 'err) config \<Rightarrow> watch_send \<Rightarrow> path \<Rightarrow> 'w \<Rightarrow> fs \<Rightarrow> u64 \<Rightarrow> uuid \<Rightarrow> uuid \<Rightarrow> bool" where
  "min_global_position_returns_min_of_projections_and_pms E N send base w F now u v \<longleftrightarrow>
     (case mock_store_with_projection_and_pm E base w F now of
        None \<Rightarrow> False
      | Some ap \<Rightarrow>
          (let lv = processed (mock_config E base N) send 0
                 [event_response E u 0 0, event_response E v 1 1, caught_up_response] ap
           in min_global_position ap = 0 \<and> returned_ended lv \<and> min_global_position (live_app lv) = 2))"

definition backoff_respects_live_config_values :: bool where
  "backoff_respects_live_config_values \<longleftrightarrow>
     (let cfg = \<lparr>checkpoint_interval = 1000, reconnect_base_delay = 100, reconnect_max_delay = 300\<rparr>;
          d0 = reconnect_base_delay cfg; d1 = double_backoff cfg d0; d2 = double_backoff cfg d1;
          d3 = double_backoff cfg d2
      in d0 = 100 \<and> d1 = 200 \<and> d2 = 300 \<and> d3 = 300)"

definition stream_error_returns_stream_outcome_error ::
  "ext \<Rightarrow> ('w, 'a, 'c, 'e, 'err) config \<Rightarrow> watch_send \<Rightarrow> path \<Rightarrow> 'w \<Rightarrow> fs \<Rightarrow> u64 \<Rightarrow> uuid \<Rightarrow> bool" where
  "stream_error_returns_stream_outcome_error E N send base w F now u \<longleftrightarrow>
     (case mock_store_with_projection E base w F now of
        None \<Rightarrow> False
      | Some ap \<Rightarrow>
          (let lv = processed (mock_config E base N) send 0
                 [event_response E u 0 0, Inl (status_new GInternal ''connection lost'')] ap
           in at_error (phase lv) \<and>
              (case counter_state (live_app lv) of None \<Rightarrow> False | Some s \<Rightarrow> counted s = 1)))"

definition process_stream_sends_position_after_each_event ::
  "ext \<Rightarrow> ('w, 'a, 'c, 'e, 'err) config \<Rightarrow> watch_send \<Rightarrow> path \<Rightarrow> 'w \<Rightarrow> fs \<Rightarrow> u64 \<Rightarrow> uuid \<Rightarrow> uuid \<Rightarrow> bool" where
  "process_stream_sends_position_after_each_event E N send base w F now u v \<longleftrightarrow>
     (case mock_store_with_projection E base w F now of
        None \<Rightarrow> False
      | Some ap \<Rightarrow>
          (let lv = processed (mock_config E base N) send 1
                 [event_response E u 0 0, event_response E v 1 1, caught_up_response] ap
           in returned_ended lv \<and> position lv = 1))"

definition run_live_loop_shutdown_saves_checkpoints ::
  "ext \<Rightarrow> ('w, 'a, 'c, 'e, 'err) config \<Rightarrow> watch_send \<Rightarrow> path \<Rightarrow> 'w \<Rightarrow> fs \<Rightarrow> u64 \<Rightarrow> uuid \<Rightarrow> bool" where
  "run_live_loop_shutdown_saves_checkpoints E N send base w F now u \<longleftrightarrow>
     (case mock_store_with_projection E base w F now of
        None \<Rightarrow> False
      | Some ap \<Rightarrow>
          (let lv = processed (mock_config E base N) send 0 [event_response E u 0 0, caught_up_response] ap;
               lv1 = (test_handle 0 (save_all_checkpoints (mock_config E base N) (live_app lv)))
                 \<lparr>caught_up := True, phase := Returned (Inr ())\<rparr>
           in returned_ended lv \<and> fst (live_shutdown False lv1) = Some (Inr ()) \<and>
              (case saved_value E base (app_fs (live_app lv1)) of
                 None \<Rightarrow> False
               | Some parsed \<Rightarrow> value_get parsed ''last_global_position'' = Some (JNumber (PosInt 1)))))"

subsection \<open>They pass\<close>

lemma backoff_test_passes: backoff_respects_live_config_values
  by (simp add: backoff_respects_live_config_values_def double_backoff_def)

lemma no_consumers_test_passes: "min_global_position_with_no_projections_returns_zero w F now"
  by (simp add: min_global_position_with_no_projections_returns_zero_def min_global_position_def positions_def)

abbreviation counter_dir :: "path \<Rightarrow> path" where
  "counter_dir base \<equiv> path_join (path_join base ''projections'') ''event-counter''"

abbreviation saga_dir :: "path \<Rightarrow> path" where
  "saga_dir base \<equiv> path_join (path_join base ''process_managers'') ''echo-saga''"

lemma dirs_below: "ancestor base (counter_dir base)" "ancestor base (saga_dir base)"
  by (simp_all add: path_join_def path_of_def ancestor_def)

lemma counter_runner_fresh:
  assumes "fresh F base"
  shows "projection_runner_new E EventCounter (counter_dir base) F =
    Inr \<lparr>checkpoint = checkpoint_default EventCounter, checkpoint_dir = counter_dir base\<rparr>"
proof -
  have "files F (checkpoint_path (counter_dir base)) = None" "\<forall>op p. io_fails F op p = None"
    using assms ancestor_trans [OF dirs_below(1) checkpoint_in] by (auto simp: fresh_def)
  then show ?thesis by (simp add: projection_runner_new_def projection_file.load_missing)
qed

lemma saga_runner_fresh:
  assumes "fresh F base"
  shows "pm_runner_new E EchoSaga (saga_dir base) F =
    Inr \<lparr>pm_checkpoint = pm_checkpoint_default EchoSaga, pm_checkpoint_dir = saga_dir base\<rparr>"
proof -
  have "files F (checkpoint_path (saga_dir base)) = None" "\<forall>op p. io_fails F op p = None"
    using assms ancestor_trans [OF dirs_below(2) checkpoint_in] by (auto simp: fresh_def)
  then show ?thesis by (simp add: pm_runner_new_def pm_file.load_missing)
qed

text \<open>A store with the counter at \<open>n\<close> events and the given managers.\<close>

definition counting :: "path \<Rightarrow> 'w \<Rightarrow> fs \<Rightarrow> u64 \<Rightarrow> u64 \<Rightarrow> echo_saga registered_pm list \<Rightarrow> ('w, 'a, event_counter, echo_saga) app" where
  "counting base w F now n pms =
     \<lparr>world = w, app_fs = F, cache = Map.empty,
      projections = [(''event-counter'', \<lparr>rp_type = 0, rp_projection = EventCounter,
        rp_runner = \<lparr>checkpoint = \<lparr>pc_state = \<lparr>counted = n\<rparr>, pc_last_global_position = n\<rparr>,
          checkpoint_dir = counter_dir base\<rparr>\<rparr>)],
      process_managers = pms, timeouts = [], clock = Some now\<rparr>"

definition saga_at :: "path \<Rightarrow> u64 \<Rightarrow> echo_saga registered_pm" where
  "saga_at base n =
     \<lparr>rpm_manager = EchoSaga, rpm_runner = \<lparr>pm_checkpoint =
        \<lparr>pmc_state = \<lparr>events_seen = n\<rparr>, pmc_last_global_position = n\<rparr>, pm_checkpoint_dir = saga_dir base\<rparr>\<rparr>"

lemma mock_stores:
  assumes "fresh F base"
  shows "mock_store_with_projection E base w F now = Some (counting base w F now 0 [])"
    and "mock_store_with_projection_and_pm E base w F now = Some (counting base w F now 0 [saga_at base 0])"
  using counter_runner_fresh [OF assms] saga_runner_fresh [OF assms]
  by (simp_all add: mock_store_with_projection_def mock_store_with_projection_and_pm_def counting_def saga_at_def)

lemma mock_config_simps [simp]:
  "cfg_ext (mock_config E base N) = E" "dispatchers (mock_config E base N) = Map.empty"
  by (simp_all add: mock_config_def)

lemma fan_out_counting:
  assumes "texts_ok E"
  shows "fan_out_projections (mock_config E base N) (make_recorded_event E u n v) (counting base w F now n pms) =
    counting base w F now (n + 1) pms"
  by (simp add: fan_out_projections_def counting_def projection_apply_event_def counter_consumes [OF assms])

lemma react_counting:
  assumes "texts_ok E"
  shows "fan_out_pms (mock_config E base N) (make_recorded_event E u n v) (counting base w F now k [saga_at base n]) =
      (counting base w F now k [saga_at base (n + 1)],
       [(echo_envelope (n + 1), path_join (saga_dir base) ''dead_letters.jsonl'')])"
    and "fan_out_pms (mock_config E base N) (make_recorded_event E u n v) (counting base w F now k []) =
      (counting base w F now k [], [])"
  by (simp_all add: fan_out_pms_def counting_def saga_at_def pm_react_event_def saga_consumes [OF assms]
      dead_letter_path_def flatten_work_def)

lemma counting_position:
  "min_global_position (counting base w F now n [saga_at base n]) = (if n = u64_MAX then 0 else n)"
proof -
  have "n \<le> u64_MAX" by (simp add: u64_MAX_def)
  then show ?thesis
    by (simp add: min_global_position_def positions_def counting_def saga_at_def projection_position_def
        pm_position_def min_absorb2)
qed

lemma counter_state_counting: "counter_state (counting base w F now n pms) = Some \<lparr>counted = n\<rparr>"
  by (simp add: counter_state_def counting_def projection_state_any_def)

lemma test_handle_simps [simp]:
  "live_app (test_handle n ap) = ap" "position (test_handle n ap) = 0" "receivers (test_handle n ap) = n"
  "caught_up (test_handle n ap) = False"
  by (simp_all add: test_handle_def)

text \<open>The counter over one event, over two, and over one before an error.\<close>

lemma processed_counter:
  assumes "texts_ok E"
  shows "processed (mock_config E base N) send k [event_response E u 0 0, caught_up_response] (counting base w F now 0 []) =
      (test_handle k (counting base w F now 1 []))\<lparr>phase := Streaming [] AtNext, caught_up := True,
         position := send k 0 0\<rparr>"
    and "processed (mock_config E base N) send k [event_response E u 0 0, event_response E v 1 1, caught_up_response]
        (counting base w F now 0 []) =
      (test_handle k (counting base w F now 2 []))\<lparr>phase := Streaming [] AtNext, caught_up := True,
         position := send k (send k 0 0) 1\<rparr>"
    and "processed (mock_config E base N) send k [event_response E u 0 0, Inl e] (counting base w F now 0 []) =
      (test_handle k (counting base w F now 1 []))\<lparr>phase := Streaming [Inl e] AtNext, position := send k 0 0\<rparr>"
  by (simp_all add: processed_def event_response_def caught_up_response_def test_handle_def eval_nat_numeral
      fan_out_counting [OF assms] react_counting [OF assms])

lemma counting_dispatch:
  obtains r F' where "live_dispatch_one (mock_config E base N) p (echo_envelope n) (counting base w F now k pms) =
      (Inr (), counting base w F' now k pms)"
    "append_dead_letter E (Some now) p (echo_envelope n) ''unknown aggregate type: target'' F = (r, F')"
proof -
  obtain r F' where a: "append_dead_letter E (Some now) p (echo_envelope n) ''unknown aggregate type: target'' F = (r, F')"
    by fastforce
  then have "\<nexists>m. r = Inl (Panicked m)"
    by (auto simp: append_dead_letter_def split: sum.splits prod.splits)
  with a show thesis
    by (intro that [of F' r]) (auto simp: live_dispatch_one_def dispatch_or_error_def dead_letter_def counting_def
        split: sum.splits fault.splits)
qed

lemma saved_counting:
  assumes "ext_ok E" and "\<forall>op q. io_fails F op q = None"
  shows "saved_value E base (app_fs (save_all_checkpoints (mock_config E base N) (counting base w F now n []))) =
    Some (json_object [(''state'', json_object [(''count'', JNumber (PosInt n))]),
      (''last_global_position'', JNumber (PosInt n))])"
proof -
  let ?ck = "\<lparr>pc_state = \<lparr>counted = n\<rparr>, pc_last_global_position = n\<rparr>"
  let ?v = "json_object [(''state'', json_object [(''count'', JNumber (PosInt n))]), (''last_global_position'', JNumber (PosInt n))]"
  have "json_wf ?v" by (simp add: json_object_def byte_in_def)
  with assms(1) obtain bs where bs: "json_to_vec_pretty E ?v = Inr bs" "utf8_valid bs" "json_from_str E bs = Inr ?v"
    by (rule ext_ok_pretty)
  obtain F' where s: "save_checkpoint E EventCounter (counter_dir base) ?ck F = (Inr (), F')"
    using counter_checkpoint_saved [OF assms] by blast
  have "checkpoint_bytes E EventCounter ?ck = Inr bs"
    using bs(1) by (simp add: checkpoint_bytes_def pretty_bytes_def checkpoint_to_value_def EventCounter_def)
  with projection_file.save_Inr [OF s] assms(2)
  have "files F' (checkpoint_path (counter_dir base)) = Some bs" "\<forall>op q. io_fails F' op q = None" by auto
  moreover have "app_fs (save_all_checkpoints (mock_config E base N) (counting base w F now n [])) = F'"
    using s by (simp add: save_all_checkpoints_def counting_def projection_save_def)
  ultimately show ?thesis
    using bs(2,3) by (simp add: saved_value_def fs_read_to_string_def fs_read_def checkpoint_path_def from_utf8_def)
qed

lemma counter_stream_tests_pass:
  assumes "texts_ok E" and "fresh F base"
  shows "live_loop_processes_events_and_fans_out_to_projections E N send base w F now u v"
    and "live_loop_saves_checkpoints_on_shutdown E N send base w F now u v"
    and "stream_error_returns_stream_outcome_error E N send base w F now u"
    and "run_live_loop_shutdown_saves_checkpoints E N send base w F now u"
proof -
  have E: "ext_ok E" "\<forall>op q. io_fails F op q = None" using assms by (simp_all add: texts_ok_def fresh_def)
  note s = mock_stores [OF assms(2)] processed_counter [OF assms(1)] saved_counting [OF E] counter_state_counting
  show "live_loop_processes_events_and_fans_out_to_projections E N send base w F now u v"
    by (simp add: live_loop_processes_events_and_fans_out_to_projections_def s returned_ended_def Let_def)
  show "live_loop_saves_checkpoints_on_shutdown E N send base w F now u v"
    by (simp add: live_loop_saves_checkpoints_on_shutdown_def s returned_ended_def Let_def) (simp add: json_object_def)
  show "stream_error_returns_stream_outcome_error E N send base w F now u"
    by (simp add: stream_error_returns_stream_outcome_error_def s Let_def)
  show "run_live_loop_shutdown_saves_checkpoints E N send base w F now u"
    by (simp add: run_live_loop_shutdown_saves_checkpoints_def s returned_ended_def Let_def live_shutdown_def join_task_def)
      (simp add: json_object_def)
qed

lemma position_test_passes:
  assumes "texts_ok E" and "fresh F base" and "watch_delivers send"
  shows "process_stream_sends_position_after_each_event E N send base w F now u v"
  using assms(3)
  by (simp add: process_stream_sends_position_after_each_event_def mock_stores [OF assms(2)]
      processed_counter [OF assms(1)] returned_ended_def Let_def watch_delivers_def)

text \<open>With the saga: every event is one more step, for its envelope.\<close>

lemma processed_saga:
  assumes "texts_ok E"
  shows "\<exists>r F1 lv. processed (mock_config E base N) send k [event_response E u 0 0, caught_up_response]
        (counting base w F now 0 [saga_at base 0]) = lv \<and> returned_ended lv \<and>
      live_app lv = counting base w F1 now 1 [saga_at base 1] \<and>
      append_dead_letter E (Some now) (path_join (saga_dir base) ''dead_letters.jsonl'') (echo_envelope 1)
        ''unknown aggregate type: target'' F = (r, F1)"
    and "\<exists>F1 lv. processed (mock_config E base N) send k
        [event_response E u 0 0, event_response E v 1 1, caught_up_response]
        (counting base w F now 0 [saga_at base 0]) = lv \<and> returned_ended lv \<and>
      live_app lv = counting base w F1 now 2 [saga_at base 2]"
proof -
  let ?p = "path_join (saga_dir base) ''dead_letters.jsonl''"
  obtain r F1 where d: "live_dispatch_one (mock_config E base N) ?p (echo_envelope 1)
      (counting base w F now 1 [saga_at base 1]) = (Inr (), counting base w F1 now 1 [saga_at base 1])"
    "append_dead_letter E (Some now) ?p (echo_envelope 1) ''unknown aggregate type: target'' F = (r, F1)"
    by (rule counting_dispatch)
  obtain r2 F2 where d2: "live_dispatch_one (mock_config E base N) ?p (echo_envelope 2)
      (counting base w F1 now 2 [saga_at base 2]) = (Inr (), counting base w F2 now 2 [saga_at base 2])"
    by (rule counting_dispatch)
  show "\<exists>r F1 lv. processed (mock_config E base N) send k [event_response E u 0 0, caught_up_response]
        (counting base w F now 0 [saga_at base 0]) = lv \<and> returned_ended lv \<and>
      live_app lv = counting base w F1 now 1 [saga_at base 1] \<and>
      append_dead_letter E (Some now) ?p (echo_envelope 1) ''unknown aggregate type: target'' F = (r, F1)"
    by (intro exI [of _ r] exI [of _ F1] exI conjI, rule refl)
      (simp_all add: processed_def event_response_def caught_up_response_def test_handle_def eval_nat_numeral
        fan_out_counting [OF assms] react_counting [OF assms] d returned_ended_def)
  show "\<exists>F1 lv. processed (mock_config E base N) send k
        [event_response E u 0 0, event_response E v 1 1, caught_up_response]
        (counting base w F now 0 [saga_at base 0]) = lv \<and> returned_ended lv \<and>
      live_app lv = counting base w F1 now 2 [saga_at base 2]"
    by (intro exI [of _ F2] exI conjI, rule refl)
      (simp_all add: processed_def event_response_def caught_up_response_def test_handle_def eval_nat_numeral
        fan_out_counting [OF assms] react_counting [OF assms] d d2 returned_ended_def)
qed

lemma echo_envelope_reads:
  "json_wf (envelope_to_value (echo_envelope n))"
  "envelope_from_value (envelope_to_value (echo_envelope n)) = Some (echo_envelope n)"
proof -
  have "utf8_valid (''echo-'' @ decimal (unat n))"
    by (rule utf8_append) (simp_all add: byte_in_def utf8_valid_ascii)
  then show "json_wf (envelope_to_value (echo_envelope n))"
    by (simp add: echo_envelope_def envelope_to_value_def context_to_value_def command_context_default_def
        with_correlation_id_def opt_to_value_def json_object_def byte_in_def)
  show "envelope_from_value (envelope_to_value (echo_envelope n)) = Some (echo_envelope n)"
    by (simp add: echo_envelope_def envelope_to_value_def context_to_value_def command_context_default_def
        with_correlation_id_def opt_to_value_def json_object_def envelope_from_value_def context_from_value_def
        opt_from_value_def opt_json_from_value_def)
qed

lemma saga_stream_tests_pass:
  assumes "texts_ok E" and "prints_trimmed E" and "fresh F base"
  shows "live_loop_dispatches_pm_envelopes_dead_letters_unknown_type E N send base w F now u"
    and "min_global_position_returns_min_of_projections_and_pms E N send base w F now u v"
proof -
  let ?p = "path_join (saga_dir base) ''dead_letters.jsonl''"
  have E: "ext_ok E" "\<forall>op q. io_fails F op q = None" using assms by (simp_all add: texts_ok_def fresh_def)
  have p: "path_parent ?p = Some (saga_dir base)" by (simp add: path_join_simple path_parent_def)
  have "ancestor base ?p" by (rule ancestor_trans [OF dirs_below(2)]) (simp add: path_join_simple ancestor_def)
  then have "files F ?p = None" using assms(3) by (simp add: fresh_def)
  moreover have "utf8_valid ''unknown aggregate type: target''" by (simp add: byte_in_def)
  ultimately obtain F' contents x where a: "append_dead_letter E (Some now) ?p (echo_envelope 1)
      ''unknown aggregate type: target'' F = (Inr (), F')" "fs_read_to_string ?p F' = Inr contents"
    "json_from_str E (trim contents) = Inr x" "dead_letter_from_value x =
      Some \<lparr>dl_envelope = echo_envelope 1, dl_error = ''unknown aggregate type: target'', dl_ts = now\<rparr>"
    using append_dead_letter_read [OF E(1) assms(2) E(2) _ p echo_envelope_reads(1) _ echo_envelope_reads(2)] by blast
  show "live_loop_dispatches_pm_envelopes_dead_letters_unknown_type E N send base w F now u"
    using processed_saga(1) [OF assms(1), of base N send 0 u w F now] a
    by (auto simp: live_loop_dispatches_pm_envelopes_dead_letters_unknown_type_def mock_stores [OF assms(3)] Let_def
        counting_def)
  show "min_global_position_returns_min_of_projections_and_pms E N send base w F now u v"
    using processed_saga(2) [OF assms(1), of base N send 0 u v w F now]
    by (auto simp: min_global_position_returns_min_of_projections_and_pms_def mock_stores [OF assms(3)] Let_def
        counting_position u64_MAX_def)
qed

end
