(* ===== verification/Unit_Tests_Store.thy ===== *)
theory Unit_Tests_Store
  imports Unit_Tests_Live Builder Actor_Lifecycle
begin

text \<open>
  The unit tests of \<^verbatim>\<open>src/actor.rs\<close> (with its mock event store) and \<^verbatim>\<open>src/store.rs\<close> on the model.
\<close>

subsection \<open>Actors over the mock store\<close>

text \<open>An actor and its handle; an identifier the mock store never looks at comes from \<open>u\<close>.\<close>

definition spawn_test_actor ::
  "ext \<Rightarrow> mock_store \<Rightarrow> fs \<Rightarrow> path \<Rightarrow> string \<Rightarrow> (actor_context \<times> (mock_store, counter) actor_state) option" where
  "spawn_test_actor E m F base i = ok (fst (spawn_state E Counter (mock_ops E) base i m F))"

definition actor_execute ::
  "ext \<Rightarrow> uuid \<Rightarrow> actor_context \<Rightarrow> counter_command \<Rightarrow> (mock_store, counter) actor_state
    \<Rightarrow> (counter_error execute_error + counter_event list) \<times> (mock_store, counter) actor_state" where
  "actor_execute E u K cmd st =
     (case actor_step E Counter (mock_ops E) (\<lambda>s. (u, s)) K (Message (Execute cmd command_context_default)) st of
        (rep, _, st1) \<Rightarrow>
          (handle_execute True (case rep of Some (ExecuteReply r) \<Rightarrow> Some r | _ \<Rightarrow> None), st1))"

definition three_precondition_failures_returns_wrong_expected_version :: "ext \<Rightarrow> uuid \<Rightarrow> fs \<Rightarrow> path \<Rightarrow> bool" where
  "three_precondition_failures_returns_wrong_expected_version E u F base \<longleftrightarrow>
     (case spawn_test_actor E (with_precondition_failures 3) F base ''c-fail'' of
        None \<Rightarrow> False
      | Some (K, st) \<Rightarrow> fst (actor_execute E u K Increment st) = Inl WrongExpectedVersion)"

definition execute_then_shutdown_saves_snapshot :: "ext \<Rightarrow> uuid \<Rightarrow> fs \<Rightarrow> path \<Rightarrow> bool" where
  "execute_then_shutdown_saves_snapshot E u F base \<longleftrightarrow>
     (case spawn_test_actor E mock_new F base ''c-snap'' of
        None \<Rightarrow> False
      | Some (K, st) \<Rightarrow>
          (case actor_execute E u K Increment st of
             (Inl _, _) \<Rightarrow> False
           | (Inr _, st1) \<Rightarrow>
               (case actor_step E Counter (mock_ops E) (\<lambda>s. (u, s)) K (Message Shutdown) st1 of
                  (_, _, st2) \<Rightarrow>
                    (case load_snapshot E Counter base ''c-snap'' (disk st2) of
                       Inr (Some snap) \<Rightarrow>
                         snap_stream_version snap = 0 \<and> counter_value (snap_state snap) = 1
                     | _ \<Rightarrow> False))))"

definition spawn_with_snapshot_catches_up_from_server :: "ext \<Rightarrow> uuid \<Rightarrow> fs \<Rightarrow> path \<Rightarrow> bool" where
  "spawn_with_snapshot_catches_up_from_server E u F base \<longleftrightarrow>
     (case save_snapshot E Counter base ''c-catchup''
             \<lparr>snap_state = \<lparr>counter_value = 2\<rparr>, snap_stream_version = 2\<rparr> F of
        (Inl _, _) \<Rightarrow> False
      | (Inr _, F1) \<Rightarrow>
          (let extra_event =
             \<lparr>re_event_id = uuid_to_string E u,
              re_stream_id = uuid_to_string E (stream_uuid E ''counter'' ''c-catchup''),
              re_stream_version = 3, re_global_position = 3, re_event_type = ''Incremented'',
              re_metadata = unwrap_or_default (json_to_vec E (json_object
                [(''aggregate_type'', JString ''counter''), (''instance_id'', JString ''c-catchup'')])),
              re_payload = ''null'', re_recorded_at = 1700000000000\<rparr>
           in case spawn_test_actor E (with_events [extra_event] mock_new) F1 base ''c-catchup'' of
                None \<Rightarrow> False
              | Some (K, st) \<Rightarrow>
                  (case actor_step E Counter (mock_ops E) (\<lambda>s. (u, s)) K (Message GetState) st of
                     (rep, _, _) \<Rightarrow>
                       (case handle_state True (case rep of Some (StateReply r) \<Rightarrow> Some r | _ \<Rightarrow> None) of
                          Inl _ \<Rightarrow> False
                        | Inr state \<Rightarrow> counter_value state = 3))))"

lemma counter_simps [simp]:
  "AGGREGATE_TYPE Counter = ''counter''" "agg_default Counter = \<lparr>counter_value = 0\<rparr>"
  "handle Counter = counter_handle" "apply_event Counter = counter_apply"
  by (simp_all add: Counter_def)

lemma spawned_fresh:
  assumes "fresh F base" and "simple_name i" and "ms_events m = []"
  shows "spawn_test_actor E m F base i =
    Some (\<lparr>stream_id = stream_uuid E ''counter'' i, instance_id = i, base_dir = base\<rparr>,
      \<lparr>store = m, agg_state = \<lparr>counter_value = 0\<rparr>, stream_version = None, disk = F\<rparr>)"
proof -
  have "files F (snapshot_path base ''counter'' i) = None"
    using assms(1) ancestor_snapshot_path [of "''counter''" i base] assms(2) by (simp add: fresh_def simple_name_def)
  then have "load_snapshot E Counter base i F = Inr None"
    using assms(1) by (intro snapshot_file.load_missing) (simp_all add: fresh_def)
  with assms(3) show ?thesis
    by (simp add: spawn_test_actor_def spawn_state_def mock_ops_def mock_read_stream_def)
qed

lemma encode_incremented:
  "encode_domain_event Counter (\<lambda>s. (u, s)) Incremented ctx ty i s =
     (Inr \<lparr>pd_event_id = u, pd_event_type = ''Incremented'', pd_payload = JNull,
        pd_metadata = metadata_of_context ctx ty i\<rparr>, s)"
  by (simp add: encode_domain_event_def Counter_def json_object_def)

lemma actor_tests_pass:
  assumes "texts_ok E" and "fresh F base"
  shows "three_precondition_failures_returns_wrong_expected_version E u F base"
    and "execute_then_shutdown_saves_snapshot E u F base"
    and "spawn_with_snapshot_catches_up_from_server E u F base"
proof -
  have E: "ext_ok E" and io: "\<forall>op q. io_fails F op q = None" using assms by (simp_all add: texts_ok_def fresh_def)
  have s: "simple_name ''c-fail''" "simple_name ''c-snap''" by (simp_all add: simple_name_def)
  show "three_precondition_failures_returns_wrong_expected_version E u F base"
    by (simp add: three_precondition_failures_returns_wrong_expected_version_def spawned_fresh [OF assms(2) s(1)]
        with_precondition_failures_def actor_execute_def execute_with_retry_def MAX_RETRIES_def eval_nat_numeral
        encode_incremented mock_ops_def mock_append_def mock_read_stream_def status_new_def handle_execute_def)
  obtain F' where sv: "save_snapshot E Counter base ''c-snap'' \<lparr>snap_state = \<lparr>counter_value = 1\<rparr>, snap_stream_version = 0\<rparr> F =
      (Inr (), F')" "load_snapshot E Counter base ''c-snap'' F' =
      Inr (Some \<lparr>snap_state = \<lparr>counter_value = 1\<rparr>, snap_stream_version = 0\<rparr>)"
    using counter_snapshot_saved [OF E assms(2)] by blast
  then show "execute_then_shutdown_saves_snapshot E u F base"
    by (simp add: execute_then_shutdown_saves_snapshot_def spawned_fresh [OF assms(2) s(2)] mock_new_def
        actor_execute_def execute_with_retry_def MAX_RETRIES_def eval_nat_numeral encode_incremented mock_ops_def
        mock_append_def mock_record_def handle_execute_def save_on_exit_def save_snapshot_quietly_def unwrap_or_def Let_def)
  obtain F1 where c: "save_snapshot E Counter base ''c-catchup'' \<lparr>snap_state = \<lparr>counter_value = 2\<rparr>, snap_stream_version = 2\<rparr> F =
      (Inr (), F1)" "load_snapshot E Counter base ''c-catchup'' F1 =
      Inr (Some \<lparr>snap_state = \<lparr>counter_value = 2\<rparr>, snap_stream_version = 2\<rparr>)"
    using counter_snapshot_saved [OF E assms(2)] by blast
  have n: "json_from_str E ''null'' = Inr JNull" using assms(1) by (simp add: texts_ok_def)
  have m: "unat u64_MAX \<noteq> 0" by (simp add: unat_u64_MAX)
  show "spawn_with_snapshot_catches_up_from_server E u F base"
    using c n m
    by (simp add: spawn_with_snapshot_catches_up_from_server_def spawn_test_actor_def spawn_state_def mock_ops_def
        mock_read_stream_def with_events_def decode_domain_event_def from_utf8_def byte_in_def json_object_def
        is_null_def handle_state_def Let_def take_Cons')
      (simp add: Counter_def counter_event_from_value_def)
qed

subsection \<open>Stores\<close>

definition mock_store_app :: "'w \<Rightarrow> fs \<Rightarrow> u64 \<Rightarrow> ('w, 'a, event_counter, echo_saga) app" where
  "mock_store_app w F now =
     \<lparr>world = w, app_fs = F, cache = Map.empty, projections = [], process_managers = [],
      timeouts = [], clock = Some now\<rparr>"

text \<open>
  The live loop of these tests is started and stopped before its task runs for the first time:
  the signal comes before the first \<open>Poll\<close>.
\<close>

definition stopped_at_once ::
  "('w, 'a, 'c, 'e, 'err) config \<Rightarrow> watch_send \<Rightarrow> ('w, 'a, 'p, 'q) live \<Rightarrow> (io_error + unit) option" where
  "stopped_at_once N send lv =
     fst (live_shutdown False (run_live_loop N live_config_default send [Signal, Poll] lv))"

definition start_live_twice_returns_already_exists_error ::
  "('w, 'a, 'c, 'e, 'err) config \<Rightarrow> watch_send \<Rightarrow> 'w \<Rightarrow> fs \<Rightarrow> u64 \<Rightarrow> bool" where
  "start_live_twice_returns_already_exists_error N send w F now \<longleftrightarrow>
     (let ap = mock_store_app w F now :: ('w, 'a, event_counter, echo_saga) app
      in case start_live live_config_default None ap of
           Inl _ \<Rightarrow> False
         | Inr lv \<Rightarrow>
             (case start_live live_config_default (Some lv) ap of
                Inl err \<Rightarrow> kind err = AlreadyExists
              | Inr _ \<Rightarrow> False) \<and>
             stopped_at_once N send lv = Some (Inr ()))"

definition start_live_returns_ok_handle ::
  "('w, 'a, 'c, 'e, 'err) config \<Rightarrow> watch_send \<Rightarrow> 'w \<Rightarrow> fs \<Rightarrow> u64 \<Rightarrow> bool" where
  "start_live_returns_ok_handle N send w F now \<longleftrightarrow>
     (case start_live live_config_default None (mock_store_app w F now :: ('w, 'a, event_counter, echo_saga) app) of
        Inl _ \<Rightarrow> False
      | Inr lv \<Rightarrow> stopped_at_once N send lv = Some (Inr ()))"

definition TestCounter :: "event_counter projection" where
  "TestCounter = EventCounter\<lparr>NAME := ''test-counter''\<rparr>"

definition FallbackCounter :: "event_counter projection" where
  "FallbackCounter = EventCounter\<lparr>NAME := ''fallback-counter''\<rparr>"

definition ProjTestCounter :: "event_counter projection" where
  "ProjTestCounter = EventCounter\<lparr>NAME := ''proj-test-counter''\<rparr>"

definition ProjTestCounter2 :: "event_counter projection" where
  "ProjTestCounter2 = EventCounter\<lparr>NAME := ''proj-test-counter2''\<rparr>"

definition live_projection_returns_state_when_live_active ::
  "ext \<Rightarrow> ('w, 'a, 'c, 'e, 'err) config \<Rightarrow> path \<Rightarrow> 'w \<Rightarrow> fs \<Rightarrow> u64 \<Rightarrow> uuid \<Rightarrow> uuid \<Rightarrow> bool" where
  "live_projection_returns_state_when_live_active E N base w F now u v \<longleftrightarrow>
     (case projection_runner_new E TestCounter
             (path_join (path_join base ''projections'') ''test-counter'') F of
        Inl _ \<Rightarrow> False
      | Inr runner \<Rightarrow>
          (let recorded = make_recorded_event E u 0 0;
               recorded2 = recorded\<lparr>re_global_position := 1, re_stream_version := 1\<rparr>;
               recorded3 = make_recorded_event E v 2 2;
               runner3 = projection_apply_event E TestCounter recorded3
                 (projection_apply_event E TestCounter recorded2
                   (projection_apply_event E TestCounter recorded runner));
               ap = (mock_store_app w F now)\<lparr>projections :=
                 [(''test-counter'', \<lparr>rp_type = 0, rp_projection = TestCounter, rp_runner = runner3\<rparr>)]\<rparr>
                 :: ('w, 'a, event_counter, echo_saga) app
           in case fst (live_projection (mock_config E base N) TestCounter 0 True ap) of
                Inl _ \<Rightarrow> False
              | Inr state \<Rightarrow> counted state = 3))"

definition live_projection_falls_back_when_not_live ::
  "('w, 'a, 'c, 'e, 'err) config \<Rightarrow> 'w \<Rightarrow> fs \<Rightarrow> u64 \<Rightarrow> bool" where
  "live_projection_falls_back_when_not_live N w F now \<longleftrightarrow>
     (case fst (live_projection N FallbackCounter 0 False
             (mock_store_app w F now :: ('w, 'a, event_counter, echo_saga) app)) of
        Inl err \<Rightarrow> kind err = NotFound
      | Inr _ \<Rightarrow> False)"

text \<open>\<open>projection\<close> does not look at the live handle: with one (the first test) or without.\<close>

definition projection_works_when_live_mode_active ::
  "('w, 'a, 'c, 'e, 'err) config \<Rightarrow> 'w \<Rightarrow> fs \<Rightarrow> u64 \<Rightarrow> bool" where
  "projection_works_when_live_mode_active N w F now \<longleftrightarrow>
     (case fst (store_projection N ProjTestCounter 0
             (mock_store_app w F now :: ('w, 'a, event_counter, echo_saga) app)) of
        Inl err \<Rightarrow> kind err = NotFound
      | Inr _ \<Rightarrow> False)"

definition projection_works_when_live_mode_not_active ::
  "('w, 'a, 'c, 'e, 'err) config \<Rightarrow> 'w \<Rightarrow> fs \<Rightarrow> u64 \<Rightarrow> bool" where
  "projection_works_when_live_mode_not_active N w F now \<longleftrightarrow>
     (case fst (store_projection N ProjTestCounter2 0
             (mock_store_app w F now :: ('w, 'a, event_counter, echo_saga) app)) of
        Inl err \<Rightarrow> kind err = NotFound
      | Inr _ \<Rightarrow> False)"

text \<open>No server listens on port 1: \<open>connect\<close> refuses it.\<close>

definition builder_connect_returns_err_when_no_server ::
  "(string \<Rightarrow> es_client \<Rightarrow> 'terr option) \<Rightarrow> path \<Rightarrow> ('w, 'a, 'c, 'e, 'err) config \<Rightarrow> 'w \<Rightarrow> fs \<Rightarrow> u64 \<Rightarrow> bool" where
  "builder_connect_returns_err_when_no_server connect temp_dir N w F now \<longleftrightarrow>
     (case open_store connect temp_dir N
             (with_endpoint ''http://127.0.0.1:1'' builder_new :: ('c, 'err, event_counter, echo_saga) builder)
             w F [] (Some now) of
        Inl (Raised _) \<Rightarrow> True
      | _ \<Rightarrow> False)"

definition builder_without_auth_token_has_none :: bool where
  "builder_without_auth_token_has_none \<longleftrightarrow>
     \<not> b_auth_token (builder_new :: (counter_command, counter_error, event_counter, echo_saga) builder)"

definition builder_with_auth_token_has_some :: bool where
  "builder_with_auth_token_has_some \<longleftrightarrow>
     b_auth_token (with_auth_token builder_new :: (counter_command, counter_error, event_counter, echo_saga) builder)"

text \<open>The handle in the cache is to an actor whose channel is open: \<open>K\<close> and \<open>st\<close> are arbitrary.\<close>

definition get_twice_returns_cached_alive_handles ::
  "('w, counter, counter_command, counter_event, counter_error) config \<Rightarrow> actor_context \<Rightarrow> ('w, counter) actor_state
    \<Rightarrow> 'w \<Rightarrow> fs \<Rightarrow> u64 \<Rightarrow> bool" where
  "get_twice_returns_cached_alive_handles N K st w F now \<longleftrightarrow>
     (let ap = (mock_store_app w F now :: ('w, counter, event_counter, echo_saga) app)
            \<lparr>cache := [(0, ''c-1'') \<mapsto> Alive K st]\<rparr>
      in case store_get N 0 ''c-1'' ap of
           (Inl _, _) \<Rightarrow> False
         | (Inr _, ap1) \<Rightarrow>
             cache ap1 (0, ''c-1'') = Some (Alive K st) \<and>
             (case store_get N 0 ''c-1'' ap1 of
                (Inl _, _) \<Rightarrow> False
              | (Inr _, ap2) \<Rightarrow> cache ap2 (0, ''c-1'') = Some (Alive K st)))"

lemma start_live_tests_pass:
  "start_live_twice_returns_already_exists_error N send w F now" "start_live_returns_ok_handle N send w F now"
  by (simp_all add: start_live_twice_returns_already_exists_error_def start_live_returns_ok_handle_def start_live_def
      stopped_at_once_def live_start_def live_config_default_def run_live_loop_def poll_step_def connect_step_def
      live_shutdown_def join_task_def io_error_new_def Let_def)

lemma test_counter_consumes:
  assumes "texts_ok E"
  shows "apply_recorded_event E TestCounter (make_recorded_event E u gp v) (x, pos) =
      (if gp < pos then (x, pos) else (x\<lparr>counted := counted x + 1\<rparr>, gp + 1))"
  using decode_make_recorded_event [OF assms, of u gp v]
  by (auto simp: apply_recorded_event_def TestCounter_def EventCounter_def event_counter_apply_def)

lemma make_recorded_event_update [simp]:
  "(make_recorded_event E u gp v)\<lparr>re_global_position := gp', re_stream_version := v'\<rparr> = make_recorded_event E u gp' v'"
  by (simp add: make_recorded_event_def)

lemma live_projection_test_passes:
  assumes "texts_ok E" and "fresh F base"
  shows "live_projection_returns_state_when_live_active E N base w F now u v"
proof -
  let ?d = "path_join (path_join base ''projections'') ''test-counter''"
  have "ancestor base ?d" by (simp add: path_join_def path_of_def ancestor_def)
  then have "files F (checkpoint_path ?d) = None" "\<forall>op p. io_fails F op p = None"
    using assms(2) ancestor_trans [OF _ checkpoint_in, of base ?d] by (auto simp: fresh_def)
  then have "projection_runner_new E TestCounter ?d F =
      Inr \<lparr>checkpoint = checkpoint_default TestCounter, checkpoint_dir = ?d\<rparr>"
    by (simp add: projection_runner_new_def projection_file.load_missing)
  moreover have "checkpoint_default TestCounter = \<lparr>pc_state = \<lparr>counted = 0\<rparr>, pc_last_global_position = 0\<rparr>"
    "NAME TestCounter = ''test-counter''" by (simp_all add: TestCounter_def checkpoint_default_def)
  ultimately show ?thesis
    by (simp add: live_projection_returns_state_when_live_active_def projection_apply_event_def
        test_counter_consumes [OF assms(1)] live_projection_def projection_state_any_def)
qed

lemma projection_tests_pass:
  "live_projection_falls_back_when_not_live N w F now" "projection_works_when_live_mode_active N w F now"
  "projection_works_when_live_mode_not_active N w F now"
  by (simp_all add: live_projection_falls_back_when_not_live_def projection_works_when_live_mode_active_def
      projection_works_when_live_mode_not_active_def live_projection_def store_projection_def mock_store_app_def
      not_registered_def io_error_new_def)

lemma builder_tests_pass2:
  "connect ''http://127.0.0.1:1'' Plain = Some e \<Longrightarrow> builder_connect_returns_err_when_no_server connect t N w F now"
  builder_without_auth_token_has_none builder_with_auth_token_has_some
  by (simp_all add: builder_connect_returns_err_when_no_server_def open_store_def with_endpoint_def builder_new_def
      es_connect_def builder_without_auth_token_has_none_def builder_with_auth_token_has_some_def with_auth_token_def)

lemma get_twice_test_passes: "get_twice_returns_cached_alive_handles N K st w F now"
  by (simp add: get_twice_returns_cached_alive_handles_def store_get_def)

end
