(* ===== verification/Spec2Isabelle.thy ===== *)
theory Spec2Isabelle
  imports Data_Properties Actor_Properties Consumer_Properties Store_Properties Live_Properties
    Builder_Properties System_Properties Concurrent_Properties Live_History Unit_Tests_Store
begin

text \<open>
  A model of \<^verbatim>\<open>eventfold-es\<close>, an event-sourcing library over the \<^verbatim>\<open>eventfold-db\<close>
  gRPC server, and its correctness. Paths are under \<^verbatim>\<open>src/\<close> of the repository.

  \<^bold>\<open>The program.\<close> An aggregate is a state and two functions: a handler that turns a command into
  events or an error, and a fold of events into the state. Each instance is owned by an actor
  that keeps the state in memory, writes events to the stream of the instance with an expected
  version, and re-reads and retries when another writer was first. Projections and process
  managers fold the global log of all streams; the latter answer events with commands for
  other aggregates. The store composes them: it spawns and caches actors, runs rounds of the
  process managers, dispatches their commands or writes them to a dead-letter log, and can run
  a live loop that does all this from one open subscription. Snapshots and checkpoints are
  local files that only save work: the streams of the server are the truth.

  \<^bold>\<open>Theories and sources.\<close>
    \<^item> \<^verbatim>\<open>Prelude\<close>, \<^verbatim>\<open>Platform\<close>: machine types, errors and panics, UTF-8; what is used of
      \<^verbatim>\<open>serde_json\<close>, \<^verbatim>\<open>uuid\<close> and \<^verbatim>\<open>tonic\<close>, with its documented laws (\<open>ext_ok\<close>).
    \<^item> \<^verbatim>\<open>Storage\<close> (\<^verbatim>\<open>src/storage.rs\<close> and \<^verbatim>\<open>std::fs\<close>): paths, files with failures and torn
      writes, the directory layout; the locale \<open>checkpoint_file\<close> of a file that is replaced
      atomically.
    \<^item> \<^verbatim>\<open>Command\<close>, \<^verbatim>\<open>Aggregate\<close>, \<^verbatim>\<open>Proto\<close>, \<^verbatim>\<open>Event\<close>, \<^verbatim>\<open>Auth\<close>, \<^verbatim>\<open>Client\<close>, \<^verbatim>\<open>Snapshot\<close>:
      the sources of the same names (\<^verbatim>\<open>Proto\<close>: \<^verbatim>\<open>proto/eventfold.proto\<close>). A trait is a record
      of its methods; \<open>adjacently_tagged\<close> is the contract of an aggregate's serialisation.
    \<^item> \<^verbatim>\<open>Event_Store\<close>, \<^verbatim>\<open>Actor\<close> (\<^verbatim>\<open>src/actor.rs\<close>): the trait \<open>EventStoreOps\<close>, its contract
      \<open>store_contract\<close>, its two implementations; the actor, with \<open>actor_step\<close> for one turn of
      its loop and \<open>run_actor\<close> for its life.
    \<^item> \<^verbatim>\<open>Errors\<close> (\<^verbatim>\<open>src/error.rs\<close>): the error types and what they print; \<open>dispatch_error\<close> is
      exported by the crate and never constructed.
    \<^item> \<^verbatim>\<open>Cursor\<close>: what projections and process managers share, as the locales \<open>cursor_step\<close>
      and \<open>cursor_runner\<close>; \<^verbatim>\<open>Projection\<close>, \<^verbatim>\<open>Process_Manager\<close>: the sources of these names,
      which interpret them.
    \<^item> \<^verbatim>\<open>Store\<close>, \<^verbatim>\<open>Builder\<close> (\<^verbatim>\<open>src/store.rs\<close>), \<^verbatim>\<open>Live\<close> (\<^verbatim>\<open>src/live.rs\<close>): the store, its
      builder, the live loop. \<open>app\<close> is the mutable state of an \<open>AggregateStore\<close> together with
      the world it acts on, \<open>config\<close> its immutable part.
    \<^item> \<^verbatim>\<open>System\<close>: the step relation \<open>system_step\<close> of the running system, where the operations of
      clients (\<open>store_step\<close>) come between the steps of the live loop (\<open>live_step\<close>).
    \<^item> \<^verbatim>\<open>Concurrent\<close>: clients of one store that overlap. \<open>get\<close> in the steps between its awaits
      (\<open>get_step\<close>), actors as tasks behind handles (\<open>task_turn\<close>), their interleavings
      (\<open>pool_step\<close>).
    \<^item> \<^verbatim>\<open>Example_Counter\<close> (\<^verbatim>\<open>examples/counter.rs\<close>): the aggregate and projection of the example.
    \<^item> \<^verbatim>\<open>Reference_Env\<close>, \<^verbatim>\<open>Store_Samples\<close>: concrete instances of every parameter, on which the
      theorems are applied in the closed theorems \<open>..._witness\<close>.
    \<^item> \<^verbatim>\<open>Unit_Tests\<close>, \<^verbatim>\<open>Unit_Tests_Projection\<close>, \<^verbatim>\<open>Unit_Tests_Process_Manager\<close>, \<^verbatim>\<open>Unit_Tests_Live\<close>,
      \<^verbatim>\<open>Unit_Tests_Store\<close>: the unit tests of the sources, which the model passes.

  \<^bold>\<open>Lemma groups.\<close>
    \<^item> \<^verbatim>\<open>Data_Properties\<close>: what is written reads back (events, metadata, envelopes, snapshots,
      also over a crash within a write), streams and files of different instances are
      different, the client turns the contract of the server into that of \<open>EventStoreOps\<close>.
    \<^item> \<^verbatim>\<open>Actor_Correct\<close>, \<^verbatim>\<open>Actor_Lifecycle\<close>, \<^verbatim>\<open>Actor_Properties\<close>: the local state is the fold of
      a prefix of the stream, a successful command was decided on the whole stream before its
      own events, a respawn recovers the whole stream; and the defect of an actor that exits
      before it has seen an event.
    \<^item> \<^verbatim>\<open>Consumer_Properties\<close>: every event is consumed once however often it is delivered,
      over restarts too.
    \<^item> \<^verbatim>\<open>Store_Correct\<close>, \<^verbatim>\<open>Store_Invariant\<close>, \<^verbatim>\<open>Store_Runs\<close>, \<^verbatim>\<open>Store_Properties\<close>: which
      files each operation may touch, the invariant of all actors and consumers over the step
      relation \<open>store_step\<close> that clients and other writers share, the account of every envelope.
    \<^item> \<^verbatim>\<open>Save_All\<close>: saving many checkpoints, as the locale \<open>checkpoint_list\<close> with projections
      and process managers as its instances.
    \<^item> \<^verbatim>\<open>Live_Correct\<close>, \<^verbatim>\<open>Live_Properties\<close>: the states the loop reaches (\<open>live_reachable\<close>), its
      invariants, progress to the end of the log, shutdown, delays; and that the loop brings
      every consumer to the state that a round or a pull brings it to.
    \<^item> \<^verbatim>\<open>System\<close>, \<^verbatim>\<open>System_Properties\<close>: the invariants of the store and of the loop together,
      over every interleaving of the loop, the clients and other writers.
    \<^item> \<^verbatim>\<open>Live_History\<close>: what the loop hands to the dispatcher over a whole run is one pass of the
      managers over the log.
    \<^item> \<^verbatim>\<open>Concurrent\<close>, \<^verbatim>\<open>Concurrent_Properties\<close>: handles lead to actors of their instance, states stay
      folds of prefixes and commands serialised also when calls of \<open>get\<close> overlap and several
      actors of an instance run (they can: \<open>get_race\<close>); calls that do not overlap do what the
      atomic operations of \<^verbatim>\<open>Store\<close> do.
    \<^item> \<^verbatim>\<open>Builder_Properties\<close>: what \<open>open\<close> makes of the registrations, that the invariant holds
      from there on, and that a store reopened after a shutdown continues where it was.

  \<^bold>\<open>Correspondence and granularity.\<close> The world \<open>'w\<close> is the server with all other clients; every
  call returns the next world, and others may act within every call. A store operation is one
  step; an actor message is handled at once, unless the schedule \<open>timeouts\<close> of the state says
  that the idle timer of the actor fires first. The live loop moves from \<open>await\<close> to \<open>await\<close>:
  \<open>Poll\<close> handles one item of the stream, or one envelope, or wakes from one wait; the timer and
  the signal may come between any two, as \<open>select!\<close> drops or interrupts the stream future
  there. A subscription is the list of the items it yields until it ends. The clock is part of
  the state and may be before the epoch, where a dead letter panics.

  \<^bold>\<open>Bounds.\<close> Versions and positions are 64-bit words that wrap as in a release build; the
  theorems ask that a log ends below the largest one. Every function terminates: the retry loop
  makes \<open>MAX_RETRIES\<close> attempts, the loops over streams and vectors are structural, and the live
  loop runs one step per event of its schedule, so that its liveness is stated as the existence
  of a number of steps. Lengths are natural numbers. Durations are milliseconds as natural
  numbers; \<open>Duration * 2\<close> panics only above the half of its range, which the loop would have
  to sleep first.

  \<^bold>\<open>Parameters.\<close> Not under \<^verbatim>\<open>src/\<close> and arguments of the model: the text form of JSON and of
  identifiers (\<open>ext\<close>), the generated gRPC client with the server behind it (\<open>rpc\<close>), the random
  identifiers, what \<open>watch::Sender::send\<close> leaves in a channel (\<open>watch_send\<close>), the channel
  that \<open>es_connect\<close> opens, and the aggregates, projections and process managers of the user.

  \<^bold>\<open>Not modelled.\<close> The generated protobuf code and the transport, log output, \<^verbatim>\<open>src/lib.rs\<close> and
  \<^verbatim>\<open>build.rs\<close> (re-exports and code generation), the \<open>main\<close> of the example. Operations of clients
  come between the steps of the live loop, each as one step. \<^verbatim>\<open>Concurrent\<close> takes \<open>get\<close> apart at its
  \<open>await\<close>s and lets the turns of actors come in between; the other operations of the store
  (rounds, pulls, injections) are not taken apart. An actor may exit idle between any two steps (\<open>actor_elapses\<close>), and within
  an operation as \<open>timeouts\<close> says; the invariants of the store and of the system are those of runs
  with \<open>timeouts = []\<close>, where the actors that exit have seen an event and have a snapshot file of
  their own (\<open>exits_apart\<close>; it is enough that type names and ids are single path components).
  Other exits break the invariant: \<^verbatim>\<open>Actor_Properties\<close> shows what an actor that has seen no event
  does to its successor, and ids such as \<open>./c1\<close> share a file with others.
\<close>

end
